(* ===== verification/Zkpi_Prelude.thy ===== *)
theory Zkpi_Prelude
  imports Main "HOL-Library.Word" "HOL-Library.Monad_Syntax"
begin

text \<open>
  Shared vocabulary of the development: Rust results as sums with the question-mark operator as
  \<open>and_then\<close>, bytes and big-endian integers, checked machine arithmetic, and the list lemmas the
  component theories use. The collection \<open>result_simps\<close> inverts successful results, so that a
  handler that returned \<open>Inr\<close> is opened step by step by \<open>auto simp: result_simps\<close>.
\<close>

named_theorems result_simps

section \<open>Results\<close>

text \<open>Rust's \<open>Result<A, E>\<close>: \<open>Inl\<close> is the error. \<open>and_then\<close> is the \<open>?\<close> operator.\<close>

definition and_then :: "'e + 'a \<Rightarrow> ('a \<Rightarrow> 'e + 'b) \<Rightarrow> 'e + 'b" where
  "and_then r f = (case r of Inl e \<Rightarrow> Inl e | Inr x \<Rightarrow> f x)"

definition refuse_if :: "bool \<Rightarrow> 'e \<Rightarrow> 'e + unit" where
  "refuse_if b e = (if b then Inl e else Inr ())"

definition ok_or :: "'a option \<Rightarrow> 'e \<Rightarrow> 'e + 'a" where
  "ok_or x e = (case x of None \<Rightarrow> Inl e | Some v \<Rightarrow> Inr v)"

definition map_err :: "('e \<Rightarrow> 'f) \<Rightarrow> 'e + 'a \<Rightarrow> 'f + 'a" where
  "map_err g r = (case r of Inl e \<Rightarrow> Inl (g e) | Inr x \<Rightarrow> Inr x)"

definition is_ok :: "'e + 'a \<Rightarrow> bool" where
  "is_ok r = (case r of Inl _ \<Rightarrow> False | Inr _ \<Rightarrow> True)"

lemma and_then_Inl [simp]: "and_then (Inl e) f = Inl e"
  and and_then_Inr [simp]: "and_then (Inr x) f = f x"
  by (simp_all add: and_then_def)

lemma and_then_eq_Inr [result_simps]:
  "and_then r f = Inr y \<longleftrightarrow> (\<exists>x. r = Inr x \<and> f x = Inr y)"
  by (cases r) (auto simp: and_then_def)

lemma and_then_eq_Inl [result_simps]:
  "and_then r f = Inl e \<longleftrightarrow> r = Inl e \<or> (\<exists>x. r = Inr x \<and> f x = Inl e)"
  by (cases r) (auto simp: and_then_def)

lemma refuse_if_eq_Inr [result_simps]: "refuse_if b e = Inr u \<longleftrightarrow> \<not> b"
  by (simp add: refuse_if_def)

lemma refuse_if_eq_Inl [result_simps]: "refuse_if b e = Inl e' \<longleftrightarrow> b \<and> e' = e"
  by (auto simp: refuse_if_def)

lemma refuse_if_simps [simp]: "refuse_if True e = Inl e" "refuse_if False e = Inr ()"
  by (simp_all add: refuse_if_def)

lemma ok_or_eq_Inr [result_simps]: "ok_or x e = Inr v \<longleftrightarrow> x = Some v"
  by (cases x) (simp_all add: ok_or_def)

lemma ok_or_eq_Inl [result_simps]: "ok_or x e = Inl e' \<longleftrightarrow> x = None \<and> e' = e"
  by (cases x) (auto simp: ok_or_def)

lemma ok_or_simps [simp]: "ok_or None e = Inl e" "ok_or (Some v) e = Inr v"
  by (simp_all add: ok_or_def)

lemma map_err_eq_Inr [result_simps]: "map_err g r = Inr x \<longleftrightarrow> r = Inr x"
  by (cases r) (simp_all add: map_err_def)

lemma map_err_simps [simp]: "map_err g (Inl e) = Inl (g e)" "map_err g (Inr x) = Inr x"
  by (simp_all add: map_err_def)

lemma is_ok_iff [result_simps]: "is_ok r \<longleftrightarrow> (\<exists>x. r = Inr x)"
  by (cases r) (simp_all add: is_ok_def)

lemma is_ok_simps [simp]: "\<not> is_ok (Inl e)" "is_ok (Inr x)"
  by (simp_all add: is_ok_def)

text \<open>A Rust \<open>for\<close> loop whose body may return early with an error, threading a state.\<close>

fun try_fold :: "('s \<Rightarrow> 'x \<Rightarrow> 'e + 's) \<Rightarrow> 's \<Rightarrow> 'x list \<Rightarrow> 'e + 's" where
  "try_fold f s [] = Inr s"
| "try_fold f s (x # xs) = and_then (f s x) (\<lambda>s'. try_fold f s' xs)"

text \<open>\<open>iter().map(f).collect::<Result<Vec<_>, _>>()\<close>: the first error wins.\<close>

fun try_map :: "('x \<Rightarrow> 'e + 'y) \<Rightarrow> 'x list \<Rightarrow> 'e + 'y list" where
  "try_map f [] = Inr []"
| "try_map f (x # xs) = and_then (f x) (\<lambda>y. and_then (try_map f xs) (\<lambda>ys. Inr (y # ys)))"

lemma try_map_cong [fundef_cong]:
  assumes "xs = ys" and "\<And>x. x \<in> set ys \<Longrightarrow> f x = g x"
  shows "try_map f xs = try_map g ys"
  using assms by (induction ys arbitrary: xs) (auto simp: and_then_def split: sum.splits)

lemma try_map_Inr_iff:
  "try_map f xs = Inr ys \<longleftrightarrow> list_all2 (\<lambda>x y. f x = Inr y) xs ys"
  by (induction xs arbitrary: ys) (auto simp: result_simps list_all2_Cons1)

lemma try_map_total: "(\<And>x. x \<in> set xs \<Longrightarrow> \<exists>y. f x = Inr y) \<Longrightarrow> \<exists>ys. try_map f xs = Inr ys"
  by (induction xs) (auto, metis and_then_Inr)

lemma try_map_nth:
  "try_map f xs = Inr ys \<Longrightarrow> length ys = length xs \<and> (\<forall>i < length xs. f (xs ! i) = Inr (ys ! i))"
  by (auto simp: try_map_Inr_iff list_all2_conv_all_nth)

lemma try_fold_append:
  "try_fold f s (xs @ ys) = and_then (try_fold f s xs) (\<lambda>s'. try_fold f s' ys)"
proof (induction xs arbitrary: s)
  case (Cons x xs)
  then show ?case by (cases "f s x") auto
qed simp

lemma try_fold_invariant:
  assumes "try_fold f s xs = Inr s'" and "I s"
    and "\<And>s x t. x \<in> set xs \<Longrightarrow> I s \<Longrightarrow> f s x = Inr t \<Longrightarrow> I t"
  shows "I s'"
  using assms
proof (induction xs arbitrary: s)
  case (Cons x xs)
  from Cons.prems(1) obtain t where t: "f s x = Inr t" "try_fold f t xs = Inr s'"
    by (auto simp: result_simps)
  have "I t" using Cons.prems(2,3) t(1) by auto
  then show ?case using Cons.IH[OF t(2)] Cons.prems(3) by auto
qed simp

section \<open>Machine integers\<close>

type_synonym u8 = "8 word"
type_synonym u16 = "16 word"
type_synonym u32 = "32 word"
type_synonym u64 = "64 word"
type_synonym bytes = "8 word list"

text \<open>A fixed array \<open>[u8; 32]\<close> is a byte list; the length is part of the well-formedness
  predicates where a proof depends on it.\<close>

type_synonym bytes32 = "8 word list"

definition zero32 :: bytes32 where
  "zero32 = replicate 32 0"

lemma unat_bound: "unat (w :: 'w::len word) < 2 ^ LENGTH('w)"
  by (rule unsigned_less)

definition checked_add :: "'w::len word \<Rightarrow> 'w word \<Rightarrow> 'w word option" where
  "checked_add a b = (if unat a + unat b < 2 ^ LENGTH('w) then Some (a + b) else None)"

definition checked_sub :: "'w::len word \<Rightarrow> 'w word \<Rightarrow> 'w word option" where
  "checked_sub a b = (if b \<le> a then Some (a - b) else None)"

definition saturating_add :: "'w::len word \<Rightarrow> 'w word \<Rightarrow> 'w word" where
  "saturating_add a b = (if unat a + unat b < 2 ^ LENGTH('w) then a + b else - 1)"

lemma checked_add_Some:
  "checked_add a b = Some c \<longleftrightarrow> unat a + unat b < 2 ^ LENGTH('w) \<and> c = (a + b :: 'w::len word)"
  by (auto simp: checked_add_def)

lemma unat_checked_add: "checked_add a b = Some c \<Longrightarrow> unat c = unat a + unat b"
  by (auto simp: checked_add_def unat_word_ariths split: if_splits)

lemma checked_sub_Some: "checked_sub a b = Some c \<longleftrightarrow> b \<le> a \<and> c = a - b"
  by (auto simp: checked_sub_def)

lemma unat_checked_sub: "checked_sub a b = Some c \<Longrightarrow> unat a = unat c + unat b"
  by (auto simp: checked_sub_def word_le_nat_alt unat_sub split: if_splits)

lemma checked_add_None: "checked_add a b = None \<longleftrightarrow> 2 ^ LENGTH('w) \<le> unat a + unat (b :: 'w::len word)"
  by (auto simp: checked_add_def)

lemma checked_sub_None: "checked_sub a b = None \<longleftrightarrow> unat a < unat b"
  by (auto simp: checked_sub_def word_le_nat_alt)

lemma unat_saturating_add:
  "unat (saturating_add a b :: 'w::len word) = min (unat a + unat b) (2 ^ LENGTH('w) - 1)"
proof (cases "unat a + unat b < 2 ^ LENGTH('w)")
  case True
  then show ?thesis by (simp add: saturating_add_def unat_word_ariths)
next
  case False
  have "unat (- 1 :: 'w word) = 2 ^ LENGTH('w) - 1"
    by (simp add: unsigned_minus_1_eq_mask mask_eq_exp_minus_1)
  with False show ?thesis by (simp add: saturating_add_def)
qed

section \<open>Big-endian encodings\<close>

text \<open>\<open>to_be_bytes\<close> of an unsigned integer of \<open>n\<close> bytes, and \<open>from_be_bytes\<close>.\<close>

fun be_bytes :: "nat \<Rightarrow> nat \<Rightarrow> bytes" where
  "be_bytes 0 v = []"
| "be_bytes (Suc n) v = be_bytes n (v div 256) @ [word_of_nat (v mod 256)]"

definition from_be :: "bytes \<Rightarrow> nat" where
  "from_be bs = foldl (\<lambda>a b. a * 256 + unat b) 0 bs"

lemma length_be_bytes [simp]: "length (be_bytes n v) = n"
  by (induction n arbitrary: v) auto

lemma from_be_snoc: "from_be (bs @ [b]) = from_be bs * 256 + unat b"
  by (simp add: from_be_def)

lemma from_be_Nil [simp]: "from_be [] = 0"
  by (simp add: from_be_def)

lemma unat_byte_of_nat: "v < 256 \<Longrightarrow> unat (word_of_nat v :: u8) = v"
  by (simp add: unat_of_nat take_bit_nat_eq_self)

lemma from_be_be_bytes: "v < 256 ^ n \<Longrightarrow> from_be (be_bytes n v) = v"
proof (induction n arbitrary: v)
  case (Suc n)
  then have "v div 256 < 256 ^ n"
    by (simp add: less_mult_imp_div_less mult.commute)
  then show ?case using Suc.IH by (simp add: from_be_snoc unat_byte_of_nat)
qed simp

lemma from_be_bound: "from_be bs < 256 ^ length bs"
proof (induction bs rule: rev_induct)
  case (snoc b bs)
  have "unat b < 256" using unat_bound[of b] by simp
  with snoc show ?case by (simp add: from_be_snoc)
qed simp

lemma be_bytes_from_be: "length bs = n \<Longrightarrow> be_bytes n (from_be bs) = bs"
proof (induction n arbitrary: bs)
  case (Suc n)
  then obtain cs c where bs: "bs = cs @ [c]" "length cs = n"
    by (metis length_Suc_conv_rev)
  have "unat c < 256" using unat_bound[of c] by simp
  then show ?case using Suc.IH[OF bs(2)] by (simp add: bs(1) from_be_snoc)
qed simp

lemma be_bytes_inj:
  assumes "be_bytes n a = be_bytes n b" and "a < 256 ^ n" and "b < 256 ^ n"
  shows "a = b"
  by (metis assms from_be_be_bytes)

definition u16_be :: "u16 \<Rightarrow> bytes" where "u16_be w = be_bytes 2 (unat w)"
definition u32_be :: "u32 \<Rightarrow> bytes" where "u32_be w = be_bytes 4 (unat w)"
definition u64_be :: "u64 \<Rightarrow> bytes" where "u64_be w = be_bytes 8 (unat w)"

lemma length_u16_be [simp]: "length (u16_be a) = 2"
  and length_u32_be [simp]: "length (u32_be b) = 4"
  and length_u64_be [simp]: "length (u64_be c) = 8"
  by (simp_all add: u16_be_def u32_be_def u64_be_def)

lemma from_be_u16: "word_of_nat (from_be (u16_be w)) = w"
  using unat_bound[of w] by (simp add: u16_be_def from_be_be_bytes)

lemma from_be_u32: "word_of_nat (from_be (u32_be w)) = w"
  using unat_bound[of w] by (simp add: u32_be_def from_be_be_bytes)

lemma from_be_u64: "word_of_nat (from_be (u64_be w)) = w"
  using unat_bound[of w] by (simp add: u64_be_def from_be_be_bytes)

lemma u64_be_inj [simp]: "u64_be a = u64_be b \<longleftrightarrow> a = b"
  by (metis from_be_u64)

lemma u32_be_inj [simp]: "u32_be a = u32_be b \<longleftrightarrow> a = b"
  by (metis from_be_u32)

lemma u16_be_inj [simp]: "u16_be a = u16_be b \<longleftrightarrow> a = b"
  by (metis from_be_u16)

lemma u32_be_from: "length bs = 4 \<Longrightarrow> u32_be (word_of_nat (from_be bs)) = bs"
  using from_be_bound[of bs] by (simp add: u32_be_def unat_of_nat take_bit_nat_eq_self be_bytes_from_be)

lemma u16_be_from: "length bs = 2 \<Longrightarrow> u16_be (word_of_nat (from_be bs)) = bs"
  using from_be_bound[of bs] by (simp add: u16_be_def unat_of_nat take_bit_nat_eq_self be_bytes_from_be)

lemma u64_be_from: "length bs = 8 \<Longrightarrow> u64_be (word_of_nat (from_be bs)) = bs"
  using from_be_bound[of bs] by (simp add: u64_be_def unat_of_nat take_bit_nat_eq_self be_bytes_from_be)

text \<open>Concatenations of fields split where the first fields have equal lengths.\<close>

lemma append_eq_fixed:
  "length a = length b \<Longrightarrow> a @ x = b @ y \<longleftrightarrow> a = b \<and> x = y"
  by (rule append_eq_append_conv) simp

text \<open>ASCII literals of the source as bytes.\<close>

definition ascii :: "string \<Rightarrow> bytes" where
  "ascii s = map (\<lambda>c. word_of_nat (of_char c)) s"

lemma length_ascii [simp]: "length (ascii s) = length s"
  by (simp add: ascii_def)

lemma ascii_simps [simp]: "ascii [] = []" "ascii (c # s) = word_of_nat (of_char c) # ascii s"
  by (simp_all add: ascii_def)

section \<open>Decimal text\<close>

text \<open>\<open>Display\<close> of integers.\<close>

fun show_nat :: "nat \<Rightarrow> string" where
  "show_nat n = (if n < 10 then [char_of (48 + n)] else show_nat (n div 10) @ [char_of (48 + n mod 10)])"

declare show_nat.simps [simp del]

definition show_int :: "int \<Rightarrow> string" where
  "show_int v = (if v < 0 then ''-'' @ show_nat (nat (- v)) else show_nat (nat v))"

end
