(* ===== verification/Ordered_Maps.thy ===== *)
theory Ordered_Maps
  imports Zkpi_Prelude "HOL-Library.List_Lexorder" "HOL-Library.Char_ord"
begin

text \<open>
  The standard library's \<open>BTreeMap\<close> as the code uses it: an association list in strictly
  increasing key order. Insertion replaces or places the entry, lookup is \<open>map_of\<close>, iteration
  is the list itself, so iteration order is key order as in Rust. The locale \<open>ordered_map\<close> is
  the interface the stateful components rely on; its interpretation \<open>bt\<close> discharges the laws for
  this model. Sums over a map (\<open>bt_sum\<close>) are what the escrow accounting is stated with.
\<close>

type_synonym ('k, 'v) btree = "('k \<times> 'v) list"

fun bt_insert :: "'k::linorder \<Rightarrow> 'v \<Rightarrow> ('k, 'v) btree \<Rightarrow> ('k, 'v) btree" where
  "bt_insert k v [] = [(k, v)]"
| "bt_insert k v (p # m) =
     (if fst p = k then (k, v) # m
      else if k < fst p then (k, v) # p # m
      else p # bt_insert k v m)"

definition bt_get :: "('k, 'v) btree \<Rightarrow> 'k \<Rightarrow> 'v option" where
  "bt_get m k = map_of m k"

definition bt_contains :: "('k, 'v) btree \<Rightarrow> 'k \<Rightarrow> bool" where
  "bt_contains m k = (bt_get m k \<noteq> None)"

definition bt_remove :: "'k \<Rightarrow> ('k, 'v) btree \<Rightarrow> ('k, 'v) btree" where
  "bt_remove k m = filter (\<lambda>p. fst p \<noteq> k) m"

definition bt_wf :: "('k::linorder, 'v) btree \<Rightarrow> bool" where
  "bt_wf m = sorted_wrt (<) (map fst m)"

definition bt_sum :: "('k \<Rightarrow> 'v \<Rightarrow> nat) \<Rightarrow> ('k, 'v) btree \<Rightarrow> nat" where
  "bt_sum f m = sum_list (map (\<lambda>p. f (fst p) (snd p)) m)"

lemma bt_get_Nil [simp]: "bt_get [] k = None"
  and bt_get_Cons [simp]: "bt_get ((a, v) # m) k = (if a = k then Some v else bt_get m k)"
  by (auto simp: bt_get_def)

lemma bt_wf_Nil [simp]: "bt_wf []"
  by (simp add: bt_wf_def)

lemma bt_wf_Cons: "bt_wf ((a, v) # m) \<longleftrightarrow> (\<forall>k \<in> fst ` set m. a < k) \<and> bt_wf m"
  by (auto simp: bt_wf_def)

lemma bt_wf_distinct: "bt_wf m \<Longrightarrow> distinct (map fst m)"
  unfolding bt_wf_def by (induction m) auto

lemma bt_sum_Nil [simp]: "bt_sum f [] = 0"
  and bt_sum_Cons [simp]: "bt_sum f ((a, v) # m) = f a v + bt_sum f m"
  by (simp_all add: bt_sum_def)

lemma bt_get_insert [simp]: "bt_get (bt_insert k v m) j = (if j = k then Some v else bt_get m j)"
  by (induction m) (auto simp: bt_get_def)

lemma bt_get_insert_fun: "bt_get (bt_insert k v m) = (bt_get m)(k \<mapsto> v)"
  by (rule ext) simp

lemma fst_set_bt_insert: "fst ` set (bt_insert k v m) = insert k (fst ` set m)"
  by (induction m) auto

lemma bt_wf_insert [simp]: "bt_wf m \<Longrightarrow> bt_wf (bt_insert k v m)"
proof (induction m)
  case (Cons p m)
  obtain a b where p: "p = (a, b)" by (cases p)
  from Cons show ?case
    by (auto simp: p bt_wf_Cons fst_set_bt_insert dest: order.strict_trans)
qed (simp add: bt_wf_def)

lemma bt_contains_iff: "bt_contains m k \<longleftrightarrow> k \<in> fst ` set m"
  by (auto simp: bt_contains_def bt_get_def map_of_eq_None_iff)

lemma bt_get_Some_in: "bt_get m k = Some v \<Longrightarrow> (k, v) \<in> set m"
  by (simp add: bt_get_def map_of_SomeD)

lemma bt_get_iff: "bt_wf m \<Longrightarrow> bt_get m k = Some v \<longleftrightarrow> (k, v) \<in> set m"
  by (auto simp: bt_get_def bt_wf_distinct)

lemma bt_get_None_iff: "bt_get m k = None \<longleftrightarrow> k \<notin> fst ` set m"
  by (simp add: bt_get_def map_of_eq_None_iff)

lemma bt_get_remove: "bt_get (bt_remove k m) j = (if j = k then None else bt_get m j)"
  by (induction m) (auto simp: bt_get_def bt_remove_def)

lemma bt_wf_remove [simp]: "bt_wf m \<Longrightarrow> bt_wf (bt_remove k m)"
  unfolding bt_wf_def bt_remove_def by (induction m) auto

text \<open>Two maps with the same lookups are the same map.\<close>

lemma bt_ext:
  assumes "bt_wf m" and "bt_wf m'" and "\<And>k. bt_get m k = bt_get m' k"
  shows "m = m'"
proof (rule map_sorted_distinct_set_unique)
  show eq: "set m = set m'"
  proof (rule set_eqI)
    show "p \<in> set m \<longleftrightarrow> p \<in> set m'" for p
      using assms(3)[of "fst p"] bt_get_iff[OF assms(1)] bt_get_iff[OF assms(2)]
      by (cases p) (metis fst_conv)
  qed
  show "inj_on fst (set m \<union> set m')"
    using bt_wf_distinct[OF assms(1)] by (simp add: eq[symmetric] distinct_map)
  show "sorted (map fst m)" "sorted (map fst m')"
    using assms(1,2) by (simp_all add: bt_wf_def strict_sorted_iff)
  show "distinct (map fst m)" "distinct (map fst m')"
    using assms(1,2) by (simp_all add: bt_wf_distinct)
qed

section \<open>Sums over a map\<close>

lemma bt_sum_insert_new:
  "bt_get m k = None \<Longrightarrow> bt_sum f (bt_insert k v m) = bt_sum f m + f k v"
  by (induction m) (auto simp: bt_get_def split: if_splits)

lemma bt_sum_insert_old:
  "bt_wf m \<Longrightarrow> bt_get m k = Some u \<Longrightarrow> bt_sum f (bt_insert k v m) + f k u = bt_sum f m + f k v"
proof (induction m)
  case (Cons p m)
  obtain a b where p: "p = (a, b)" by (cases p)
  show ?case
  proof (cases "a = k")
    case False
    with Cons.prems have "bt_get m k = Some u" "bt_wf m" by (auto simp: p bt_wf_Cons)
    moreover from this(1) have "k \<in> fst ` set m"
      by (metis bt_get_None_iff option.distinct(1))
    ultimately show ?thesis using Cons False by (auto simp: p bt_wf_Cons)
  qed (use Cons in \<open>auto simp: p\<close>)
qed simp

lemma bt_sum_cong:
  "(\<And>k v. (k, v) \<in> set m \<Longrightarrow> f k v = g k v) \<Longrightarrow> bt_sum f m = bt_sum g m"
  by (auto simp: bt_sum_def intro!: arg_cong[where f = sum_list] map_cong)

lemma bt_sum_member_le: "(k, v) \<in> set m \<Longrightarrow> f k v \<le> bt_sum f m"
  by (induction m) auto

lemma bt_sum_zero_iff: "bt_sum f m = 0 \<longleftrightarrow> (\<forall>(k, v) \<in> set m. f k v = 0)"
  by (induction m) auto

section \<open>Entries after an insertion\<close>

lemma bt_all_insert:
  assumes "bt_wf m"
  shows "(\<forall>(k, v) \<in> set (bt_insert k0 v0 m). Q k v) \<longleftrightarrow>
           Q k0 v0 \<and> (\<forall>(k, v) \<in> set m. k \<noteq> k0 \<longrightarrow> Q k v)"
proof -
  have "(k, v) \<in> set (bt_insert k0 v0 m) \<longleftrightarrow> (if k = k0 then v = v0 else (k, v) \<in> set m)" for k v
    using bt_get_iff[OF bt_wf_insert[OF assms], of k0 v0 k v] bt_get_iff[OF assms, of k v]
    by (auto split: if_splits)
  then have "set (bt_insert k0 v0 m) = insert (k0, v0) {p \<in> set m. fst p \<noteq> k0}"
    by (auto split: if_splits)
  then show ?thesis by auto
qed

lemma bt_all_insertI:
  assumes "bt_wf m" and "Q k0 v0" and "\<forall>(k, v) \<in> set m. Q k v"
  shows "\<forall>(k, v) \<in> set (bt_insert k0 v0 m). Q k v"
  using assms by (auto simp: bt_all_insert)

lemma set_bt_insert_new: "bt_get m k = None \<Longrightarrow> set (bt_insert k v m) = insert (k, v) (set m)"
  by (induction m) (auto simp: bt_get_def split: if_splits)

lemma distinct_map_insert_new:
  "bt_get m k = None \<Longrightarrow>
     distinct (map g (bt_insert k v m)) \<longleftrightarrow> g (k, v) \<notin> g ` set m \<and> distinct (map g m)"
proof (induction m)
  case (Cons p m)
  then have "fst p \<noteq> k" "bt_get m k = None" by (auto simp: bt_get_def split: if_splits)
  with Cons show ?case by (auto simp: set_bt_insert_new)
qed simp

lemma map_insert_old:
  assumes "bt_wf m" and "bt_get m k = Some u" and "g (k, v) = g (k, u)"
  shows "map g (bt_insert k v m) = map g m"
  using assms(1,2)
proof (induction m)
  case (Cons p m)
  obtain a b where p: "p = (a, b)" by (cases p)
  show ?case
  proof (cases "a = k")
    case True
    with Cons.prems assms(3) show ?thesis by (simp add: p)
  next
    case False
    with Cons.prems have m: "bt_get m k = Some u" "bt_wf m" by (auto simp: p bt_wf_Cons)
    then have "k \<in> fst ` set m" by (metis bt_get_None_iff option.distinct(1))
    with Cons.prems(1) have "a < k" by (auto simp: p bt_wf_Cons)
    with Cons.IH[OF m(2,1)] False show ?thesis by (auto simp: p)
  qed
qed simp

section \<open>The interface\<close>

text \<open>
  What a component that keeps its records in a map relies on: a lookup returns what was last
  stored under that key and nothing else changes, and storing keeps the map well formed.
\<close>

locale ordered_map =
  fixes get :: "'m \<Rightarrow> 'k \<Rightarrow> 'v option"
    and put :: "'k \<Rightarrow> 'v \<Rightarrow> 'm \<Rightarrow> 'm"
    and good :: "'m \<Rightarrow> bool"
  assumes get_put_same: "get (put k v m) k = Some v"
    and get_put_other: "j \<noteq> k \<Longrightarrow> get (put k v m) j = get m j"
    and good_put: "good m \<Longrightarrow> good (put k v m)"
    and same_lookups: "good m \<Longrightarrow> good m' \<Longrightarrow> (\<And>k. get m k = get m' k) \<Longrightarrow> m = m'"
begin

lemma put_put_same: "good m \<Longrightarrow> put k v (put k u m) = put k v m"
proof (rule same_lookups)
  show "get (put k v (put k u m)) j = get (put k v m) j" for j
    by (cases "j = k") (auto simp: get_put_same get_put_other)
qed (auto intro: good_put)

lemma put_comm:
  assumes "good m" and "k \<noteq> j"
  shows "put k v (put j u m) = put j u (put k v m)"
proof (rule same_lookups)
  show "get (put k v (put j u m)) i = get (put j u (put k v m)) i" for i
    using assms(2) by (cases "i = k"; cases "i = j") (auto simp: get_put_same get_put_other)
qed (use assms in \<open>auto intro: good_put\<close>)

lemma put_absent_preserves:
  "get m k = None \<Longrightarrow> get m j = Some u \<Longrightarrow> get (put k v m) j = Some u"
  by (cases "j = k") (auto simp: get_put_other)

end

interpretation bt: ordered_map bt_get bt_insert bt_wf
proof unfold_locales
  fix m m' :: "('a, 'b) btree"
  assume "bt_wf m" "bt_wf m'" "\<And>k. bt_get m k = bt_get m' k"
  then show "m = m'" by (rule bt_ext)
qed simp_all

end
