(* ===== verification/Optimistic.thy ===== *)
theory Optimistic
  imports Ordered_Maps
begin

text \<open>
  \<^verbatim>\<open>src/rust/zkpi-optimistic/src/lib.rs\<close>: the optimistic execution state machine. Policies are
  enrolled, executions registered, a proposer posts a bonded claim, a challenger may bond a
  challenge, a proof answers it, and deadlines advance it. Every handler is one definition over
  the state record, with the guards in the order of the source and one error constructor per
  message.

  Parameters: \<open>opt_prims\<close> holds \<open>serde_json::to_vec\<close> (on the four kinds of value this module
  serialises), SHA-256 and \<open>hex::encode\<close>; a \<open>Digest32\<close>, an array of 32 bytes, is its 256-bit
  value; the traits \<open>ClaimSigner\<close>, \<open>ClaimAuthentication\<close> and
  \<open>ChallengeVerifier\<close> are arguments, as the host supplies them.
\<close>

type_synonym id32 = "256 word"

datatype opt_error =
    SerializeFailed | EmptyPolicy | PolicyAlreadyEnrolled | ProposerNotEnrolled
  | ProposalScope | AuthFailed | SignFailed
  | ExecutionPolicyUnknown | ExecutionScope | ExecutionRegistered
  | InvalidCredit | EscrowOverflow | ZeroWithdrawal | InsufficientUnlocked
  | PolicyNotEnrolled | ExecutionNotRegistered | DiffersFromAdmitted | AlreadyClaimed
  | ChallengeNowOverflow | UnknownClaim | OutsideChallengeWindow | ProposerOwnChallenge
  | ResponseNowOverflow | NoUnresolvedChallenge | LateOrOtherVerifier | ProofInvalid
  | DeadlineNotElapsed | NotFinalized
  | InsufficientCollateral | LockedOverflow | InconsistentLocked
  | PolicyIndexMismatch | RegisteredPolicyAbsent | ExecutionSnapshotMismatch
  | ClaimPolicyAbsent | ChallengeOverflow | ClaimIndexMismatch | ClaimExecutionAbsent
  | ClaimDiffersFromExecution | DuplicateExecution | SnapshotLockedOverflow
  | InvalidResponseWindow | InvalidPersistedChallenge | JobIndexMismatch
  | CollateralMismatch | CollateralMissing
  | EnvPolicyMissing | EnvPolicyNotHex | EnvPolicyLength | EnvPartyNotInteger
  | EnvPartyZero | EnvModeUnknown

record exec_context =
  ctx_network :: id32
  ctx_application :: id32
  ctx_verifier :: id32
  ctx_job :: id32
  ctx_input_root :: id32
  ctx_before_state :: id32

record opt_policy =
  pol_network :: id32
  pol_application :: id32
  pol_verifier :: id32
  pol_proposer :: id32
  pol_bond_asset :: id32
  pol_proposer_bond :: u64
  pol_challenger_bond :: u64
  pol_challenge_window :: u64
  pol_response_window :: u64

datatype payload =
    PolicyPayload opt_policy
  | ProposalPayload id32 exec_context id32 u64
  | ChallengePayload id32 id32
  | JobPayload id32 id32 id32

record opt_prims =
  to_vec :: "payload \<Rightarrow> bytes option"
  sha256 :: "bytes \<Rightarrow> id32"
  hex :: "id32 \<Rightarrow> string"

type_synonym claim_authentication = "id32 \<Rightarrow> id32 \<Rightarrow> bytes \<Rightarrow> opt_error + unit"

record claim_signer =
  signer_identity :: id32
  signer_sign :: "id32 \<Rightarrow> opt_error + bytes"

record challenge_verifier =
  verifier_id :: id32
  verifier_verify :: "exec_context \<Rightarrow> bytes \<Rightarrow> opt_error + id32"

definition digest :: "opt_prims \<Rightarrow> string \<Rightarrow> payload \<Rightarrow> opt_error + id32" where
  "digest P domain v =
     and_then (ok_or (to_vec P v) SerializeFailed) (\<lambda>bs. Inr (sha256 P (ascii domain @ bs)))"

definition job_key :: "opt_prims \<Rightarrow> exec_context \<Rightarrow> opt_error + string" where
  "job_key P c =
     and_then (digest P ''zkFMI:optimistic:job:v1''
                (JobPayload (ctx_network c) (ctx_application c) (ctx_job c)))
       (\<lambda>d. Inr (hex P d))"

definition bond_key :: "opt_prims \<Rightarrow> id32 \<Rightarrow> id32 \<Rightarrow> string" where
  "bond_key P asset owner = hex P asset @ '':'' @ hex P owner"

section \<open>Selecting the assurance mode\<close>

datatype assurance_selection = JointProof | OptimisticMode id32 nat

datatype env_var = NotPresent | NotUnicode | EnvVal string

definition digit_value :: "char \<Rightarrow> nat option" where
  "digit_value c = (let n = of_char c in if 48 \<le> n \<and> n \<le> 57 then Some (n - 48) else None)"

fun parse_digits :: "nat \<Rightarrow> string \<Rightarrow> nat option" where
  "parse_digits acc [] = Some acc"
| "parse_digits acc (c # cs) =
     (case digit_value c of
        None \<Rightarrow> None
      | Some d \<Rightarrow> if acc * 10 + d < 2 ^ 64 then parse_digits (acc * 10 + d) cs else None)"

text \<open>\<open>str::parse::<usize>\<close> on a 64-bit target: an optional plus sign, then decimal digits.\<close>

definition parse_usize :: "string \<Rightarrow> nat option" where
  "parse_usize s =
     (case s of
        [] \<Rightarrow> None
      | c # cs \<Rightarrow> if c = CHR ''+'' then (if cs = [] then None else parse_digits 0 cs)
                  else parse_digits 0 s)"

definition from_environment ::
  "(string \<Rightarrow> bytes option) \<Rightarrow> env_var \<Rightarrow> env_var \<Rightarrow> env_var \<Rightarrow> opt_error + assurance_selection" where
  "from_environment hex_decode mode policy_var party_var =
     (case mode of
        NotPresent \<Rightarrow> Inr JointProof
      | NotUnicode \<Rightarrow> Inl EnvModeUnknown
      | EnvVal m \<Rightarrow>
          if m = ''joint_proof'' then Inr JointProof
          else if m = ''optimistic'' then
            and_then (case policy_var of EnvVal raw \<Rightarrow> Inr raw | _ \<Rightarrow> Inl EnvPolicyMissing) (\<lambda>raw.
            and_then (ok_or (hex_decode raw) EnvPolicyNotHex) (\<lambda>policy.
            and_then (refuse_if (length policy \<noteq> 32) EnvPolicyLength) (\<lambda>_.
            and_then (ok_or (parse_usize (case party_var of EnvVal t \<Rightarrow> t | _ \<Rightarrow> ''1''))
                        EnvPartyNotInteger) (\<lambda>party.
            and_then (refuse_if (party = 0) EnvPartyZero) (\<lambda>_.
            Inr (OptimisticMode (word_of_nat (from_be policy)) party))))))
          else Inl EnvModeUnknown)"

section \<open>Policies, proposals and challenges\<close>

definition policy_validate :: "opt_policy \<Rightarrow> opt_error + unit" where
  "policy_validate p =
     refuse_if (0 \<in> set [pol_network p, pol_application p, pol_verifier p, pol_proposer p,
                              pol_bond_asset p]
                \<or> pol_proposer_bond p = 0 \<or> pol_challenger_bond p = 0
                \<or> pol_challenge_window p = 0 \<or> pol_response_window p = 0) EmptyPolicy"

definition policy_digest :: "opt_prims \<Rightarrow> opt_policy \<Rightarrow> opt_error + id32" where
  "policy_digest P p =
     and_then (policy_validate p)
       (\<lambda>_. digest P ''zkFMI:optimistic:policy:v1'' (PolicyPayload p))"

record proposal =
  prop_policy :: id32
  prop_context :: exec_context
  prop_output_root :: id32
  prop_valid_until :: u64
  prop_signature :: bytes

definition proposal_signing_digest :: "opt_prims \<Rightarrow> proposal \<Rightarrow> opt_error + id32" where
  "proposal_signing_digest P q =
     digest P ''zkFMI:optimistic:proposal:v1''
       (ProposalPayload (prop_policy q) (prop_context q) (prop_output_root q) (prop_valid_until q))"

definition proposal_id :: "opt_prims \<Rightarrow> proposal \<Rightarrow> opt_error + id32" where
  "proposal_id P q = proposal_signing_digest P q"

definition proposal_signed ::
  "opt_prims \<Rightarrow> opt_policy \<Rightarrow> exec_context \<Rightarrow> id32 \<Rightarrow> u64 \<Rightarrow> claim_signer \<Rightarrow> opt_error + proposal" where
  "proposal_signed P policy context output_root valid_until key =
     and_then (refuse_if (signer_identity key \<noteq> pol_proposer policy) ProposerNotEnrolled) (\<lambda>_.
     and_then (policy_digest P policy) (\<lambda>pid.
       let q = \<lparr>prop_policy = pid, prop_context = context, prop_output_root = output_root,
                prop_valid_until = valid_until, prop_signature = []\<rparr>
       in and_then (proposal_signing_digest P q) (\<lambda>d.
          and_then (signer_sign key d) (\<lambda>sig. Inr (q\<lparr>prop_signature := sig\<rparr>)))))"

definition proposal_verify ::
  "opt_prims \<Rightarrow> claim_authentication \<Rightarrow> proposal \<Rightarrow> opt_policy \<Rightarrow> u64 \<Rightarrow> opt_error + unit" where
  "proposal_verify P auth q policy now =
     and_then (policy_digest P policy) (\<lambda>pid.
     and_then (refuse_if
       (prop_policy q \<noteq> pid
        \<or> ctx_network (prop_context q) \<noteq> pol_network policy
        \<or> ctx_application (prop_context q) \<noteq> pol_application policy
        \<or> ctx_verifier (prop_context q) \<noteq> pol_verifier policy
        \<or> 0 \<in> set [ctx_job (prop_context q), ctx_input_root (prop_context q),
                        ctx_before_state (prop_context q), prop_output_root q]
        \<or> prop_valid_until q < now) ProposalScope) (\<lambda>_.
     and_then (proposal_signing_digest P q) (\<lambda>d.
       auth (pol_proposer policy) d (prop_signature q))))"

record challenge =
  chal_claim :: id32
  chal_challenger :: id32
  chal_signature :: bytes

definition challenge_signing_digest :: "opt_prims \<Rightarrow> challenge \<Rightarrow> opt_error + id32" where
  "challenge_signing_digest P c =
     digest P ''zkFMI:optimistic:challenge:v1'' (ChallengePayload (chal_claim c) (chal_challenger c))"

definition challenge_signed :: "opt_prims \<Rightarrow> id32 \<Rightarrow> claim_signer \<Rightarrow> opt_error + challenge" where
  "challenge_signed P claim key =
     (let c = \<lparr>chal_claim = claim, chal_challenger = signer_identity key, chal_signature = []\<rparr>
      in and_then (challenge_signing_digest P c) (\<lambda>d.
         and_then (signer_sign key d) (\<lambda>sig. Inr (c\<lparr>chal_signature := sig\<rparr>))))"

section \<open>The state\<close>

datatype claim_status =
    Pending
  | Challenged id32 u64
  | Proven id32
  | Finalized "id32 option"
  | Rejected id32 "id32 option"

record claim =
  clm_proposal :: proposal
  clm_policy :: opt_policy
  clm_accepted_at :: u64
  clm_challenge_deadline :: u64
  clm_status :: claim_status

record bond_account =
  available :: u64
  locked :: u64

record registered_execution =
  exe_policy :: id32
  exe_context :: exec_context
  exe_valid_until :: u64

record opt_state =
  policies :: "(string, opt_policy) btree"
  executions :: "(string, registered_execution) btree"
  claims :: "(string, claim) btree"
  jobs :: "(string, id32) btree"
  bonds :: "(string, bond_account) btree"

definition empty_state :: opt_state where
  "empty_state = \<lparr>policies = [], executions = [], claims = [], jobs = [], bonds = []\<rparr>"

definition get_policy :: "opt_prims \<Rightarrow> opt_state \<Rightarrow> id32 \<Rightarrow> opt_policy option" where
  "get_policy P s i = bt_get (policies s) (hex P i)"

definition get_claim :: "opt_prims \<Rightarrow> opt_state \<Rightarrow> id32 \<Rightarrow> claim option" where
  "get_claim P s i = bt_get (claims s) (hex P i)"

definition bond_default :: bond_account where
  "bond_default = \<lparr>available = 0, locked = 0\<rparr>"

definition bond :: "opt_prims \<Rightarrow> opt_state \<Rightarrow> id32 \<Rightarrow> id32 \<Rightarrow> bond_account" where
  "bond P s asset owner =
     (case bt_get (bonds s) (bond_key P asset owner) of None \<Rightarrow> bond_default | Some a \<Rightarrow> a)"

definition put_bond ::
  "opt_prims \<Rightarrow> id32 \<Rightarrow> id32 \<Rightarrow> bond_account \<Rightarrow> opt_state \<Rightarrow> opt_state" where
  "put_bond P asset owner a s = s\<lparr>bonds := bt_insert (bond_key P asset owner) a (bonds s)\<rparr>"

definition put_claim :: "opt_prims \<Rightarrow> id32 \<Rightarrow> claim \<Rightarrow> opt_state \<Rightarrow> opt_state" where
  "put_claim P i c s = s\<lparr>claims := bt_insert (hex P i) c (claims s)\<rparr>"

definition state_is_empty :: "opt_state \<Rightarrow> bool" where
  "state_is_empty s =
     (policies s = [] \<and> executions s = [] \<and> claims s = [] \<and> jobs s = [] \<and> bonds s = [])"

section \<open>Enrollment and escrow\<close>

definition enroll_policy :: "opt_prims \<Rightarrow> opt_policy \<Rightarrow> opt_state \<Rightarrow> opt_error + (id32 \<times> opt_state)" where
  "enroll_policy P p s =
     and_then (policy_digest P p) (\<lambda>i.
     and_then (refuse_if (bt_contains (policies s) (hex P i)) PolicyAlreadyEnrolled) (\<lambda>_.
     Inr (i, s\<lparr>policies := bt_insert (hex P i) p (policies s)\<rparr>)))"

definition execution_mismatch :: "registered_execution \<Rightarrow> opt_policy \<Rightarrow> bool" where
  "execution_mismatch e p =
     (ctx_network (exe_context e) \<noteq> pol_network p
      \<or> ctx_application (exe_context e) \<noteq> pol_application p
      \<or> ctx_verifier (exe_context e) \<noteq> pol_verifier p
      \<or> exe_valid_until e = 0
      \<or> 0 \<in> set [ctx_job (exe_context e), ctx_input_root (exe_context e),
                      ctx_before_state (exe_context e)])"

definition register_execution ::
  "opt_prims \<Rightarrow> registered_execution \<Rightarrow> opt_state \<Rightarrow> opt_error + opt_state" where
  "register_execution P e s =
     and_then (ok_or (get_policy P s (exe_policy e)) ExecutionPolicyUnknown) (\<lambda>p.
     and_then (refuse_if (execution_mismatch e p) ExecutionScope) (\<lambda>_.
     and_then (job_key P (exe_context e)) (\<lambda>i.
     and_then (refuse_if (bt_contains (executions s) i) ExecutionRegistered) (\<lambda>_.
     Inr (s\<lparr>executions := bt_insert i e (executions s)\<rparr>)))))"

definition credit_escrow ::
  "opt_prims \<Rightarrow> id32 \<Rightarrow> id32 \<Rightarrow> u64 \<Rightarrow> opt_state \<Rightarrow> opt_error + opt_state" where
  "credit_escrow P asset owner amount s =
     and_then (refuse_if (asset = 0 \<or> owner = 0 \<or> amount = 0) InvalidCredit) (\<lambda>_.
       let a = bond P s asset owner
       in and_then (ok_or (checked_add (available a) amount) EscrowOverflow) (\<lambda>v.
          Inr (put_bond P asset owner (a\<lparr>available := v\<rparr>) s)))"

definition withdraw_escrow ::
  "opt_prims \<Rightarrow> id32 \<Rightarrow> id32 \<Rightarrow> u64 \<Rightarrow> opt_state \<Rightarrow> opt_error + opt_state" where
  "withdraw_escrow P asset owner amount s =
     and_then (refuse_if (amount = 0) ZeroWithdrawal) (\<lambda>_.
       let a = bond P s asset owner
       in and_then (ok_or (checked_sub (available a) amount) InsufficientUnlocked) (\<lambda>v.
          Inr (put_bond P asset owner (a\<lparr>available := v\<rparr>) s)))"

definition lock_bond ::
  "opt_prims \<Rightarrow> id32 \<Rightarrow> id32 \<Rightarrow> u64 \<Rightarrow> opt_state \<Rightarrow> opt_error + opt_state" where
  "lock_bond P asset owner amount s =
     (let a = bond P s asset owner
      in and_then (ok_or (checked_sub (available a) amount) InsufficientCollateral) (\<lambda>v.
         and_then (ok_or (checked_add (locked a) amount) LockedOverflow) (\<lambda>l.
         Inr (put_bond P asset owner \<lparr>available = v, locked = l\<rparr> s))))"

definition award ::
  "opt_prims \<Rightarrow> id32 \<Rightarrow> id32 \<Rightarrow> id32 \<Rightarrow> u64 \<Rightarrow> opt_state \<Rightarrow> opt_error + opt_state" where
  "award P asset source target amount s =
     (let d = bond P s asset source
      in and_then (ok_or (checked_sub (locked d) amount) InconsistentLocked) (\<lambda>l.
         credit_escrow P asset target amount (put_bond P asset source (d\<lparr>locked := l\<rparr>) s)))"

definition unlock_bond ::
  "opt_prims \<Rightarrow> id32 \<Rightarrow> id32 \<Rightarrow> u64 \<Rightarrow> opt_state \<Rightarrow> opt_error + opt_state" where
  "unlock_bond P asset owner amount s = award P asset owner owner amount s"

definition resolve_bonds ::
  "opt_prims \<Rightarrow> opt_policy \<Rightarrow> id32 \<Rightarrow> bool \<Rightarrow> opt_state \<Rightarrow> opt_error + opt_state" where
  "resolve_bonds P p challenger valid s =
     (let beneficiary = (if valid then pol_proposer p else challenger)
      in and_then (award P (pol_bond_asset p) (pol_proposer p) beneficiary (pol_proposer_bond p) s)
           (\<lambda>t. award P (pol_bond_asset p) challenger beneficiary (pol_challenger_bond p) t))"

section \<open>Claims\<close>

definition past_execution :: "u64 \<Rightarrow> opt_policy \<Rightarrow> u64 \<Rightarrow> bool" where
  "past_execution start p limit =
     (case Option.bind (checked_add start (pol_challenge_window p))
             (\<lambda>v. checked_add v (pol_response_window p)) of
        None \<Rightarrow> True | Some d \<Rightarrow> limit < d)"

definition propose ::
  "opt_prims \<Rightarrow> claim_authentication \<Rightarrow> proposal \<Rightarrow> u64 \<Rightarrow> opt_state \<Rightarrow> opt_error + (id32 \<times> opt_state)" where
  "propose P auth q now s =
     and_then (ok_or (get_policy P s (prop_policy q)) PolicyNotEnrolled) (\<lambda>p.
     and_then (proposal_verify P auth q p now) (\<lambda>_.
     and_then (proposal_id P q) (\<lambda>i.
     and_then (job_key P (prop_context q)) (\<lambda>job.
     and_then (ok_or (bt_get (executions s) job) ExecutionNotRegistered) (\<lambda>e.
     and_then (refuse_if
       (exe_context e \<noteq> prop_context q \<or> exe_policy e \<noteq> prop_policy q
        \<or> exe_valid_until e < prop_valid_until q
        \<or> past_execution now p (exe_valid_until e)) DiffersFromAdmitted) (\<lambda>_.
     and_then (refuse_if (bt_contains (claims s) (hex P i) \<or> bt_contains (jobs s) job)
       AlreadyClaimed) (\<lambda>_.
     and_then (ok_or (checked_add now (pol_challenge_window p)) ChallengeNowOverflow) (\<lambda>dl.
     and_then (lock_bond P (pol_bond_asset p) (pol_proposer p) (pol_proposer_bond p) s) (\<lambda>t.
       let u = put_claim P i \<lparr>clm_proposal = q, clm_policy = p, clm_accepted_at = now,
                              clm_challenge_deadline = dl, clm_status = Pending\<rparr> t
       in Inr (i, u\<lparr>jobs := bt_insert job i (jobs u)\<rparr>))))))))))"

definition challenge_claim ::
  "opt_prims \<Rightarrow> claim_authentication \<Rightarrow> challenge \<Rightarrow> u64 \<Rightarrow> opt_state \<Rightarrow> opt_error + opt_state" where
  "challenge_claim P auth r now s =
     and_then (challenge_signing_digest P r) (\<lambda>d.
     and_then (auth (chal_challenger r) d (chal_signature r)) (\<lambda>_.
     and_then (ok_or (get_claim P s (chal_claim r)) UnknownClaim) (\<lambda>c.
     and_then (refuse_if (clm_status c \<noteq> Pending \<or> now < clm_accepted_at c
       \<or> clm_challenge_deadline c \<le> now) OutsideChallengeWindow) (\<lambda>_.
     and_then (refuse_if (chal_challenger r = pol_proposer (clm_policy c)) ProposerOwnChallenge) (\<lambda>_.
     and_then (ok_or (checked_add now (pol_response_window (clm_policy c))) ResponseNowOverflow)
       (\<lambda>rd.
     and_then (lock_bond P (pol_bond_asset (clm_policy c)) (chal_challenger r)
       (pol_challenger_bond (clm_policy c)) s) (\<lambda>t.
     Inr (put_claim P (chal_claim r)
            (c\<lparr>clm_status := Challenged (chal_challenger r) rd\<rparr>) t))))))))"

definition answer ::
  "opt_prims \<Rightarrow> id32 \<Rightarrow> bytes \<Rightarrow> challenge_verifier \<Rightarrow> u64 \<Rightarrow> opt_state \<Rightarrow> opt_error + opt_state" where
  "answer P i proof_bytes verifier now s =
     and_then (ok_or (get_claim P s i) UnknownClaim) (\<lambda>c.
     case clm_status c of
       Challenged challenger rd \<Rightarrow>
         and_then (refuse_if (now < clm_accepted_at c \<or> rd \<le> now
           \<or> verifier_id verifier \<noteq> pol_verifier (clm_policy c)) LateOrOtherVerifier) (\<lambda>_.
         and_then (verifier_verify verifier (prop_context (clm_proposal c)) proof_bytes) (\<lambda>output.
           let evidence = sha256 P proof_bytes
           in if output = prop_output_root (clm_proposal c)
              then and_then (award P (pol_bond_asset (clm_policy c)) challenger
                       (pol_proposer (clm_policy c)) (pol_challenger_bond (clm_policy c)) s) (\<lambda>t.
                   Inr (put_claim P i (c\<lparr>clm_status := Proven evidence\<rparr>) t))
              else and_then (resolve_bonds P (clm_policy c) challenger False s) (\<lambda>t.
                   Inr (put_claim P i (c\<lparr>clm_status := Rejected challenger (Some evidence)\<rparr>) t))))
     | _ \<Rightarrow> Inl NoUnresolvedChallenge)"

definition advance :: "opt_prims \<Rightarrow> id32 \<Rightarrow> u64 \<Rightarrow> opt_state \<Rightarrow> opt_error + opt_state" where
  "advance P i now s =
     and_then (ok_or (get_claim P s i) UnknownClaim) (\<lambda>c.
     let p = clm_policy c;
         release = unlock_bond P (pol_bond_asset p) (pol_proposer p) (pol_proposer_bond p) s
     in case clm_status c of
          Pending \<Rightarrow>
            if clm_challenge_deadline c \<le> now
            then and_then release (\<lambda>t. Inr (put_claim P i (c\<lparr>clm_status := Finalized None\<rparr>) t))
            else Inl DeadlineNotElapsed
        | Proven pr \<Rightarrow>
            if clm_challenge_deadline c \<le> now
            then and_then release (\<lambda>t. Inr (put_claim P i (c\<lparr>clm_status := Finalized (Some pr)\<rparr>) t))
            else Inl DeadlineNotElapsed
        | Challenged challenger rd \<Rightarrow>
            if rd \<le> now
            then and_then (resolve_bonds P p challenger False s) (\<lambda>t.
                   Inr (put_claim P i (c\<lparr>clm_status := Rejected challenger None\<rparr>) t))
            else Inl DeadlineNotElapsed
        | _ \<Rightarrow> Inl DeadlineNotElapsed)"

definition is_finalized :: "claim_status \<Rightarrow> bool" where
  "is_finalized st = (case st of Finalized _ \<Rightarrow> True | _ \<Rightarrow> False)"

definition require_finalized ::
  "opt_prims \<Rightarrow> opt_state \<Rightarrow> id32 \<Rightarrow> exec_context \<Rightarrow> id32 \<Rightarrow> opt_error + claim" where
  "require_finalized P s i context output_root =
     and_then (ok_or (get_claim P s i) UnknownClaim) (\<lambda>c.
     and_then (refuse_if (prop_context (clm_proposal c) \<noteq> context
       \<or> prop_output_root (clm_proposal c) \<noteq> output_root
       \<or> \<not> is_finalized (clm_status c)) NotFinalized) (\<lambda>_. Inr c))"

section \<open>Snapshot validation\<close>

definition validate_policy_entry :: "opt_prims \<Rightarrow> string \<times> opt_policy \<Rightarrow> opt_error + unit" where
  "validate_policy_entry P e =
     and_then (policy_digest P (snd e)) (\<lambda>d. refuse_if (fst e \<noteq> hex P d) PolicyIndexMismatch)"

definition validate_execution_entry ::
  "opt_prims \<Rightarrow> opt_state \<Rightarrow> string \<times> registered_execution \<Rightarrow> opt_error + unit" where
  "validate_execution_entry P s e =
     and_then (ok_or (get_policy P s (exe_policy (snd e))) RegisteredPolicyAbsent) (\<lambda>p.
     and_then (job_key P (exe_context (snd e))) (\<lambda>k.
     refuse_if (fst e \<noteq> k \<or> execution_mismatch (snd e) p) ExecutionSnapshotMismatch))"

type_synonym locked_map = "(string, u64) btree"

definition add_locked ::
  "opt_prims \<Rightarrow> opt_policy \<Rightarrow> id32 \<Rightarrow> u64 \<Rightarrow> locked_map \<Rightarrow> opt_error + locked_map" where
  "add_locked P p owner amount m =
     (let k = bond_key P (pol_bond_asset p) owner;
          entry = (case bt_get m k of None \<Rightarrow> 0 | Some v \<Rightarrow> v)
      in and_then (ok_or (checked_add entry amount) SnapshotLockedOverflow) (\<lambda>v.
         Inr (bt_insert k v m)))"

definition validate_status ::
  "opt_prims \<Rightarrow> opt_policy \<Rightarrow> claim \<Rightarrow> locked_map \<Rightarrow> opt_error + locked_map" where
  "validate_status P p c m =
     (case clm_status c of
        Pending \<Rightarrow> add_locked P p (pol_proposer p) (pol_proposer_bond p) m
      | Proven _ \<Rightarrow> add_locked P p (pol_proposer p) (pol_proposer_bond p) m
      | Challenged challenger rd \<Rightarrow>
          and_then (ok_or (checked_sub rd (pol_response_window p)) InvalidResponseWindow) (\<lambda>start.
          and_then (refuse_if (start < clm_accepted_at c \<or> clm_challenge_deadline c \<le> start
            \<or> challenger = pol_proposer p) InvalidPersistedChallenge) (\<lambda>_.
          and_then (add_locked P p (pol_proposer p) (pol_proposer_bond p) m) (\<lambda>m'.
          add_locked P p challenger (pol_challenger_bond p) m')))
      | _ \<Rightarrow> Inr m)"

definition claim_exceeds :: "registered_execution \<Rightarrow> claim \<Rightarrow> opt_policy \<Rightarrow> bool" where
  "claim_exceeds e c p =
     (exe_context e \<noteq> prop_context (clm_proposal c)
      \<or> exe_policy e \<noteq> prop_policy (clm_proposal c)
      \<or> exe_valid_until e < prop_valid_until (clm_proposal c)
      \<or> (case checked_add (clm_challenge_deadline c) (pol_response_window p) of
           None \<Rightarrow> True | Some d \<Rightarrow> exe_valid_until e < d))"

definition validate_claim_entry ::
  "opt_prims \<Rightarrow> claim_authentication \<Rightarrow> opt_state
    \<Rightarrow> (string, id32) btree \<times> locked_map \<Rightarrow> string \<times> claim
    \<Rightarrow> opt_error + ((string, id32) btree \<times> locked_map)" where
  "validate_claim_entry P auth s acc e =
     (let c = snd e in
      and_then (ok_or (get_policy P s (prop_policy (clm_proposal c))) ClaimPolicyAbsent) (\<lambda>p.
      and_then (refuse_if (p \<noteq> clm_policy c) ClaimIndexMismatch) (\<lambda>_.
      and_then (proposal_id P (clm_proposal c)) (\<lambda>pid.
      and_then (refuse_if (fst e \<noteq> hex P pid) ClaimIndexMismatch) (\<lambda>_.
      and_then (ok_or (checked_add (clm_accepted_at c) (pol_challenge_window p)) ChallengeOverflow)
        (\<lambda>dl.
      and_then (refuse_if (clm_challenge_deadline c \<noteq> dl) ClaimIndexMismatch) (\<lambda>_.
      and_then (proposal_verify P auth (clm_proposal c) p (clm_accepted_at c)) (\<lambda>_.
      and_then (job_key P (prop_context (clm_proposal c))) (\<lambda>k.
      and_then (ok_or (bt_get (executions s) k) ClaimExecutionAbsent) (\<lambda>x.
      and_then (refuse_if (claim_exceeds x c p) ClaimDiffersFromExecution) (\<lambda>_.
      and_then (refuse_if (bt_contains (fst acc) k) DuplicateExecution) (\<lambda>_.
      and_then (validate_status P p c (snd acc)) (\<lambda>m.
      Inr (bt_insert k pid (fst acc), m))))))))))))))"

text \<open>\<open>key.split(':')\<close> and the check of its parts.\<close>

fun split_colon :: "string \<Rightarrow> string list" where
  "split_colon [] = [[]]"
| "split_colon (c # cs) =
     (if c = CHR '':'' then [] # split_colon cs
      else (case split_colon cs of [] \<Rightarrow> [[c]] | w # ws \<Rightarrow> (c # w) # ws))"

definition hex_char :: "char \<Rightarrow> bool" where
  "hex_char c = (let n = of_char c :: nat in (48 \<le> n \<and> n \<le> 57) \<or> (97 \<le> n \<and> n \<le> 102))"

definition valid_part :: "string \<Rightarrow> bool" where
  "valid_part p = (length p = 64 \<and> list_all hex_char p \<and> p \<noteq> replicate 64 (CHR ''0''))"

definition valid_bond_key :: "string \<Rightarrow> bool" where
  "valid_bond_key k =
     (case split_colon k of [a, b] \<Rightarrow> valid_part a \<and> valid_part b | _ \<Rightarrow> False)"

definition validate_bond_entry ::
  "locked_map \<Rightarrow> string \<times> bond_account \<Rightarrow> opt_error + locked_map" where
  "validate_bond_entry m e =
     and_then (refuse_if (\<not> valid_bond_key (fst e)
       \<or> (case bt_get m (fst e) of None \<Rightarrow> 0 | Some v \<Rightarrow> v) \<noteq> locked (snd e)) CollateralMismatch)
       (\<lambda>_. Inr (bt_remove (fst e) m))"

definition validate :: "opt_prims \<Rightarrow> claim_authentication \<Rightarrow> opt_state \<Rightarrow> opt_error + unit" where
  "validate P auth s =
     and_then (try_fold (\<lambda>_. validate_policy_entry P) () (policies s)) (\<lambda>_.
     and_then (try_fold (\<lambda>_. validate_execution_entry P s) () (executions s)) (\<lambda>_.
     and_then (try_fold (validate_claim_entry P auth s) ([], []) (claims s)) (\<lambda>acc.
     and_then (refuse_if (fst acc \<noteq> jobs s) JobIndexMismatch) (\<lambda>_.
     and_then (try_fold validate_bond_entry (snd acc) (bonds s)) (\<lambda>m.
     refuse_if (m \<noteq> []) CollateralMissing)))))"

end
