(* ===== verification/Machines.thy ===== *)
theory Machines
  imports Zkpi_Prelude
begin

text \<open>
  Hosts that apply requests one after another. A request is accepted, giving a new state, or
  refused, leaving the state as it was (every handler of the sources works on a copy, or writes
  only after its last check). The locale \<open>guarded_machine\<close> is the contract of such a host with
  an invariant, and \<open>once_machine\<close> adds a key that an accepted request consumes: it is fresh
  before and recorded afterwards. Both are interpreted by the optimistic ledger and by the
  settlement venue.
\<close>

definition step_or_stay :: "('op \<Rightarrow> 's \<Rightarrow> 'e + 's) \<Rightarrow> 'op \<Rightarrow> 's \<Rightarrow> 's" where
  "step_or_stay exec x s = (case exec x s of Inl _ \<Rightarrow> s | Inr t \<Rightarrow> t)"

fun run_ops :: "('op \<Rightarrow> 's \<Rightarrow> 'e + 's) \<Rightarrow> 'op list \<Rightarrow> 's \<Rightarrow> 's" where
  "run_ops exec [] s = s"
| "run_ops exec (x # xs) s = run_ops exec xs (step_or_stay exec x s)"

fun accepted_ops :: "('op \<Rightarrow> 's \<Rightarrow> 'e + 's) \<Rightarrow> 'op list \<Rightarrow> 's \<Rightarrow> 'op list" where
  "accepted_ops exec [] s = []"
| "accepted_ops exec (x # xs) s =
     (if is_ok (exec x s) then [x] else []) @ accepted_ops exec xs (step_or_stay exec x s)"

lemma step_or_stay_cases:
  obtains (refused) e where "exec x s = Inl e" "step_or_stay exec x s = s"
  | (accepted) t where "exec x s = Inr t" "step_or_stay exec x s = t"
  by (cases "exec x s") (auto simp: step_or_stay_def)

lemma run_ops_append: "run_ops exec (xs @ ys) s = run_ops exec ys (run_ops exec xs s)"
  by (induction xs arbitrary: s) auto

locale guarded_machine =
  fixes exec :: "'op \<Rightarrow> 's \<Rightarrow> 'e + 's" and inv :: "'s \<Rightarrow> bool"
  assumes exec_inv: "inv s \<Longrightarrow> exec x s = Inr t \<Longrightarrow> inv t"
begin

lemma step_inv: "inv s \<Longrightarrow> inv (step_or_stay exec x s)"
  by (rule step_or_stay_cases[of exec x s]) (auto dest: exec_inv)

lemma run_inv: "inv s \<Longrightarrow> inv (run_ops exec xs s)"
  by (induction xs arbitrary: s) (auto intro: step_inv)

lemma run_relation:
  assumes "inv s" and "\<And>u. R u u" and "\<And>u v w. R u v \<Longrightarrow> R v w \<Longrightarrow> R u w"
    and "\<And>x u t. inv u \<Longrightarrow> exec x u = Inr t \<Longrightarrow> R u t"
  shows "R s (run_ops exec xs s)"
  using assms(1)
proof (induction xs arbitrary: s)
  case (Cons x xs)
  have "R s (step_or_stay exec x s)"
    by (rule step_or_stay_cases[of exec x s]) (auto intro: assms(2,4) Cons.prems)
  moreover have "R (step_or_stay exec x s) (run_ops exec (x # xs) s)"
    using Cons.IH[OF step_inv[OF Cons.prems]] by simp
  ultimately show ?case by (rule assms(3))
qed (simp add: assms(2))

end

locale once_machine = guarded_machine exec inv
  for exec :: "'op \<Rightarrow> 's \<Rightarrow> 'e + 's" and inv :: "'s \<Rightarrow> bool" +
  fixes uses :: "'op \<Rightarrow> 'k option" and seen :: "'s \<Rightarrow> 'k set"
  assumes consumes: "inv s \<Longrightarrow> exec x s = Inr t \<Longrightarrow> uses x = Some k \<Longrightarrow> k \<notin> seen s \<and> k \<in> seen t"
    and remembers: "inv s \<Longrightarrow> exec x s = Inr t \<Longrightarrow> seen s \<subseteq> seen t"
begin

lemma run_remembers: "inv s \<Longrightarrow> seen s \<subseteq> seen (run_ops exec xs s)"
  by (rule run_relation[where R = "\<lambda>u v. seen u \<subseteq> seen v"]) (auto dest: remembers)

lemma accepted_fresh:
  assumes "inv s" and "x \<in> set (accepted_ops exec xs s)" and "uses x = Some k"
  shows "k \<notin> seen s"
  using assms(1,2)
proof (induction xs arbitrary: s)
  case (Cons y xs)
  show ?case
  proof (cases rule: step_or_stay_cases[of exec y s])
    case (refused e)
    with Cons show ?thesis by auto
  next
    case (accepted t)
    have "inv t" using Cons.prems(1) accepted(1) by (rule exec_inv)
    have "seen s \<subseteq> seen t" using Cons.prems(1) accepted(1) by (rule remembers)
    with Cons accepted \<open>inv t\<close> show ?thesis
      using consumes[OF Cons.prems(1) accepted(1)] assms(3) by auto
  qed
qed simp

lemma accepted_once:
  assumes "inv s"
  shows "distinct (List.map_filter uses (accepted_ops exec xs s))"
  using assms
proof (induction xs arbitrary: s)
  case (Cons y xs)
  show ?case
  proof (cases rule: step_or_stay_cases[of exec y s])
    case (refused e)
    with Cons show ?thesis by simp
  next
    case (accepted t)
    have t: "inv t" using Cons.prems accepted(1) by (rule exec_inv)
    have fresh: "k \<notin> set (List.map_filter uses (accepted_ops exec xs t))" if "uses y = Some k" for k
      using accepted_fresh[OF t, of _ xs] consumes[OF Cons.prems accepted(1) that]
      by (auto simp: map_filter_def)
    show ?thesis
      using Cons.IH[OF t] accepted fresh
      by (cases "uses y") (auto simp: map_filter_simps)
  qed
qed (simp add: map_filter_simps)

end

end
