(* ===== verification/Optimistic_Escrow.thy ===== *)
theory Optimistic_Escrow
  imports Optimistic Machines
begin

text \<open>
  Escrow accounting of the optimistic ledger: what the bond primitives do to one account, that
  no handler creates or destroys collateral of an asset, and the ledger as a machine over its
  requests. \<open>escrow_total\<close> is the collateral of one asset over all owners, available or locked.
\<close>

section \<open>The ledger as a machine\<close>

datatype opt_op =
    Enroll opt_policy
  | Register registered_execution
  | Credit id32 id32 u64
  | Withdraw id32 id32 u64
  | Propose proposal u64
  | Dispute challenge u64
  | Answer id32 bytes challenge_verifier u64
  | Advance id32 u64

fun opt_exec :: "opt_prims \<Rightarrow> claim_authentication \<Rightarrow> opt_op \<Rightarrow> opt_state \<Rightarrow> opt_error + opt_state" where
  "opt_exec P auth (Enroll p) s = and_then (enroll_policy P p s) (\<lambda>r. Inr (snd r))"
| "opt_exec P auth (Register e) s = register_execution P e s"
| "opt_exec P auth (Credit asset owner amount) s = credit_escrow P asset owner amount s"
| "opt_exec P auth (Withdraw asset owner amount) s = withdraw_escrow P asset owner amount s"
| "opt_exec P auth (Propose q now) s = and_then (propose P auth q now s) (\<lambda>r. Inr (snd r))"
| "opt_exec P auth (Dispute r now) s = challenge_claim P auth r now s"
| "opt_exec P auth (Answer i pf v now) s = answer P i pf v now s"
| "opt_exec P auth (Advance i now) s = advance P i now s"

section \<open>Accounts\<close>

definition acct :: "opt_state \<Rightarrow> string \<Rightarrow> bond_account" where
  "acct s k = (case bt_get (bonds s) k of None \<Rightarrow> bond_default | Some a \<Rightarrow> a)"

definition worth :: "bond_account \<Rightarrow> nat" where
  "worth a = unat (available a) + unat (locked a)"

lemma bond_acct: "bond P s asset owner = acct s (bond_key P asset owner)"
  by (simp add: bond_def acct_def)

lemma worth_default [simp]: "worth bond_default = 0"
  by (simp add: worth_def bond_default_def)

lemma locked_default [simp]: "locked bond_default = 0" "available bond_default = 0"
  by (simp_all add: bond_default_def)

lemma acct_put_bond [simp]:
  "acct (put_bond P asset owner x s) k = (if k = bond_key P asset owner then x else acct s k)"
  by (simp add: acct_def put_bond_def)

lemma put_bond_frame [simp]:
  "policies (put_bond P asset owner x s) = policies s"
  "executions (put_bond P asset owner x s) = executions s"
  "claims (put_bond P asset owner x s) = claims s"
  "jobs (put_bond P asset owner x s) = jobs s"
  by (simp_all add: put_bond_def)

lemma put_claim_frame [simp]:
  "policies (put_claim P i c s) = policies s"
  "executions (put_claim P i c s) = executions s"
  "bonds (put_claim P i c s) = bonds s"
  "jobs (put_claim P i c s) = jobs s"
  "acct (put_claim P i c s) k = acct s k"
  "claims (put_claim P i c s) = bt_insert (hex P i) c (claims s)"
  by (simp_all add: put_claim_def acct_def)

text \<open>The collateral held under the keys that satisfy \<open>Q\<close>.\<close>

definition held :: "(string \<Rightarrow> bool) \<Rightarrow> opt_state \<Rightarrow> nat" where
  "held Q s = bt_sum (\<lambda>k a. if Q k then worth a else 0) (bonds s)"

lemma held_put_claim [simp]: "held Q (put_claim P i c s) = held Q s"
  by (simp add: held_def)

lemma held_put_bond:
  assumes "bt_wf (bonds s)"
  shows "held Q (put_bond P asset owner x s)
           + (if Q (bond_key P asset owner) then worth (acct s (bond_key P asset owner)) else 0)
         = held Q s + (if Q (bond_key P asset owner) then worth x else 0)"
proof (cases "bt_get (bonds s) (bond_key P asset owner)")
  case None
  then show ?thesis
    using bt_sum_insert_new[OF None] by (simp add: held_def put_bond_def acct_def)
next
  case (Some a)
  then show ?thesis
    using bt_sum_insert_old[OF assms Some, of "\<lambda>k a. if Q k then worth a else 0" x]
    by (simp add: held_def put_bond_def acct_def split: if_splits)
qed

lemma held_account_le: "Q k \<Longrightarrow> worth (acct s k) \<le> held Q s"
  unfolding acct_def held_def
  by (auto split: option.splits dest!: bt_get_Some_in
      bt_sum_member_le[where f = "\<lambda>k a. if Q k then worth a else 0"])

section \<open>The bond primitives\<close>

text \<open>What each primitive does when it is accepted, and exactly when it is.\<close>

lemma credit_escrow_ok:
  "credit_escrow P asset owner amount s = Inr t \<longleftrightarrow>
     asset \<noteq> 0 \<and> owner \<noteq> 0 \<and> amount \<noteq> 0 \<and>
     unat (available (bond P s asset owner)) + unat amount < 2 ^ 64 \<and>
     t = put_bond P asset owner
           ((bond P s asset owner)\<lparr>available := available (bond P s asset owner) + amount\<rparr>) s"
  by (auto simp: credit_escrow_def result_simps Let_def checked_add_Some)

lemma withdraw_escrow_ok:
  "withdraw_escrow P asset owner amount s = Inr t \<longleftrightarrow>
     amount \<noteq> 0 \<and> amount \<le> available (bond P s asset owner) \<and>
     t = put_bond P asset owner
           ((bond P s asset owner)\<lparr>available := available (bond P s asset owner) - amount\<rparr>) s"
  by (auto simp: withdraw_escrow_def result_simps Let_def checked_sub_Some)

lemma lock_bond_ok:
  "lock_bond P asset owner amount s = Inr t \<longleftrightarrow>
     amount \<le> available (bond P s asset owner) \<and>
     unat (locked (bond P s asset owner)) + unat amount < 2 ^ 64 \<and>
     t = put_bond P asset owner
           \<lparr>available = available (bond P s asset owner) - amount,
            locked = locked (bond P s asset owner) + amount\<rparr> s"
  by (auto simp: lock_bond_def result_simps Let_def checked_sub_Some checked_add_Some)

lemma award_ok:
  "award P asset source target amount s = Inr t \<longleftrightarrow>
     amount \<le> locked (bond P s asset source) \<and>
     credit_escrow P asset target amount
       (put_bond P asset source
          ((bond P s asset source)\<lparr>locked := locked (bond P s asset source) - amount\<rparr>) s) = Inr t"
  by (auto simp: award_def result_simps Let_def checked_sub_Some)

lemmas bond_ok = credit_escrow_ok withdraw_escrow_ok lock_bond_ok award_ok

lemma bond_frame:
  "credit_escrow P asset owner amount s = Inr t \<Longrightarrow>
     policies t = policies s \<and> executions t = executions s \<and> claims t = claims s \<and> jobs t = jobs s"
  "withdraw_escrow P asset owner amount s = Inr t \<Longrightarrow>
     policies t = policies s \<and> executions t = executions s \<and> claims t = claims s \<and> jobs t = jobs s"
  "lock_bond P asset owner amount s = Inr t \<Longrightarrow>
     policies t = policies s \<and> executions t = executions s \<and> claims t = claims s \<and> jobs t = jobs s"
  "award P asset source target amount s = Inr t \<Longrightarrow>
     policies t = policies s \<and> executions t = executions s \<and> claims t = claims s \<and> jobs t = jobs s"
  by (auto simp: bond_ok)

lemma resolve_bonds_ok:
  "resolve_bonds P p challenger valid s = Inr t \<longleftrightarrow>
     (\<exists>u. award P (pol_bond_asset p) (pol_proposer p)
            (if valid then pol_proposer p else challenger) (pol_proposer_bond p) s = Inr u \<and>
          award P (pol_bond_asset p) challenger
            (if valid then pol_proposer p else challenger) (pol_challenger_bond p) u = Inr t)"
  by (auto simp: resolve_bonds_def Let_def result_simps)

lemma resolve_frame:
  "resolve_bonds P p challenger valid s = Inr t \<Longrightarrow>
     policies t = policies s \<and> executions t = executions s \<and> claims t = claims s \<and> jobs t = jobs s"
  by (auto simp: resolve_bonds_ok dest!: bond_frame(4))

lemma bonds_wf:
  "bt_wf (bonds s) \<Longrightarrow> credit_escrow P asset owner amount s = Inr t \<Longrightarrow> bt_wf (bonds t)"
  "bt_wf (bonds s) \<Longrightarrow> withdraw_escrow P asset owner amount s = Inr t \<Longrightarrow> bt_wf (bonds t)"
  "bt_wf (bonds s) \<Longrightarrow> lock_bond P asset owner amount s = Inr t \<Longrightarrow> bt_wf (bonds t)"
  "bt_wf (bonds s) \<Longrightarrow> award P asset source target amount s = Inr t \<Longrightarrow> bt_wf (bonds t)"
  by (auto simp: bond_ok put_bond_def)

text \<open>Locking moves value inside one account; an award moves it between two accounts.\<close>

lemma worth_lock:
  assumes "amount \<le> available a" and "unat (locked a) + unat amount < 2 ^ 64"
  shows "worth \<lparr>available = available a - amount, locked = locked a + amount\<rparr> = worth a"
proof -
  have "unat (available a - amount) = unat (available a) - unat amount"
    using assms(1) by (simp add: unat_sub)
  moreover have "unat (locked a + amount) = unat (locked a) + unat amount"
    using assms(2) by (simp add: unat_word_ariths)
  ultimately show ?thesis
    using assms(1) by (simp add: worth_def word_le_nat_alt)
qed

lemma held_lock:
  assumes "bt_wf (bonds s)" and "lock_bond P asset owner amount s = Inr t"
  shows "held Q t = held Q s"
proof -
  let ?a = "bond P s asset owner"
  let ?b = "\<lparr>available = available ?a - amount, locked = locked ?a + amount\<rparr>"
  have "t = put_bond P asset owner ?b s" "worth ?b = worth ?a"
    using assms(2) worth_lock by (auto simp: lock_bond_ok)
  then show ?thesis
    using held_put_bond[OF assms(1), of Q P asset owner ?b] by (simp add: bond_acct split: if_splits)
qed

lemma held_credit:
  assumes "bt_wf (bonds s)" and "credit_escrow P asset owner amount s = Inr t"
  shows "held Q t = held Q s + (if Q (bond_key P asset owner) then unat amount else 0)"
proof -
  let ?a = "bond P s asset owner"
  have t: "t = put_bond P asset owner (?a\<lparr>available := available ?a + amount\<rparr>) s"
    and lt: "unat (available ?a) + unat amount < 2 ^ 64"
    using assms(2) by (auto simp: credit_escrow_ok)
  have "worth (?a\<lparr>available := available ?a + amount\<rparr>) = worth ?a + unat amount"
    using lt by (simp add: worth_def unat_word_ariths)
  then show ?thesis
    using held_put_bond[OF assms(1), of Q P asset owner "?a\<lparr>available := available ?a + amount\<rparr>"]
    by (simp add: t bond_acct split: if_splits)
qed

lemma held_withdraw:
  assumes "bt_wf (bonds s)" and "withdraw_escrow P asset owner amount s = Inr t"
  shows "held Q s = held Q t + (if Q (bond_key P asset owner) then unat amount else 0)"
proof -
  let ?a = "bond P s asset owner"
  have t: "t = put_bond P asset owner (?a\<lparr>available := available ?a - amount\<rparr>) s"
    and le: "amount \<le> available ?a"
    using assms(2) by (auto simp: withdraw_escrow_ok)
  have "worth ?a = worth (?a\<lparr>available := available ?a - amount\<rparr>) + unat amount"
    using le by (simp add: worth_def unat_sub word_le_nat_alt)
  then show ?thesis
    using held_put_bond[OF assms(1), of Q P asset owner "?a\<lparr>available := available ?a - amount\<rparr>"]
    by (simp add: t bond_acct split: if_splits)
qed

lemma held_award:
  assumes "bt_wf (bonds s)" and "award P asset source target amount s = Inr t"
    and "Q (bond_key P asset source) = Q (bond_key P asset target)"
  shows "held Q t = held Q s"
proof -
  let ?d = "bond P s asset source"
  let ?u = "put_bond P asset source (?d\<lparr>locked := locked ?d - amount\<rparr>) s"
  have le: "amount \<le> locked ?d" and c: "credit_escrow P asset target amount ?u = Inr t"
    using assms(2) by (auto simp: award_ok)
  have wf: "bt_wf (bonds ?u)" using assms(1) by (simp add: put_bond_def)
  have "worth ?d = worth (?d\<lparr>locked := locked ?d - amount\<rparr>) + unat amount"
    using le by (simp add: worth_def unat_sub word_le_nat_alt)
  then show ?thesis
    using held_put_bond[OF assms(1), of Q P asset source "?d\<lparr>locked := locked ?d - amount\<rparr>"]
      held_credit[OF wf c, of Q] assms(3)
    by (simp add: bond_acct split: if_splits)
qed

section \<open>Accepted requests\<close>

lemma propose_ok:
  assumes "propose P auth q now s = Inr r"
  obtains i p job e dl u where
    "get_policy P s (prop_policy q) = Some p" "proposal_verify P auth q p now = Inr ()"
    "proposal_id P q = Inr i" "job_key P (prop_context q) = Inr job"
    "bt_get (executions s) job = Some e" "exe_context e = prop_context q"
    "exe_policy e = prop_policy q" "prop_valid_until q \<le> exe_valid_until e"
    "\<not> past_execution now p (exe_valid_until e)"
    "bt_get (claims s) (hex P i) = None" "bt_get (jobs s) job = None"
    "checked_add now (pol_challenge_window p) = Some dl"
    "lock_bond P (pol_bond_asset p) (pol_proposer p) (pol_proposer_bond p) s = Inr u"
    "r = (i, (put_claim P i \<lparr>clm_proposal = q, clm_policy = p, clm_accepted_at = now,
                clm_challenge_deadline = dl, clm_status = Pending\<rparr> u)\<lparr>jobs := bt_insert job i (jobs s)\<rparr>)"
  using assms bond_frame(3)
  by (auto simp: propose_def result_simps Let_def bt_contains_def not_less)

lemma challenge_ok:
  assumes "challenge_claim P auth r now s = Inr t"
  obtains d c rd u where
    "challenge_signing_digest P r = Inr d" "auth (chal_challenger r) d (chal_signature r) = Inr ()"
    "get_claim P s (chal_claim r) = Some c" "clm_status c = Pending"
    "clm_accepted_at c \<le> now" "now < clm_challenge_deadline c"
    "chal_challenger r \<noteq> pol_proposer (clm_policy c)"
    "checked_add now (pol_response_window (clm_policy c)) = Some rd"
    "lock_bond P (pol_bond_asset (clm_policy c)) (chal_challenger r)
       (pol_challenger_bond (clm_policy c)) s = Inr u"
    "t = put_claim P (chal_claim r) (c\<lparr>clm_status := Challenged (chal_challenger r) rd\<rparr>) u"
  using assms by (auto simp: challenge_claim_def result_simps not_less not_le)

lemma answer_ok:
  assumes "answer P i pf v now s = Inr t"
  obtains (defended) c ch rd u where
    "get_claim P s i = Some c" "clm_status c = Challenged ch rd"
    "clm_accepted_at c \<le> now" "now < rd" "verifier_id v = pol_verifier (clm_policy c)"
    "verifier_verify v (prop_context (clm_proposal c)) pf = Inr (prop_output_root (clm_proposal c))"
    "award P (pol_bond_asset (clm_policy c)) ch (pol_proposer (clm_policy c))
       (pol_challenger_bond (clm_policy c)) s = Inr u"
    "t = put_claim P i (c\<lparr>clm_status := Proven (sha256 P pf)\<rparr>) u"
  | (refuted) c ch rd res u where
    "get_claim P s i = Some c" "clm_status c = Challenged ch rd"
    "clm_accepted_at c \<le> now" "now < rd" "verifier_id v = pol_verifier (clm_policy c)"
    "verifier_verify v (prop_context (clm_proposal c)) pf = Inr res"
    "res \<noteq> prop_output_root (clm_proposal c)"
    "resolve_bonds P (clm_policy c) ch False s = Inr u"
    "t = put_claim P i (c\<lparr>clm_status := Rejected ch (Some (sha256 P pf))\<rparr>) u"
proof -
  from assms obtain c where c: "get_claim P s i = Some c"
    by (auto simp: answer_def result_simps)
  show thesis
  proof (cases "clm_status c")
    case (Challenged ch rd)
    obtain res where res: "verifier_verify v (prop_context (clm_proposal c)) pf = Inr res"
      using assms c Challenged by (auto simp: answer_def result_simps)
    have g: "clm_accepted_at c \<le> now" "now < rd" "verifier_id v = pol_verifier (clm_policy c)"
      using assms c Challenged by (auto simp: answer_def result_simps)
    show thesis
    proof (cases "res = prop_output_root (clm_proposal c)")
      case True
      with assms c Challenged res g show thesis
        by (auto simp: answer_def result_simps Let_def intro: defended)
    next
      case False
      with assms c Challenged res g show thesis
        by (auto simp: answer_def result_simps Let_def intro: refuted)
    qed
  qed (use assms c in \<open>auto simp: answer_def\<close>)
qed

lemma advance_ok:
  assumes "advance P i now s = Inr t"
  obtains (released) c evidence u where
    "get_claim P s i = Some c" "clm_challenge_deadline c \<le> now"
    "clm_status c = Pending \<and> evidence = None \<or> (\<exists>pr. clm_status c = Proven pr \<and> evidence = Some pr)"
    "award P (pol_bond_asset (clm_policy c)) (pol_proposer (clm_policy c))
       (pol_proposer (clm_policy c)) (pol_proposer_bond (clm_policy c)) s = Inr u"
    "t = put_claim P i (c\<lparr>clm_status := Finalized evidence\<rparr>) u"
  | (unanswered) c ch rd u where
    "get_claim P s i = Some c" "clm_status c = Challenged ch rd" "rd \<le> now"
    "resolve_bonds P (clm_policy c) ch False s = Inr u"
    "t = put_claim P i (c\<lparr>clm_status := Rejected ch None\<rparr>) u"
proof -
  from assms obtain c where c: "get_claim P s i = Some c"
    by (auto simp: advance_def result_simps)
  show thesis
  proof (cases "clm_status c")
    case Pending
    with assms c show thesis
      by (auto simp: advance_def result_simps Let_def unlock_bond_def intro: released split: if_splits)
  next
    case (Proven pr)
    with assms c show thesis
      by (auto simp: advance_def result_simps Let_def unlock_bond_def intro: released split: if_splits)
  next
    case (Challenged ch rd)
    with assms c show thesis
      by (auto simp: advance_def result_simps Let_def intro: unanswered split: if_splits)
  qed (use assms c in \<open>auto simp: advance_def Let_def\<close>)
qed

section \<open>Conservation of collateral\<close>

definition hex_ok :: "opt_prims \<Rightarrow> bool" where
  "hex_ok P \<longleftrightarrow> inj (hex P) \<and> (\<forall>d. length (hex P d) = 64 \<and> list_all hex_char (hex P d))
               \<and> hex P 0 = replicate 64 (CHR ''0'')"

definition asset_key :: "opt_prims \<Rightarrow> id32 \<Rightarrow> string \<Rightarrow> bool" where
  "asset_key P asset k = (take 65 k = hex P asset @ '':'')"

definition escrow_total :: "opt_prims \<Rightarrow> id32 \<Rightarrow> opt_state \<Rightarrow> nat" where
  "escrow_total P asset s = held (asset_key P asset) s"

lemma asset_key_bond_key:
  assumes "hex_ok P"
  shows "asset_key P asset (bond_key P a owner) \<longleftrightarrow> a = asset"
proof -
  have "length (hex P a) = 64" "length (hex P asset) = 64" using assms by (auto simp: hex_ok_def)
  then have "asset_key P asset (bond_key P a owner) \<longleftrightarrow> hex P a = hex P asset"
    by (auto simp: asset_key_def bond_key_def)
  then show ?thesis using assms by (auto simp: hex_ok_def inj_eq)
qed

lemma held_resolve:
  assumes "hex_ok P" and "bt_wf (bonds s)" and "resolve_bonds P p ch valid s = Inr t"
  shows "escrow_total P asset t = escrow_total P asset s"
proof -
  obtain u where u: "award P (pol_bond_asset p) (pol_proposer p)
            (if valid then pol_proposer p else ch) (pol_proposer_bond p) s = Inr u"
    and t: "award P (pol_bond_asset p) ch
            (if valid then pol_proposer p else ch) (pol_challenger_bond p) u = Inr t"
    using assms(3) by (auto simp: resolve_bonds_ok)
  note keys = asset_key_bond_key[OF assms(1)]
  have "escrow_total P asset u = escrow_total P asset s"
    unfolding escrow_total_def by (rule held_award[OF assms(2) u]) (simp add: keys)
  moreover have "escrow_total P asset t = escrow_total P asset u"
    unfolding escrow_total_def
    by (rule held_award[OF bonds_wf(4)[OF assms(2) u] t]) (simp add: keys)
  ultimately show ?thesis by simp
qed

fun deposited :: "id32 \<Rightarrow> opt_op \<Rightarrow> nat" where
  "deposited asset (Credit a owner amount) = (if a = asset then unat amount else 0)"
| "deposited asset _ = 0"

fun withdrawn :: "id32 \<Rightarrow> opt_op \<Rightarrow> nat" where
  "withdrawn asset (Withdraw a owner amount) = (if a = asset then unat amount else 0)"
| "withdrawn asset _ = 0"

lemma resolve_wf: "bt_wf (bonds s) \<Longrightarrow> resolve_bonds P p ch valid s = Inr t \<Longrightarrow> bt_wf (bonds t)"
  using bonds_wf(4) unfolding resolve_bonds_ok by metis

lemma held_jobs [simp]: "held Q (s\<lparr>jobs := j\<rparr>) = held Q s"
  by (simp add: held_def)

lemma exec_bonds_wf:
  assumes "opt_exec P auth x s = Inr t" and "bt_wf (bonds s)"
  shows "bt_wf (bonds t)"
proof (cases x)
  case (Enroll p)
  then show ?thesis using assms by (auto simp: enroll_policy_def result_simps)
next
  case (Register e)
  then show ?thesis using assms by (auto simp: register_execution_def result_simps)
next
  case (Propose q now)
  then obtain r where r: "propose P auth q now s = Inr r" "t = snd r"
    using assms(1) by (auto simp: result_simps)
  from r(1) show ?thesis
  proof (cases rule: propose_ok)
    case (1 i p job e dl u)
    from bonds_wf(3)[OF assms(2) 1(13)] show ?thesis by (simp add: 1(14) r(2))
  qed
next
  case (Dispute r now)
  then have "challenge_claim P auth r now s = Inr t" using assms(1) by simp
  then show ?thesis
  proof (cases rule: challenge_ok)
    case (1 d c rd u)
    from bonds_wf(3)[OF assms(2) 1(9)] show ?thesis by (simp add: 1(10))
  qed
next
  case (Answer i pf v now)
  then have "answer P i pf v now s = Inr t" using assms(1) by simp
  then show ?thesis
  proof (cases rule: answer_ok)
    case (defended c ch rd u)
    from bonds_wf(4)[OF assms(2) defended(7)] show ?thesis by (simp add: defended(8))
  next
    case (refuted c ch rd res u)
    from resolve_wf[OF assms(2) refuted(8)] show ?thesis by (simp add: refuted(9))
  qed
next
  case (Advance i now)
  then have "advance P i now s = Inr t" using assms(1) by simp
  then show ?thesis
  proof (cases rule: advance_ok)
    case (released c evidence u)
    from bonds_wf(4)[OF assms(2) released(4)] show ?thesis by (simp add: released(5))
  next
    case (unanswered c ch rd u)
    from resolve_wf[OF assms(2) unanswered(4)] show ?thesis by (simp add: unanswered(5))
  qed
next
  case (Credit asset owner amount)
  with assms(1) have "credit_escrow P asset owner amount s = Inr t" by simp
  with assms(2) show ?thesis by (rule bonds_wf(1))
next
  case (Withdraw asset owner amount)
  with assms(1) have "withdraw_escrow P asset owner amount s = Inr t" by simp
  with assms(2) show ?thesis by (rule bonds_wf(2))
qed

lemma exec_conserves:
  assumes hex: "hex_ok P" and ex: "opt_exec P auth x s = Inr t" and wf: "bt_wf (bonds s)"
  shows "escrow_total P asset t + withdrawn asset x = escrow_total P asset s + deposited asset x"
proof (cases x)
  case (Enroll p)
  then show ?thesis
    using ex by (auto simp: enroll_policy_def result_simps escrow_total_def held_def)
next
  case (Register e)
  then show ?thesis
    using ex by (auto simp: register_execution_def result_simps escrow_total_def held_def)
next
  case (Credit a owner amount)
  then show ?thesis
    using ex held_credit[OF wf] by (simp add: escrow_total_def asset_key_bond_key[OF hex])
next
  case (Withdraw a owner amount)
  then show ?thesis
    using ex held_withdraw[OF wf] by (auto simp: escrow_total_def asset_key_bond_key[OF hex])
next
  case (Propose q now)
  then obtain r where r: "propose P auth q now s = Inr r" "t = snd r"
    using ex by (auto simp: result_simps)
  from r(1) show ?thesis
  proof (cases rule: propose_ok)
    case (1 i p job e dl u)
    from held_lock[OF wf 1(13)] show ?thesis by (simp add: 1(14) r(2) escrow_total_def Propose)
  qed
next
  case (Dispute r now)
  then have "challenge_claim P auth r now s = Inr t" using ex by simp
  then show ?thesis
  proof (cases rule: challenge_ok)
    case (1 d c rd u)
    from held_lock[OF wf 1(9)] show ?thesis by (simp add: 1(10) escrow_total_def Dispute)
  qed
next
  case (Answer i pf v now)
  then have "answer P i pf v now s = Inr t" using ex by simp
  then have "escrow_total P asset t = escrow_total P asset s"
  proof (cases rule: answer_ok)
    case (defended c ch rd u)
    then show ?thesis
      using held_award[OF wf defended(7), of "asset_key P asset"]
      by (simp add: escrow_total_def asset_key_bond_key[OF hex])
  next
    case (refuted c ch rd res u)
    then show ?thesis
      using held_resolve[OF hex wf refuted(8), of asset] by (simp add: escrow_total_def)
  qed
  then show ?thesis by (simp add: Answer)
next
  case (Advance i now)
  then have "advance P i now s = Inr t" using ex by simp
  then have "escrow_total P asset t = escrow_total P asset s"
  proof (cases rule: advance_ok)
    case (released c evidence u)
    then show ?thesis
      using held_award[OF wf released(4), of "asset_key P asset"]
      by (simp add: escrow_total_def asset_key_bond_key[OF hex])
  next
    case (unanswered c ch rd u)
    then show ?thesis
      using held_resolve[OF hex wf unanswered(4), of asset] by (simp add: escrow_total_def)
  qed
  then show ?thesis by (simp add: Advance)
qed

lemma run_conserves:
  assumes "hex_ok P" and "bt_wf (bonds s)"
  shows "escrow_total P asset (run_ops (opt_exec P auth) xs s)
           + sum_list (map (withdrawn asset) (accepted_ops (opt_exec P auth) xs s))
         = escrow_total P asset s
           + sum_list (map (deposited asset) (accepted_ops (opt_exec P auth) xs s))"
  using assms(2)
proof (induction xs arbitrary: s)
  case (Cons x xs)
  show ?case
  proof (cases rule: step_or_stay_cases[of "opt_exec P auth" x s])
    case (refused e)
    with Cons show ?thesis by simp
  next
    case (accepted t)
    show ?thesis
      using Cons.IH[OF exec_bonds_wf[OF accepted(1) Cons.prems]]
        exec_conserves[OF assms(1) accepted(1) Cons.prems, of asset] accepted
      by simp
  qed
qed simp

end
