(* ===== verification/Optimistic_Snapshot.thy ===== *)
theory Optimistic_Snapshot
  imports Optimistic_Escrow
begin

text \<open>
  \<open>OptimisticState::validate\<close>, the check a host runs on a loaded snapshot and before it commits,
  characterised without its loops: \<open>snapshot_ok\<close> says what the indexes, the claims and the escrow
  satisfy, and \<open>validate_iff\<close> that the loops accept exactly those states.
\<close>

definition maps_wf :: "opt_state \<Rightarrow> bool" where
  "maps_wf s \<longleftrightarrow> bt_wf (policies s) \<and> bt_wf (executions s) \<and> bt_wf (claims s) \<and> bt_wf (jobs s)
               \<and> bt_wf (bonds s)"

definition claim_job :: "opt_prims \<Rightarrow> claim \<Rightarrow> string" where
  "claim_job P c = (case job_key P (prop_context (clm_proposal c)) of Inl _ \<Rightarrow> [] | Inr k \<Rightarrow> k)"

definition claim_pid :: "opt_prims \<Rightarrow> claim \<Rightarrow> id32" where
  "claim_pid P c = (case proposal_id P (clm_proposal c) of Inl _ \<Rightarrow> 0 | Inr d \<Rightarrow> d)"

text \<open>The collateral a claim holds locked under one bond key.\<close>

definition proposer_share :: "opt_prims \<Rightarrow> string \<Rightarrow> claim \<Rightarrow> nat" where
  "proposer_share P k c =
     (if k = bond_key P (pol_bond_asset (clm_policy c)) (pol_proposer (clm_policy c))
      then unat (pol_proposer_bond (clm_policy c)) else 0)"

definition challenger_share :: "opt_prims \<Rightarrow> string \<Rightarrow> claim \<Rightarrow> id32 \<Rightarrow> nat" where
  "challenger_share P k c ch =
     (if k = bond_key P (pol_bond_asset (clm_policy c)) ch
      then unat (pol_challenger_bond (clm_policy c)) else 0)"

definition obligation :: "opt_prims \<Rightarrow> string \<Rightarrow> claim \<Rightarrow> nat" where
  "obligation P k c =
     (case clm_status c of
        Pending \<Rightarrow> proposer_share P k c
      | Proven _ \<Rightarrow> proposer_share P k c
      | Challenged ch _ \<Rightarrow> proposer_share P k c + challenger_share P k c ch
      | _ \<Rightarrow> 0)"

definition status_ok :: "claim \<Rightarrow> bool" where
  "status_ok c \<longleftrightarrow>
     (case clm_status c of
        Challenged ch rd \<Rightarrow>
          (\<exists>start. checked_sub rd (pol_response_window (clm_policy c)) = Some start
             \<and> clm_accepted_at c \<le> start \<and> start < clm_challenge_deadline c)
          \<and> ch \<noteq> pol_proposer (clm_policy c)
      | _ \<Rightarrow> True)"

definition claim_static :: "opt_prims \<Rightarrow> claim_authentication \<Rightarrow> opt_state \<Rightarrow> string \<Rightarrow> claim \<Rightarrow> bool" where
  "claim_static P auth s k c \<longleftrightarrow>
     get_policy P s (prop_policy (clm_proposal c)) = Some (clm_policy c)
     \<and> proposal_id P (clm_proposal c) = Inr (claim_pid P c) \<and> k = hex P (claim_pid P c)
     \<and> checked_add (clm_accepted_at c) (pol_challenge_window (clm_policy c))
         = Some (clm_challenge_deadline c)
     \<and> proposal_verify P auth (clm_proposal c) (clm_policy c) (clm_accepted_at c) = Inr ()
     \<and> job_key P (prop_context (clm_proposal c)) = Inr (claim_job P c)
     \<and> (\<exists>x. bt_get (executions s) (claim_job P c) = Some x \<and> \<not> claim_exceeds x c (clm_policy c))"

definition policies_ok :: "opt_prims \<Rightarrow> opt_state \<Rightarrow> bool" where
  "policies_ok P s \<longleftrightarrow> (\<forall>(k, p) \<in> set (policies s). \<exists>d. policy_digest P p = Inr d \<and> k = hex P d)"

definition executions_ok :: "opt_prims \<Rightarrow> opt_state \<Rightarrow> bool" where
  "executions_ok P s \<longleftrightarrow>
     (\<forall>(k, e) \<in> set (executions s). \<exists>p. get_policy P s (exe_policy e) = Some p
        \<and> job_key P (exe_context e) = Inr k \<and> \<not> execution_mismatch e p)"

definition claims_ok :: "opt_prims \<Rightarrow> claim_authentication \<Rightarrow> opt_state \<Rightarrow> bool" where
  "claims_ok P auth s \<longleftrightarrow> (\<forall>(k, c) \<in> set (claims s). claim_static P auth s k c \<and> status_ok c)"

definition jobs_ok :: "opt_prims \<Rightarrow> opt_state \<Rightarrow> bool" where
  "jobs_ok P s \<longleftrightarrow>
     distinct (map (claim_job P \<circ> snd) (claims s))
     \<and> (\<forall>j d. bt_get (jobs s) j = Some d \<longleftrightarrow>
          (\<exists>c \<in> snd ` set (claims s). claim_job P c = j \<and> claim_pid P c = d))"

definition escrow_ok :: "opt_prims \<Rightarrow> opt_state \<Rightarrow> bool" where
  "escrow_ok P s \<longleftrightarrow>
     (\<forall>k. bt_sum (\<lambda>_. obligation P k) (claims s) = unat (locked (acct s k)))
     \<and> (\<forall>k \<in> fst ` set (bonds s). valid_bond_key k)"

definition snapshot_ok :: "opt_prims \<Rightarrow> claim_authentication \<Rightarrow> opt_state \<Rightarrow> bool" where
  "snapshot_ok P auth s \<longleftrightarrow>
     policies_ok P s \<and> executions_ok P s \<and> claims_ok P auth s \<and> jobs_ok P s \<and> escrow_ok P s"

section \<open>The loop over policies and executions\<close>

lemma try_fold_unit:
  "try_fold (\<lambda>_. f) () xs = Inr u \<longleftrightarrow> (\<forall>x \<in> set xs. f x = Inr ())"
  by (induction xs) (auto simp: result_simps)

lemma policies_loop: "try_fold (\<lambda>_. validate_policy_entry P) () (policies s) = Inr u \<longleftrightarrow> policies_ok P s"
  by (auto simp: try_fold_unit policies_ok_def validate_policy_entry_def result_simps)

lemma executions_loop:
  "try_fold (\<lambda>_. validate_execution_entry P s) () (executions s) = Inr u \<longleftrightarrow> executions_ok P s"
  by (auto simp: try_fold_unit executions_ok_def validate_execution_entry_def result_simps)

section \<open>The loop over claims\<close>

definition lk :: "locked_map \<Rightarrow> string \<Rightarrow> u64" where
  "lk m k = (case bt_get m k of None \<Rightarrow> 0 | Some v \<Rightarrow> v)"

lemma add_locked_ok:
  "add_locked P p owner amount m = Inr m' \<longleftrightarrow>
     unat (lk m (bond_key P (pol_bond_asset p) owner)) + unat amount < 2 ^ 64
     \<and> m' = bt_insert (bond_key P (pol_bond_asset p) owner)
              (lk m (bond_key P (pol_bond_asset p) owner) + amount) m"
  by (auto simp: add_locked_def Let_def result_simps checked_add_Some lk_def)

lemma add_locked_effect:
  assumes "add_locked P p owner amount m = Inr m'"
  shows "unat (lk m' k) = unat (lk m k)
           + (if k = bond_key P (pol_bond_asset p) owner then unat amount else 0)"
    and "bt_wf m \<Longrightarrow> bt_wf m'"
    and "bt_get m' k = None \<longleftrightarrow> bt_get m k = None \<and> k \<noteq> bond_key P (pol_bond_asset p) owner"
  using assms by (auto simp: add_locked_ok lk_def unat_word_ariths)

lemma validate_status_forward:
  assumes "validate_status P (clm_policy c) c m = Inr m'" and "bt_wf m"
    and "0 < unat (pol_proposer_bond (clm_policy c))" "0 < unat (pol_challenger_bond (clm_policy c))"
  shows "status_ok c" and "bt_wf m'"
    and "unat (lk m' k) = unat (lk m k) + obligation P k c"
    and "bt_get m' k = None \<longleftrightarrow> bt_get m k = None \<and> obligation P k c = 0"
proof -
  have "status_ok c \<and> bt_wf m' \<and> unat (lk m' k) = unat (lk m k) + obligation P k c
        \<and> (bt_get m' k = None \<longleftrightarrow> bt_get m k = None \<and> obligation P k c = 0)"
  proof (cases "clm_status c")
    case (Challenged ch rd)
    with assms(1) obtain start m1 where
      st: "checked_sub rd (pol_response_window (clm_policy c)) = Some start"
        "\<not> start < clm_accepted_at c" "\<not> clm_challenge_deadline c \<le> start"
        "ch \<noteq> pol_proposer (clm_policy c)"
      and m1: "add_locked P (clm_policy c) (pol_proposer (clm_policy c))
                 (pol_proposer_bond (clm_policy c)) m = Inr m1"
      and m': "add_locked P (clm_policy c) ch (pol_challenger_bond (clm_policy c)) m1 = Inr m'"
      by (auto simp: validate_status_def result_simps)
    show ?thesis
      using st assms(2-4) add_locked_effect(1,3)[OF m1, of k] add_locked_effect(1,3)[OF m', of k]
        add_locked_effect(2)[OF m1] add_locked_effect(2)[OF m']
      by (simp add: status_ok_def obligation_def Challenged proposer_share_def challenger_share_def
          not_less not_le)
  next
    case Pending
    then have "add_locked P (clm_policy c) (pol_proposer (clm_policy c))
                 (pol_proposer_bond (clm_policy c)) m = Inr m'"
      using assms(1) by (simp add: validate_status_def)
    from add_locked_effect(1,3)[OF this, of k] add_locked_effect(2)[OF this] assms(2-4) Pending show ?thesis
      by (simp add: status_ok_def obligation_def proposer_share_def)
  next
    case (Proven pr)
    then have "add_locked P (clm_policy c) (pol_proposer (clm_policy c))
                 (pol_proposer_bond (clm_policy c)) m = Inr m'"
      using assms(1) by (simp add: validate_status_def)
    from add_locked_effect(1,3)[OF this, of k] add_locked_effect(2)[OF this] assms(2-4) Proven show ?thesis
      by (simp add: status_ok_def obligation_def proposer_share_def)
  qed (use assms in \<open>auto simp: validate_status_def status_ok_def obligation_def\<close>)
  then show "status_ok c" and "bt_wf m'"
    and "unat (lk m' k) = unat (lk m k) + obligation P k c"
    and "bt_get m' k = None \<longleftrightarrow> bt_get m k = None \<and> obligation P k c = 0"
    by blast+
qed

lemma add_locked_accepts:
  "unat (lk m (bond_key P (pol_bond_asset p) owner)) + unat amount < 2 ^ 64 \<Longrightarrow>
     \<exists>m'. add_locked P p owner amount m = Inr m'"
  by (simp add: add_locked_ok)

lemma validate_status_backward:
  assumes "status_ok c" and "\<And>k. unat (lk m k) + obligation P k c < 2 ^ 64"
  shows "\<exists>m'. validate_status P (clm_policy c) c m = Inr m'"
proof -
  let ?p = "clm_policy c"
  let ?pk = "bond_key P (pol_bond_asset ?p) (pol_proposer ?p)"
  have one: "\<exists>m'. add_locked P ?p (pol_proposer ?p) (pol_proposer_bond ?p) m = Inr m'"
    if "proposer_share P ?pk c \<le> obligation P ?pk c"
  proof (rule add_locked_accepts)
    show "unat (lk m ?pk) + unat (pol_proposer_bond ?p) < 2 ^ 64"
      using assms(2)[of ?pk] that by (simp add: proposer_share_def)
  qed
  show ?thesis
  proof (cases "clm_status c")
    case (Challenged ch rd)
    obtain m1 where m1: "add_locked P ?p (pol_proposer ?p) (pol_proposer_bond ?p) m = Inr m1"
      using one by (auto simp: obligation_def Challenged)
    let ?ck = "bond_key P (pol_bond_asset ?p) ch"
    have "\<exists>m'. add_locked P ?p ch (pol_challenger_bond ?p) m1 = Inr m'"
    proof (rule add_locked_accepts)
      show "unat (lk m1 ?ck) + unat (pol_challenger_bond ?p) < 2 ^ 64"
        using assms(2)[of ?ck] add_locked_effect(1)[OF m1, of ?ck]
        by (simp add: obligation_def Challenged proposer_share_def challenger_share_def
            split: if_splits)
    qed
    then obtain m2 where "add_locked P ?p ch (pol_challenger_bond ?p) m1 = Inr m2" ..
    then show ?thesis
      using assms(1) m1 Challenged
      by (auto simp: validate_status_def status_ok_def result_simps not_less not_le)
  qed (use one in \<open>auto simp: validate_status_def obligation_def\<close>)
qed

lemma validate_claim_entry_ok:
  "validate_claim_entry P auth s (js, m) (k, c) = Inr r \<longleftrightarrow>
     claim_static P auth s k c \<and> bt_get js (claim_job P c) = None
     \<and> (\<exists>m'. validate_status P (clm_policy c) c m = Inr m'
          \<and> r = (bt_insert (claim_job P c) (claim_pid P c) js, m'))"
  by (auto simp: validate_claim_entry_def claim_static_def result_simps Let_def claim_job_def
      claim_pid_def bt_contains_def)

lemma policy_bonds_positive:
  assumes "proposal_verify P auth q p now = Inr ()"
  shows "0 < unat (pol_proposer_bond p)" "0 < unat (pol_challenger_bond p)"
    "pol_bond_asset p \<noteq> 0" "pol_proposer p \<noteq> 0"
  using assms
  by (auto simp: proposal_verify_def policy_digest_def policy_validate_def result_simps
      unat_eq_0 intro!: gr0I)

text \<open>What a prefix of the loop has accumulated: the job index and the locked amounts.\<close>

definition loop_ok ::
  "opt_prims \<Rightarrow> (string, id32) btree \<times> locked_map \<Rightarrow> (string \<times> claim) list
    \<Rightarrow> (string, id32) btree \<times> locked_map \<Rightarrow> bool" where
  "loop_ok P acc cs acc' \<longleftrightarrow>
     bt_wf (fst acc') \<and> bt_wf (snd acc')
     \<and> (\<forall>j d. bt_get (fst acc') j = Some d \<longleftrightarrow>
          bt_get (fst acc) j = Some d \<or> (\<exists>c \<in> snd ` set cs. claim_job P c = j \<and> claim_pid P c = d))
     \<and> (\<forall>k. unat (lk (snd acc') k) = unat (lk (snd acc) k) + bt_sum (\<lambda>_. obligation P k) cs)
     \<and> (\<forall>k. bt_get (snd acc') k = None \<longleftrightarrow>
          bt_get (snd acc) k = None \<and> bt_sum (\<lambda>_. obligation P k) cs = 0)"

definition fresh_jobs :: "opt_prims \<Rightarrow> (string, id32) btree \<Rightarrow> (string \<times> claim) list \<Rightarrow> bool" where
  "fresh_jobs P js cs \<longleftrightarrow>
     distinct (map (claim_job P \<circ> snd) cs) \<and> (\<forall>c \<in> snd ` set cs. bt_get js (claim_job P c) = None)"

lemma fresh_jobs_Cons:
  "fresh_jobs P js ((k, c) # cs) \<longleftrightarrow>
     bt_get js (claim_job P c) = None \<and> fresh_jobs P (bt_insert (claim_job P c) d js) cs"
  by (auto simp: fresh_jobs_def split: if_splits) (metis image_eqI snd_conv)

lemma claims_loop_forward:
  assumes "try_fold (validate_claim_entry P auth s) acc cs = Inr acc'"
    and "bt_wf (fst acc)" and "bt_wf (snd acc)"
  shows "(\<forall>(k, c) \<in> set cs. claim_static P auth s k c \<and> status_ok c)
         \<and> fresh_jobs P (fst acc) cs \<and> loop_ok P acc cs acc'"
  using assms
proof (induction cs arbitrary: acc)
  case Nil
  then show ?case by (simp add: loop_ok_def fresh_jobs_def)
next
  case (Cons e cs)
  obtain js m where acc: "acc = (js, m)" by (cases acc)
  obtain k c where e: "e = (k, c)" by (cases e)
  from Cons.prems(1) obtain m1 where
    st: "claim_static P auth s k c" and fresh: "bt_get js (claim_job P c) = None"
    and m1: "validate_status P (clm_policy c) c m = Inr m1"
    and rest: "try_fold (validate_claim_entry P auth s)
                 (bt_insert (claim_job P c) (claim_pid P c) js, m1) cs = Inr acc'"
    by (auto simp: acc e result_simps validate_claim_entry_ok)
  have wf: "bt_wf m" "bt_wf js" using Cons.prems(2,3) by (simp_all add: acc)
  have pos: "0 < unat (pol_proposer_bond (clm_policy c))" "0 < unat (pol_challenger_bond (clm_policy c))"
    using st policy_bonds_positive by (auto simp: claim_static_def)
  note fwd = validate_status_forward[OF m1 wf(1) pos]
  have IH: "(\<forall>(k, c) \<in> set cs. claim_static P auth s k c \<and> status_ok c)
         \<and> fresh_jobs P (bt_insert (claim_job P c) (claim_pid P c) js) cs
         \<and> loop_ok P (bt_insert (claim_job P c) (claim_pid P c) js, m1) cs acc'"
    using Cons.IH[OF rest] fwd(2) wf by simp
  have "loop_ok P acc (e # cs) acc'"
    using IH fwd(3,4) fresh by (auto simp: loop_ok_def acc e)
  then show ?case
    using IH st fwd(1) fresh by (simp add: acc e fresh_jobs_Cons[where d = "claim_pid P c"])
qed

lemma claims_loop_backward:
  assumes "\<forall>(k, c) \<in> set cs. claim_static P auth s k c \<and> status_ok c"
    and "fresh_jobs P (fst acc) cs" and "bt_wf (snd acc)"
    and "\<And>k. unat (lk (snd acc) k) + bt_sum (\<lambda>_. obligation P k) cs < 2 ^ 64"
  shows "\<exists>acc'. try_fold (validate_claim_entry P auth s) acc cs = Inr acc'"
  using assms
proof (induction cs arbitrary: acc)
  case (Cons e cs)
  obtain js m where acc: "acc = (js, m)" by (cases acc)
  obtain k c where e: "e = (k, c)" by (cases e)
  have st: "claim_static P auth s k c" "status_ok c" using Cons.prems(1) by (auto simp: e)
  have fresh: "bt_get js (claim_job P c) = None"
    and rest: "fresh_jobs P (bt_insert (claim_job P c) (claim_pid P c) js) cs"
    using Cons.prems(2) by (simp_all add: acc e fresh_jobs_Cons[where d = "claim_pid P c"])
  have lt: "unat (lk m k) + obligation P k c < 2 ^ 64" for k
    using Cons.prems(4)[of k] by (simp add: acc e)
  obtain m1 where m1: "validate_status P (clm_policy c) c m = Inr m1"
    using validate_status_backward[OF st(2) lt] by blast
  have pos: "0 < unat (pol_proposer_bond (clm_policy c))" "0 < unat (pol_challenger_bond (clm_policy c))"
    using st policy_bonds_positive by (auto simp: claim_static_def)
  note fwd = validate_status_forward[OF m1 Cons.prems(3)[unfolded acc snd_conv] pos]
  have "\<exists>acc'. try_fold (validate_claim_entry P auth s)
          (bt_insert (claim_job P c) (claim_pid P c) js, m1) cs = Inr acc'"
  proof (rule Cons.IH)
    show "unat (lk (snd (bt_insert (claim_job P c) (claim_pid P c) js, m1)) k)
            + bt_sum (\<lambda>_. obligation P k) cs < 2 ^ 64" for k
      using Cons.prems(4)[of k] fwd(3)[of k] by (simp add: acc e)
  qed (use Cons.prems(1) rest fwd(2) in auto)
  then show ?case
    using st fresh m1 by (auto simp: acc e result_simps validate_claim_entry_ok)
qed simp

section \<open>The loop over bonds\<close>

lemma lk_remove: "lk (bt_remove k m) j = (if j = k then 0 else lk m j)"
  by (simp add: lk_def bt_get_remove)

lemma bonds_loop:
  assumes "distinct (map fst bs)"
  shows "try_fold validate_bond_entry m bs = Inr m' \<longleftrightarrow>
     (\<forall>(k, a) \<in> set bs. valid_bond_key k \<and> lk m k = locked a)
     \<and> m' = filter (\<lambda>p. fst p \<notin> fst ` set bs) m"
  using assms
proof (induction bs arbitrary: m)
  case (Cons e bs)
  obtain k a where e: "e = (k, a)" by (cases e)
  have k: "k \<notin> fst ` set bs" and d: "distinct (map fst bs)" using Cons.prems by (auto simp: e)
  have same: "(\<forall>(j, b) \<in> set bs. valid_bond_key j \<and> lk (bt_remove k m) j = locked b)
       \<longleftrightarrow> (\<forall>(j, b) \<in> set bs. valid_bond_key j \<and> lk m j = locked b)"
    using k by (intro ball_cong refl) (auto simp: lk_remove split: prod.splits intro: rev_image_eqI)
  have filt: "filter (\<lambda>p. fst p \<notin> fst ` set bs) (bt_remove k m)
       = filter (\<lambda>p. fst p \<notin> fst ` set (e # bs)) m"
    by (auto simp: bt_remove_def e intro!: filter_cong)
  have head: "validate_bond_entry m e = Inr x \<longleftrightarrow>
       valid_bond_key k \<and> lk m k = locked a \<and> x = bt_remove k m" for x
    by (auto simp: validate_bond_entry_def e result_simps lk_def)
  have "try_fold validate_bond_entry m (e # bs) = Inr m' \<longleftrightarrow>
       valid_bond_key k \<and> lk m k = locked a \<and> try_fold validate_bond_entry (bt_remove k m) bs = Inr m'"
    by (simp add: and_then_eq_Inr head)
  also have "\<dots> \<longleftrightarrow> valid_bond_key k \<and> lk m k = locked a
       \<and> (\<forall>(j, b) \<in> set bs. valid_bond_key j \<and> lk m j = locked b)
       \<and> m' = filter (\<lambda>p. fst p \<notin> fst ` set (e # bs)) m"
    by (simp only: Cons.IH[OF d] same filt)
  finally show ?case by (simp only: e list.set ball_simps prod.case conj_assoc)
qed (simp add: eq_commute)

lemma filter_keys_empty: "filter (\<lambda>p. fst p \<notin> K) m = [] \<longleftrightarrow> (\<forall>k. bt_get m k \<noteq> None \<longrightarrow> k \<in> K)"
  by (auto simp: filter_empty_conv bt_get_None_iff)

theorem validate_iff:
  assumes "maps_wf s"
  shows "validate P auth s = Inr () \<longleftrightarrow> snapshot_ok P auth s"
proof
  assume v: "validate P auth s = Inr ()"
  then obtain acc m where
    pe: "policies_ok P s" "executions_ok P s"
    and acc: "try_fold (validate_claim_entry P auth s) ([], []) (claims s) = Inr acc"
    and j: "fst acc = jobs s"
    and m: "try_fold validate_bond_entry (snd acc) (bonds s) = Inr m" "m = []"
    by (auto simp: validate_def result_simps policies_loop executions_loop)
  have loop: "(\<forall>(k, c) \<in> set (claims s). claim_static P auth s k c \<and> status_ok c)
      \<and> fresh_jobs P [] (claims s) \<and> loop_ok P ([], []) (claims s) acc"
    using claims_loop_forward[OF acc] by simp
  have d: "distinct (map fst (bonds s))" using assms by (simp add: maps_wf_def bt_wf_distinct)
  have b: "\<forall>(k, a) \<in> set (bonds s). valid_bond_key k \<and> lk (snd acc) k = locked a"
    and f: "filter (\<lambda>p. fst p \<notin> fst ` set (bonds s)) (snd acc) = []"
    using m by (simp_all add: bonds_loop[OF d])
  have dom: "\<forall>k. bt_get (snd acc) k \<noteq> None \<longrightarrow> k \<in> fst ` set (bonds s)"
    using f by (simp only: filter_keys_empty)
  have "bt_sum (\<lambda>_. obligation P k) (claims s) = unat (locked (acct s k))" for k
  proof -
    have sum: "unat (lk (snd acc) k) = bt_sum (\<lambda>_. obligation P k) (claims s)"
      using loop by (simp add: loop_ok_def lk_def)
    have "lk (snd acc) k = locked (acct s k)"
    proof (cases "bt_get (bonds s) k")
      case None
      then have "bt_get (snd acc) k = None" using dom by (auto simp: bt_get_None_iff)
      then show ?thesis by (simp add: lk_def acct_def None)
    next
      case (Some a)
      then show ?thesis using b bt_get_Some_in[OF Some] by (auto simp: acct_def)
    qed
    with sum show ?thesis by simp
  qed
  then show "snapshot_ok P auth s"
    using pe loop b j
    by (auto simp: snapshot_ok_def claims_ok_def jobs_ok_def escrow_ok_def fresh_jobs_def loop_ok_def)
next
  assume ok: "snapshot_ok P auth s"
  then have esc: "bt_sum (\<lambda>_. obligation P k) (claims s) = unat (locked (acct s k))" for k
    by (simp add: snapshot_ok_def escrow_ok_def)
  have st: "\<forall>(k, c) \<in> set (claims s). claim_static P auth s k c \<and> status_ok c"
    and fr: "fresh_jobs P [] (claims s)"
    using ok by (auto simp: snapshot_ok_def claims_ok_def jobs_ok_def fresh_jobs_def)
  have lt: "unat (lk [] k) + bt_sum (\<lambda>_. obligation P k) (claims s) < 2 ^ 64" for k
    using esc[of k] unat_bound[of "locked (acct s k)"] by (simp add: lk_def)
  obtain acc where acc: "try_fold (validate_claim_entry P auth s) ([], []) (claims s) = Inr acc"
    using claims_loop_backward[of "claims s" P auth s "([], [])"] st fr lt by auto
  have loop: "loop_ok P ([], []) (claims s) acc" using claims_loop_forward[OF acc] by simp
  have jobs: "fst acc = jobs s"
  proof (rule bt_ext)
    show "bt_wf (fst acc)" "bt_wf (jobs s)" using loop assms by (auto simp: loop_ok_def maps_wf_def)
    have "bt_get (fst acc) j = Some x \<longleftrightarrow> bt_get (jobs s) j = Some x" for j x
      using loop ok by (simp add: loop_ok_def snapshot_ok_def jobs_ok_def)
    then show "bt_get (fst acc) j = bt_get (jobs s) j" for j
      by (metis option.exhaust)
  qed
  have d: "distinct (map fst (bonds s))" and wfb: "bt_wf (bonds s)"
    using assms by (simp_all add: maps_wf_def bt_wf_distinct)
  have lk: "lk (snd acc) k = locked (acct s k)" for k
  proof -
    have "unat (lk (snd acc) k) = unat (locked (acct s k))"
      using loop esc[of k] by (simp add: loop_ok_def lk_def)
    then show ?thesis by (simp only: unsigned_word_eqI)
  qed
  have b: "\<forall>(k, a) \<in> set (bonds s). valid_bond_key k \<and> lk (snd acc) k = locked a"
    using ok lk by (auto simp: snapshot_ok_def escrow_ok_def acct_def bt_get_iff[OF wfb, symmetric])
  have "bt_get (snd acc) k \<noteq> None \<longrightarrow> k \<in> fst ` set (bonds s)" for k
  proof (cases "bt_get (bonds s) k")
    case None
    then have "bt_sum (\<lambda>_. obligation P k) (claims s) = 0" using esc[of k] by (simp add: acct_def)
    then show ?thesis using loop by (simp add: loop_ok_def)
  qed (auto dest: bt_get_Some_in intro: rev_image_eqI)
  then have "filter (\<lambda>p. fst p \<notin> fst ` set (bonds s)) (snd acc) = []"
    unfolding filter_keys_empty by blast
  then have "try_fold validate_bond_entry (snd acc) (bonds s) = Inr []"
    using b by (simp add: bonds_loop[OF d])
  moreover have "try_fold (\<lambda>_. validate_policy_entry P) () (policies s) = Inr ()"
    "try_fold (\<lambda>_. validate_execution_entry P s) () (executions s) = Inr ()"
    using ok by (simp_all add: policies_loop executions_loop snapshot_ok_def)
  ultimately show "validate P auth s = Inr ()"
    using acc jobs by (simp add: validate_def)
qed

end
