(* ===== verification/Optimistic_Safety.thy ===== *)
theory Optimistic_Safety
  imports Optimistic_Snapshot
begin

text \<open>
  Every accepted request keeps the snapshot valid: the indexes stay consistent, each claim stays
  bound to its registered execution, and the locked escrow of every account is the sum of what the
  open claims hold. The ledger is interpreted as a \<open>once_machine\<close> whose consumed key is the job.
\<close>

section \<open>Bond keys\<close>

lemma split_colon_plain: "CHR '':'' \<notin> set w \<Longrightarrow> split_colon w = [w]"
  by (induction w) auto

lemma split_colon_append:
  "CHR '':'' \<notin> set v \<Longrightarrow> split_colon (v @ CHR '':'' # w) = v # split_colon w"
  by (induction v) auto

lemma hex_no_colon: "list_all hex_char w \<Longrightarrow> CHR '':'' \<notin> set w"
  by (auto simp: list_all_iff hex_char_def Let_def)

lemma valid_bond_key_bond_key:
  assumes "hex_ok P" and "asset \<noteq> 0" and "owner \<noteq> 0"
  shows "valid_bond_key (bond_key P asset owner)"
proof -
  have hx: "list_all hex_char (hex P d)" "length (hex P d) = 64" for d
    using assms(1) by (auto simp: hex_ok_def)
  have "split_colon (bond_key P asset owner) = [hex P asset, hex P owner]"
    using hex_no_colon[OF hx(1)] by (simp add: bond_key_def split_colon_append split_colon_plain)
  moreover have "hex P d \<noteq> replicate 64 (CHR ''0'')" if "d \<noteq> 0" for d
    using assms(1) that by (metis hex_ok_def injD)
  ultimately show ?thesis using assms hx by (simp add: valid_bond_key_def valid_part_def)
qed

section \<open>Locked collateral under the bond primitives\<close>

lemma unat_pos_iff: "0 < unat w \<longleftrightarrow> w \<noteq> 0"
  by (metis neq0_conv unat_eq_0 unat_0)

lemma lock_locked:
  assumes "lock_bond P asset owner amount s = Inr t"
  shows "unat (locked (acct t k)) = unat (locked (acct s k))
           + (if k = bond_key P asset owner then unat amount else 0)"
  using assms by (auto simp: lock_bond_ok bond_acct unat_word_ariths)

lemma award_locked:
  assumes "award P asset source target amount s = Inr t"
  shows "unat (locked (acct t k)) + (if k = bond_key P asset source then unat amount else 0)
           = unat (locked (acct s k))"
  using assms
  by (auto simp: award_ok credit_escrow_ok bond_acct unat_sub word_le_nat_alt)

lemma keys_put_bond: "fst ` set (bonds (put_bond P asset owner x s))
    = insert (bond_key P asset owner) (fst ` set (bonds s))"
  by (simp add: put_bond_def fst_set_bt_insert)

lemma held_key_present: "acct s k \<noteq> bond_default \<Longrightarrow> k \<in> fst ` set (bonds s)"
  by (auto simp: acct_def dest: bt_get_Some_in intro: rev_image_eqI split: option.splits)

lemma lock_keys:
  assumes "lock_bond P asset owner amount s = Inr t" and "amount \<noteq> 0"
  shows "fst ` set (bonds t) = fst ` set (bonds s)"
proof -
  let ?k = "bond_key P asset owner"
  have "amount \<le> available (acct s ?k)" using assms(1) by (simp add: lock_bond_ok bond_acct)
  with assms(2) have "acct s ?k \<noteq> bond_default" by (auto simp: word_le_nat_alt unat_eq_0)
  then show ?thesis
    using assms(1) held_key_present[of s ?k] by (auto simp: lock_bond_ok keys_put_bond)
qed

lemma award_keys:
  assumes "award P asset source target amount s = Inr t" and "hex_ok P" and "amount \<noteq> 0"
    and "\<forall>k \<in> fst ` set (bonds s). valid_bond_key k"
  shows "\<forall>k \<in> fst ` set (bonds t). valid_bond_key k"
proof -
  let ?k = "bond_key P asset source"
  have "amount \<le> locked (acct s ?k)" using assms(1) by (simp add: award_ok bond_acct)
  with assms(3) have "acct s ?k \<noteq> bond_default" by (auto simp: word_le_nat_alt unat_eq_0)
  then have src: "valid_bond_key ?k" using held_key_present assms(4) by blast
  have "asset \<noteq> 0" "target \<noteq> 0" using assms(1) by (auto simp: award_ok credit_escrow_ok)
  then have tgt: "valid_bond_key (bond_key P asset target)"
    by (rule valid_bond_key_bond_key[OF assms(2)])
  show ?thesis
    using assms(1,4) src tgt by (auto simp: award_ok credit_escrow_ok keys_put_bond)
qed

section \<open>Changing the status of one claim\<close>

lemma status_irrelevant [simp]:
  "claim_job P (c\<lparr>clm_status := st\<rparr>) = claim_job P c"
  "claim_pid P (c\<lparr>clm_status := st\<rparr>) = claim_pid P c"
  "claim_static P auth s k (c\<lparr>clm_status := st\<rparr>) = claim_static P auth s k c"
  "proposer_share P k (c\<lparr>clm_status := st\<rparr>) = proposer_share P k c"
  "challenger_share P k (c\<lparr>clm_status := st\<rparr>) ch = challenger_share P k c ch"
  by (simp_all add: claim_job_def claim_pid_def claim_static_def claim_exceeds_def
      proposer_share_def challenger_share_def)

lemma indexed_iff:
  "(\<exists>x \<in> snd ` A. f x = j \<and> g x = d) \<longleftrightarrow> (j, d) \<in> (\<lambda>e. (f (snd e), g (snd e))) ` A"
  by auto

lemma claim_static_mono:
  assumes "claim_static P auth s k c"
    and "\<And>i p. get_policy P s i = Some p \<Longrightarrow> get_policy P t i = Some p"
    and "\<And>j x. bt_get (executions s) j = Some x \<Longrightarrow> bt_get (executions t) j = Some x"
  shows "claim_static P auth t k c"
  using assms by (auto simp: claim_static_def)

lemma get_claim_static:
  assumes "snapshot_ok P auth s" and "get_claim P s i = Some c"
  shows "claim_static P auth s (hex P i) c" and "status_ok c"
  using assms by (auto simp: snapshot_ok_def claims_ok_def get_claim_def dest: bt_get_Some_in)

lemma get_claim_bonds:
  assumes "snapshot_ok P auth s" and "get_claim P s i = Some c"
  shows "pol_proposer_bond (clm_policy c) \<noteq> 0" "pol_challenger_bond (clm_policy c) \<noteq> 0"
    "pol_bond_asset (clm_policy c) \<noteq> 0" "pol_proposer (clm_policy c) \<noteq> 0"
  using get_claim_static(1)[OF assms] policy_bonds_positive
  by (auto simp: claim_static_def unat_pos_iff)

text \<open>
  The one step all four claim handlers share: an open claim gets a new status and the escrow
  moves so that the locked amounts follow the change of its obligation.
\<close>

lemma snapshot_status_change:
  assumes ok: "snapshot_ok P auth s" and wf: "maps_wf s"
    and c: "get_claim P s i = Some c"
    and fr: "policies u = policies s \<and> executions u = executions s \<and> claims u = claims s
             \<and> jobs u = jobs s"
    and st: "status_ok (c\<lparr>clm_status := st\<rparr>)"
    and lk: "\<And>k. unat (locked (acct u k)) + obligation P k c
                   = unat (locked (acct s k)) + obligation P k (c\<lparr>clm_status := st\<rparr>)"
    and keys: "\<forall>k \<in> fst ` set (bonds u). valid_bond_key k"
  shows "snapshot_ok P auth (put_claim P i (c\<lparr>clm_status := st\<rparr>) u)"
proof -
  let ?c = "c\<lparr>clm_status := st\<rparr>"
  let ?t = "put_claim P i ?c u"
  have wfc: "bt_wf (claims s)" using wf by (simp add: maps_wf_def)
  have g: "bt_get (claims s) (hex P i) = Some c" using c by (simp add: get_claim_def)
  have pol: "get_policy P ?t = get_policy P s" using fr by (auto simp: get_policy_def)
  have stat: "claim_static P auth ?t k x = claim_static P auth s k x" for k x
    using fr by (simp add: claim_static_def pol)
  have "policies_ok P ?t" "executions_ok P ?t"
    using ok fr pol by (simp_all add: snapshot_ok_def policies_ok_def executions_ok_def)
  moreover have "claims_ok P auth ?t"
    unfolding claims_ok_def put_claim_frame(6)
  proof (rule bt_all_insertI)
    show "claim_static P auth ?t (hex P i) ?c \<and> status_ok ?c"
      using get_claim_static(1)[OF ok c] st by (simp add: stat)
    show "\<forall>(k, v) \<in> set (claims u). claim_static P auth ?t k v \<and> status_ok v"
      using ok fr by (simp add: stat snapshot_ok_def claims_ok_def)
  qed (simp add: fr wfc)
  moreover have "jobs_ok P ?t"
  proof -
    have m: "map g (claims ?t) = map g (claims s)" if "g (hex P i, ?c) = g (hex P i, c)" for g
      using map_insert_old[OF wfc g, of g ?c] that fr by simp
    let ?g = "\<lambda>e. (claim_job P (snd e), claim_pid P (snd e))"
    have "map ?g (claims ?t) = map ?g (claims s)"
      by (rule m) simp
    from arg_cong[OF this, of set] have img: "?g ` set (claims ?t) = ?g ` set (claims s)"
      by (simp only: list.set_map)
    have "(\<exists>x \<in> snd ` set (claims ?t). claim_job P x = j \<and> claim_pid P x = d)
            \<longleftrightarrow> (\<exists>x \<in> snd ` set (claims s). claim_job P x = j \<and> claim_pid P x = d)" for j d
      using img by (simp only: indexed_iff)
    moreover have "map (claim_job P \<circ> snd) (claims ?t) = map (claim_job P \<circ> snd) (claims s)"
      by (rule m) simp
    ultimately show ?thesis using ok fr by (simp add: snapshot_ok_def jobs_ok_def del: put_claim_frame(6))
  qed
  moreover have "escrow_ok P ?t"
  proof -
    have "bt_sum (\<lambda>_. obligation P k) (claims ?t) = unat (locked (acct ?t k))" for k
    proof -
      have "bt_sum (\<lambda>_. obligation P k) (claims s) = unat (locked (acct s k))"
        using ok by (simp add: snapshot_ok_def escrow_ok_def)
      then show ?thesis
        using bt_sum_insert_old[OF wfc g, of "\<lambda>_. obligation P k" ?c] lk[of k] fr by simp
    qed
    then show ?thesis using keys by (simp add: escrow_ok_def)
  qed
  ultimately show ?thesis by (simp add: snapshot_ok_def)
qed

section \<open>Each handler keeps the snapshot valid\<close>

lemma challenged_start:
  assumes "checked_add now w = Some rd"
  shows "checked_sub rd w = Some now"
  using assms unat_checked_add[OF assms]
  by (auto simp: checked_add_Some checked_sub_Some word_le_nat_alt)

lemma snapshot_keys: "snapshot_ok P auth s \<Longrightarrow> \<forall>k \<in> fst ` set (bonds s). valid_bond_key k"
  by (simp add: snapshot_ok_def escrow_ok_def)

lemma challenge_snapshot:
  assumes "challenge_claim P auth r now s = Inr t" and ok: "snapshot_ok P auth s" and wf: "maps_wf s"
  shows "snapshot_ok P auth t"
  using assms(1)
proof (cases rule: challenge_ok)
  case (1 d c rd u)
  have "chal_challenger r \<noteq> pol_proposer (clm_policy c)" by (rule 1(7))
  then have st: "status_ok (c\<lparr>clm_status := Challenged (chal_challenger r) rd\<rparr>)"
    using 1(5,6) challenged_start[OF 1(8)] by (simp add: status_ok_def)
  have lk: "unat (locked (acct u k)) + obligation P k c = unat (locked (acct s k))
      + obligation P k (c\<lparr>clm_status := Challenged (chal_challenger r) rd\<rparr>)" for k
    using lock_locked[OF 1(9), of k] 1(4) by (simp add: obligation_def challenger_share_def)
  have keys: "\<forall>k \<in> fst ` set (bonds u). valid_bond_key k"
    using lock_keys[OF 1(9) get_claim_bonds(2)[OF ok 1(3)]] snapshot_keys[OF ok] by simp
  show ?thesis
    unfolding 1(10)
    by (rule snapshot_status_change[OF ok wf 1(3) bond_frame(3)[OF 1(9)] st lk keys])
qed

lemma resolve_snapshot:
  assumes hex: "hex_ok P" and ok: "snapshot_ok P auth s" and wf: "maps_wf s"
    and c: "get_claim P s i = Some c" and ch: "clm_status c = Challenged ch rd"
    and r: "resolve_bonds P (clm_policy c) ch False s = Inr u"
  shows "snapshot_ok P auth (put_claim P i (c\<lparr>clm_status := Rejected ch e\<rparr>) u)"
proof (rule snapshot_status_change[OF ok wf c resolve_frame[OF r]])
  let ?p = "clm_policy c"
  obtain v where v: "award P (pol_bond_asset ?p) (pol_proposer ?p) ch (pol_proposer_bond ?p) s = Inr v"
    and u: "award P (pol_bond_asset ?p) ch ch (pol_challenger_bond ?p) v = Inr u"
    using r by (auto simp: resolve_bonds_ok)
  note bonds = get_claim_bonds[OF ok c]
  show "unat (locked (acct u k)) + obligation P k c
          = unat (locked (acct s k)) + obligation P k (c\<lparr>clm_status := Rejected ch e\<rparr>)" for k
    using award_locked[OF v, of k] award_locked[OF u, of k]
    by (simp add: obligation_def ch proposer_share_def challenger_share_def split: if_splits)
  show "\<forall>k \<in> fst ` set (bonds u). valid_bond_key k"
    by (rule award_keys[OF u hex bonds(2) award_keys[OF v hex bonds(1) snapshot_keys[OF ok]]])
qed (simp add: status_ok_def)

lemma answer_snapshot:
  assumes "answer P i pf v now s = Inr t" and hex: "hex_ok P" and ok: "snapshot_ok P auth s"
    and wf: "maps_wf s"
  shows "snapshot_ok P auth t"
  using assms(1)
proof (cases rule: answer_ok)
  case (defended c ch rd u)
  have lk: "unat (locked (acct u k)) + obligation P k c = unat (locked (acct s k))
      + obligation P k (c\<lparr>clm_status := Proven (sha256 P pf)\<rparr>)" for k
    using award_locked[OF defended(7), of k] defended(2)
    by (simp add: obligation_def challenger_share_def split: if_splits)
  have keys: "\<forall>k \<in> fst ` set (bonds u). valid_bond_key k"
    by (rule award_keys[OF defended(7) hex get_claim_bonds(2)[OF ok defended(1)] snapshot_keys[OF ok]])
  show ?thesis
    unfolding defended(8)
    by (rule snapshot_status_change[OF ok wf defended(1) bond_frame(4)[OF defended(7)] _ lk keys])
      (simp add: status_ok_def)
next
  case (refuted c ch rd res u)
  from resolve_snapshot[OF hex ok wf refuted(1,2,8)] show ?thesis by (simp add: refuted(9))
qed

lemma advance_snapshot:
  assumes "advance P i now s = Inr t" and hex: "hex_ok P" and ok: "snapshot_ok P auth s"
    and wf: "maps_wf s"
  shows "snapshot_ok P auth t"
  using assms(1)
proof (cases rule: advance_ok)
  case (released c evidence u)
  have lk: "unat (locked (acct u k)) + obligation P k c = unat (locked (acct s k))
      + obligation P k (c\<lparr>clm_status := Finalized evidence\<rparr>)" for k
    using award_locked[OF released(4), of k] released(3)
    by (auto simp: obligation_def proposer_share_def split: if_splits)
  have keys: "\<forall>k \<in> fst ` set (bonds u). valid_bond_key k"
    by (rule award_keys[OF released(4) hex get_claim_bonds(1)[OF ok released(1)] snapshot_keys[OF ok]])
  show ?thesis
    unfolding released(5)
    by (rule snapshot_status_change[OF ok wf released(1) bond_frame(4)[OF released(4)] _ lk keys])
      (simp add: status_ok_def)
next
  case (unanswered c ch rd u)
  from resolve_snapshot[OF hex ok wf unanswered(1,2,4)] show ?thesis by (simp add: unanswered(5))
qed

text \<open>Escrow deposits and withdrawals move only the available part.\<close>

lemma snapshot_bonds_change:
  assumes ok: "snapshot_ok P auth s"
    and fr: "policies t = policies s \<and> executions t = executions s \<and> claims t = claims s
             \<and> jobs t = jobs s"
    and lk: "\<And>k. locked (acct t k) = locked (acct s k)"
    and keys: "\<forall>k \<in> fst ` set (bonds t). valid_bond_key k"
  shows "snapshot_ok P auth t"
proof -
  have pol: "get_policy P t = get_policy P s" using fr by (auto simp: get_policy_def)
  have stat: "claim_static P auth t k x = claim_static P auth s k x" for k x
    using fr by (simp add: claim_static_def pol)
  show ?thesis
    using ok fr lk keys
    by (simp add: snapshot_ok_def policies_ok_def executions_ok_def claims_ok_def jobs_ok_def
        escrow_ok_def pol stat)
qed

lemma credit_snapshot:
  assumes "credit_escrow P asset owner amount s = Inr t" and hex: "hex_ok P"
    and ok: "snapshot_ok P auth s"
  shows "snapshot_ok P auth t"
proof (rule snapshot_bonds_change[OF ok bond_frame(1)[OF assms(1)]])
  show "locked (acct t k) = locked (acct s k)" for k
    using assms(1) by (auto simp: credit_escrow_ok bond_acct)
  show "\<forall>k \<in> fst ` set (bonds t). valid_bond_key k"
    using assms(1) snapshot_keys[OF ok] valid_bond_key_bond_key[OF hex]
    by (auto simp: credit_escrow_ok keys_put_bond)
qed

lemma withdraw_snapshot:
  assumes "withdraw_escrow P asset owner amount s = Inr t" and ok: "snapshot_ok P auth s"
  shows "snapshot_ok P auth t"
proof (rule snapshot_bonds_change[OF ok bond_frame(2)[OF assms(1)]])
  let ?k = "bond_key P asset owner"
  show "locked (acct t k) = locked (acct s k)" for k
    using assms(1) by (auto simp: withdraw_escrow_ok bond_acct)
  have "amount \<noteq> 0" "amount \<le> available (acct s ?k)"
    using assms(1) by (auto simp: withdraw_escrow_ok bond_acct)
  then have "acct s ?k \<noteq> bond_default" by (auto simp: word_le_nat_alt unat_eq_0)
  then show "\<forall>k \<in> fst ` set (bonds t). valid_bond_key k"
    using held_key_present[of s ?k] assms(1) snapshot_keys[OF ok]
    by (auto simp: withdraw_escrow_ok keys_put_bond)
qed

text \<open>New policies and executions only extend the indexes.\<close>

lemma enroll_snapshot:
  assumes "enroll_policy P p s = Inr r" and ok: "snapshot_ok P auth s" and wf: "maps_wf s"
  shows "snapshot_ok P auth (snd r)"
proof -
  obtain i where i: "policy_digest P p = Inr i" "bt_get (policies s) (hex P i) = None"
    and r: "snd r = s\<lparr>policies := bt_insert (hex P i) p (policies s)\<rparr>"
    using assms(1) by (auto simp: enroll_policy_def result_simps bt_contains_def)
  let ?t = "snd r"
  have fr: "executions ?t = executions s" "claims ?t = claims s" "jobs ?t = jobs s"
    "bonds ?t = bonds s" "acct ?t = acct s"
    by (auto simp: r acct_def)
  have new: "policies ?t = bt_insert (hex P i) p (policies s)" by (simp add: r)
  have mono: "get_policy P ?t j = Some q" if "get_policy P s j = Some q" for j q
    using bt.put_absent_preserves[OF i(2)] that by (simp add: get_policy_def r)
  have "policies_ok P ?t"
    unfolding policies_ok_def new
    by (rule bt_all_insertI) (use ok wf i in \<open>auto simp: snapshot_ok_def policies_ok_def maps_wf_def\<close>)
  moreover have "executions_ok P ?t"
    using ok mono unfolding snapshot_ok_def executions_ok_def fr by (fastforce simp: fr)
  moreover have "claims_ok P auth ?t"
    using ok claim_static_mono[of P auth s _ _ ?t] mono
    unfolding snapshot_ok_def claims_ok_def fr by (fastforce simp: fr)
  ultimately show ?thesis
    using ok by (simp add: snapshot_ok_def jobs_ok_def escrow_ok_def fr)
qed

lemma register_snapshot:
  assumes "register_execution P e s = Inr t" and ok: "snapshot_ok P auth s" and wf: "maps_wf s"
  shows "snapshot_ok P auth t"
proof -
  obtain p i where i: "get_policy P s (exe_policy e) = Some p" "\<not> execution_mismatch e p"
      "job_key P (exe_context e) = Inr i" "bt_get (executions s) i = None"
    and t: "t = s\<lparr>executions := bt_insert i e (executions s)\<rparr>"
    using assms(1) by (auto simp: register_execution_def result_simps bt_contains_def)
  have fr: "policies t = policies s" "claims t = claims s" "jobs t = jobs s"
    "bonds t = bonds s" "acct t = acct s" "get_policy P t = get_policy P s"
    by (auto simp: t acct_def get_policy_def)
  have new: "executions t = bt_insert i e (executions s)" by (simp add: t)
  have mono: "bt_get (executions t) j = Some x" if "bt_get (executions s) j = Some x" for j x
    using bt.put_absent_preserves[OF i(4) that, of e] by (simp add: t)
  have "executions_ok P t"
    unfolding executions_ok_def fr(6) new
    by (rule bt_all_insertI) (use ok wf i in \<open>auto simp: snapshot_ok_def executions_ok_def maps_wf_def\<close>)
  moreover have "claims_ok P auth t"
    using ok claim_static_mono[of P auth s _ _ t] mono
    unfolding snapshot_ok_def claims_ok_def fr by (fastforce simp: fr)
  ultimately show ?thesis
    using ok by (simp add: snapshot_ok_def policies_ok_def jobs_ok_def escrow_ok_def fr)
qed

lemma past_execution_deadline:
  assumes "\<not> past_execution now p limit" and "checked_add now (pol_challenge_window p) = Some dl"
  shows "\<exists>d. checked_add dl (pol_response_window p) = Some d \<and> d \<le> limit"
  using assms by (auto simp: past_execution_def not_less split: option.splits)

lemma propose_snapshot:
  assumes "propose P auth q now s = Inr r" and hex: "hex_ok P" and ok: "snapshot_ok P auth s"
    and wf: "maps_wf s"
  shows "snapshot_ok P auth (snd r)"
  using assms(1)
proof (cases rule: propose_ok)
  case (1 i p job e dl u)
  let ?c = "\<lparr>clm_proposal = q, clm_policy = p, clm_accepted_at = now, clm_challenge_deadline = dl,
              clm_status = Pending\<rparr>"
  let ?t = "snd r"
  have wfc: "bt_wf (claims s)" using wf by (simp add: maps_wf_def)
  have fr: "policies ?t = policies s" "executions ?t = executions s"
      "claims ?t = bt_insert (hex P i) ?c (claims s)" "jobs ?t = bt_insert job i (jobs s)"
      "acct ?t = acct u" "bonds ?t = bonds u"
    using bond_frame(3)[OF 1(13)] by (auto simp: 1(14) acct_def put_claim_def)
  have ids: "claim_job P ?c = job" "claim_pid P ?c = i"
    using 1(3,4) by (simp_all add: claim_job_def claim_pid_def)
  have pol: "get_policy P ?t = get_policy P s" by (auto simp: get_policy_def fr)
  have stat: "claim_static P auth ?t k x = claim_static P auth s k x" for k x
    by (simp add: claim_static_def pol fr)
  have "\<not> claim_exceeds e ?c p"
    using past_execution_deadline[OF 1(9,12)] 1(6-8) by (auto simp: claim_exceeds_def not_less)
  then have new: "claim_static P auth s (hex P i) ?c"
    using 1(1-5,12) by (simp add: claim_static_def ids)
  have "policies_ok P ?t" "executions_ok P ?t"
    using ok by (simp_all add: snapshot_ok_def policies_ok_def executions_ok_def fr pol)
  moreover have "claims_ok P auth ?t"
    unfolding claims_ok_def fr(3) stat
    by (rule bt_all_insertI[OF wfc])
      (use ok new in \<open>auto simp: snapshot_ok_def claims_ok_def status_ok_def\<close>)
  moreover have "jobs_ok P ?t"
  proof -
    have old: "distinct (map (claim_job P \<circ> snd) (claims s))"
      and js: "\<And>j d. bt_get (jobs s) j = Some d \<longleftrightarrow>
        (\<exists>x \<in> set (claims s). claim_job P (snd x) = j \<and> claim_pid P (snd x) = d)"
      using ok by (simp_all add: snapshot_ok_def jobs_ok_def)
    have nj: "claim_job P (snd x) \<noteq> job" if "x \<in> set (claims s)" for x
      using that 1(11) js by force
    have "distinct (map (claim_job P \<circ> snd) (claims ?t))"
      using old nj unfolding fr(3) distinct_map_insert_new[OF 1(10)] by (auto simp: ids)
    moreover have "bt_get (jobs ?t) j = Some d \<longleftrightarrow>
        (\<exists>x \<in> set (claims ?t). claim_job P (snd x) = j \<and> claim_pid P (snd x) = d)" for j d
      using js nj unfolding fr(3,4) set_bt_insert_new[OF 1(10)] by (auto simp: ids)
    ultimately show ?thesis by (simp add: jobs_ok_def)
  qed
  moreover have "escrow_ok P ?t"
  proof -
    have "bt_sum (\<lambda>_. obligation P k) (claims ?t) = unat (locked (acct ?t k))" for k
    proof -
      have "obligation P k ?c = (if k = bond_key P (pol_bond_asset p) (pol_proposer p)
              then unat (pol_proposer_bond p) else 0)"
        by (simp add: obligation_def proposer_share_def)
      then show ?thesis
        using bt_sum_insert_new[OF 1(10), of "\<lambda>_. obligation P k" ?c] lock_locked[OF 1(13), of k] ok
        by (simp add: fr snapshot_ok_def escrow_ok_def)
    qed
    moreover have "pol_proposer_bond p \<noteq> 0"
      using policy_bonds_positive(1)[OF 1(2)] by (simp add: unat_pos_iff)
    ultimately show ?thesis
      using lock_keys[OF 1(13)] snapshot_keys[OF ok] by (simp add: escrow_ok_def fr)
  qed
  ultimately show ?thesis by (simp add: snapshot_ok_def)
qed

section \<open>The ledger machine\<close>

definition ledger_inv :: "opt_prims \<Rightarrow> claim_authentication \<Rightarrow> opt_state \<Rightarrow> bool" where
  "ledger_inv P auth s \<longleftrightarrow> hex_ok P \<and> maps_wf s \<and> snapshot_ok P auth s"

definition op_job :: "opt_prims \<Rightarrow> opt_op \<Rightarrow> string option" where
  "op_job P x =
     (case x of
        Propose q now \<Rightarrow> (case job_key P (prop_context q) of Inl _ \<Rightarrow> None | Inr k \<Rightarrow> Some k)
      | _ \<Rightarrow> None)"

lemma exec_maps_wf:
  assumes "opt_exec P auth x s = Inr t" and "maps_wf s"
  shows "maps_wf t"
proof -
  have b: "bt_wf (bonds t)"
    using exec_bonds_wf[OF assms(1)] assms(2) by (simp add: maps_wf_def)
  have "bt_wf (policies t) \<and> bt_wf (executions t) \<and> bt_wf (claims t) \<and> bt_wf (jobs t)"
  proof (cases x)
    case (Enroll p)
    then show ?thesis using assms by (auto simp: enroll_policy_def result_simps maps_wf_def)
  next
    case (Register e)
    then show ?thesis using assms by (auto simp: register_execution_def result_simps maps_wf_def)
  next
    case (Credit asset owner amount)
    then have "credit_escrow P asset owner amount s = Inr t" using assms(1) by simp
    from bond_frame(1)[OF this] assms(2) show ?thesis by (simp add: maps_wf_def)
  next
    case (Withdraw asset owner amount)
    then have "withdraw_escrow P asset owner amount s = Inr t" using assms(1) by simp
    from bond_frame(2)[OF this] assms(2) show ?thesis by (simp add: maps_wf_def)
  next
    case (Propose q now)
    then obtain r where r: "propose P auth q now s = Inr r" "t = snd r"
      using assms(1) by (auto simp: result_simps)
    from r(1) show ?thesis
    proof (cases rule: propose_ok)
      case (1 i p job e dl u)
      from bond_frame(3)[OF 1(13)] assms(2) show ?thesis by (simp add: 1(14) r(2) maps_wf_def)
    qed
  next
    case (Dispute r now)
    then have "challenge_claim P auth r now s = Inr t" using assms(1) by simp
    then show ?thesis
    proof (cases rule: challenge_ok)
      case (1 d c rd u)
      from bond_frame(3)[OF 1(9)] assms(2) show ?thesis by (simp add: 1(10) maps_wf_def)
    qed
  next
    case (Answer i pf v now)
    then have "answer P i pf v now s = Inr t" using assms(1) by simp
    then show ?thesis
    proof (cases rule: answer_ok)
      case (defended c ch rd u)
      from bond_frame(4)[OF defended(7)] assms(2) show ?thesis by (simp add: defended(8) maps_wf_def)
    next
      case (refuted c ch rd res u)
      from resolve_frame[OF refuted(8)] assms(2) show ?thesis by (simp add: refuted(9) maps_wf_def)
    qed
  next
    case (Advance i now)
    then have "advance P i now s = Inr t" using assms(1) by simp
    then show ?thesis
    proof (cases rule: advance_ok)
      case (released c evidence u)
      from bond_frame(4)[OF released(4)] assms(2) show ?thesis by (simp add: released(5) maps_wf_def)
    next
      case (unanswered c ch rd u)
      from resolve_frame[OF unanswered(4)] assms(2) show ?thesis by (simp add: unanswered(5) maps_wf_def)
    qed
  qed
  with b show ?thesis by (simp add: maps_wf_def)
qed

lemma exec_snapshot:
  assumes ex: "opt_exec P auth x s = Inr t" and hex: "hex_ok P" and ok: "snapshot_ok P auth s"
    and wf: "maps_wf s"
  shows "snapshot_ok P auth t"
proof (cases x)
  case (Enroll p)
  with ex obtain r where "enroll_policy P p s = Inr r" "t = snd r" by (auto simp: result_simps)
  with enroll_snapshot[OF _ ok wf] show ?thesis by simp
next
  case (Register e)
  with ex register_snapshot[OF _ ok wf] show ?thesis by simp
next
  case (Credit asset owner amount)
  with ex credit_snapshot[OF _ hex ok] show ?thesis by simp
next
  case (Withdraw asset owner amount)
  with ex withdraw_snapshot[OF _ ok] show ?thesis by simp
next
  case (Propose q now)
  with ex obtain r where "propose P auth q now s = Inr r" "t = snd r" by (auto simp: result_simps)
  with propose_snapshot[OF _ hex ok wf] show ?thesis by simp
next
  case (Dispute r now)
  with ex challenge_snapshot[OF _ ok wf] show ?thesis by simp
next
  case (Answer i pf v now)
  with ex answer_snapshot[OF _ hex ok wf] show ?thesis by simp
next
  case (Advance i now)
  with ex advance_snapshot[OF _ hex ok wf] show ?thesis by simp
qed

end
