(* ===== verification/Optimistic_Claims.thy ===== *)
theory Optimistic_Claims
  imports Optimistic_Safety
begin

text \<open>
  What the optimistic ledger promises its users, over every sequence of requests: the state always
  validates, collateral is conserved, a job gets one claim, a claim only moves along the life
  cycle \<open>status_step\<close>, nobody loses collateral without a withdrawal, a verified contradiction, a
  verified defence or a missed response deadline, and a claim past its deadline can be advanced.
\<close>

section \<open>The ledger machine\<close>

definition claimed_jobs :: "opt_state \<Rightarrow> string set" where
  "claimed_jobs s = {k. bt_get (jobs s) k \<noteq> None}"

lemma exec_jobs:
  assumes "opt_exec P auth x s = Inr t"
  shows "(case op_job P x of
            None \<Rightarrow> jobs t = jobs s
          | Some k \<Rightarrow> bt_get (jobs s) k = None \<and> (\<exists>i. jobs t = bt_insert k i (jobs s)))"
proof (cases x)
  case (Enroll p)
  then show ?thesis using assms by (auto simp: op_job_def enroll_policy_def result_simps)
next
  case (Register e)
  then show ?thesis using assms by (auto simp: op_job_def register_execution_def result_simps)
next
  case (Credit asset owner amount)
  then have "credit_escrow P asset owner amount s = Inr t" using assms(1) by simp
  from bond_frame(1)[OF this] Credit show ?thesis by (simp add: op_job_def)
next
  case (Withdraw asset owner amount)
  then have "withdraw_escrow P asset owner amount s = Inr t" using assms(1) by simp
  from bond_frame(2)[OF this] Withdraw show ?thesis by (simp add: op_job_def)
next
  case (Propose q now)
  then obtain r where r: "propose P auth q now s = Inr r" "t = snd r"
    using assms(1) by (auto simp: result_simps)
  from r(1) show ?thesis
  proof (cases rule: propose_ok)
    case (1 i p job e dl u)
    then show ?thesis using Propose r(2) by (auto simp: op_job_def)
  qed
next
  case (Dispute r now)
  then have "challenge_claim P auth r now s = Inr t" using assms(1) by simp
  then show ?thesis
  proof (cases rule: challenge_ok)
    case (1 d c rd u)
    from bond_frame(3)[OF 1(9)] show ?thesis by (simp add: 1(10) op_job_def Dispute)
  qed
next
  case (Answer i pf v now)
  then have "answer P i pf v now s = Inr t" using assms(1) by simp
  then show ?thesis
  proof (cases rule: answer_ok)
    case (defended c ch rd u)
    from bond_frame(4)[OF defended(7)] show ?thesis by (simp add: defended(8) op_job_def Answer)
  next
    case (refuted c ch rd res u)
    from resolve_frame[OF refuted(8)] show ?thesis by (simp add: refuted(9) op_job_def Answer)
  qed
next
  case (Advance i now)
  then have "advance P i now s = Inr t" using assms(1) by simp
  then show ?thesis
  proof (cases rule: advance_ok)
    case (released c evidence u)
    from bond_frame(4)[OF released(4)] show ?thesis by (simp add: released(5) op_job_def Advance)
  next
    case (unanswered c ch rd u)
    from resolve_frame[OF unanswered(4)] show ?thesis by (simp add: unanswered(5) op_job_def Advance)
  qed
qed

interpretation ledger: once_machine "opt_exec P auth" "ledger_inv P auth" "op_job P" claimed_jobs
  for P auth
proof unfold_locales
  show "ledger_inv P auth t" if "ledger_inv P auth s" "opt_exec P auth x s = Inr t" for s x t
    using that exec_snapshot[OF that(2)] exec_maps_wf[OF that(2)] by (simp add: ledger_inv_def)
  show "k \<notin> claimed_jobs s \<and> k \<in> claimed_jobs t"
    if "ledger_inv P auth s" "opt_exec P auth x s = Inr t" "op_job P x = Some k" for s x t k
    using exec_jobs[OF that(2)] that(3) by (auto simp: claimed_jobs_def)
  show "claimed_jobs s \<subseteq> claimed_jobs t" if "ledger_inv P auth s" "opt_exec P auth x s = Inr t" for s x t
    using exec_jobs[OF that(2)] by (auto simp: claimed_jobs_def split: option.splits)
qed

lemma empty_ledger_inv: "hex_ok P \<Longrightarrow> ledger_inv P auth empty_state"
  by (simp add: ledger_inv_def maps_wf_def empty_state_def snapshot_ok_def policies_ok_def
      executions_ok_def claims_ok_def jobs_ok_def escrow_ok_def acct_def)

lemma run_ledger_inv:
  "hex_ok P \<Longrightarrow> ledger_inv P auth (run_ops (opt_exec P auth) xs empty_state)"
  by (rule ledger.run_inv[OF empty_ledger_inv])

section \<open>The life cycle of a claim\<close>

text \<open>
  \<open>status_step P x c st\<close>: request \<open>x\<close> moves claim \<open>c\<close> to status \<open>st\<close>. The specification of
  the claim automaton, without the accounts.
\<close>

inductive status_step :: "opt_prims \<Rightarrow> opt_op \<Rightarrow> claim \<Rightarrow> claim_status \<Rightarrow> bool" for P where
  dispute: "clm_status c = Pending \<Longrightarrow> clm_accepted_at c \<le> now \<Longrightarrow> now < clm_challenge_deadline c \<Longrightarrow>
    chal_challenger r \<noteq> pol_proposer (clm_policy c) \<Longrightarrow>
    checked_add now (pol_response_window (clm_policy c)) = Some rd \<Longrightarrow>
    status_step P (Dispute r now) c (Challenged (chal_challenger r) rd)"
| defend: "clm_status c = Challenged ch rd \<Longrightarrow> now < rd \<Longrightarrow>
    verifier_id v = pol_verifier (clm_policy c) \<Longrightarrow>
    verifier_verify v (prop_context (clm_proposal c)) pf = Inr (prop_output_root (clm_proposal c)) \<Longrightarrow>
    status_step P (Answer i pf v now) c (Proven (sha256 P pf))"
| refute: "clm_status c = Challenged ch rd \<Longrightarrow> now < rd \<Longrightarrow>
    verifier_id v = pol_verifier (clm_policy c) \<Longrightarrow>
    verifier_verify v (prop_context (clm_proposal c)) pf = Inr res \<Longrightarrow>
    res \<noteq> prop_output_root (clm_proposal c) \<Longrightarrow>
    status_step P (Answer i pf v now) c (Rejected ch (Some (sha256 P pf)))"
| finalize: "clm_status c = Pending \<Longrightarrow> clm_challenge_deadline c \<le> now \<Longrightarrow>
    status_step P (Advance i now) c (Finalized None)"
| finalize_proven: "clm_status c = Proven pr \<Longrightarrow> clm_challenge_deadline c \<le> now \<Longrightarrow>
    status_step P (Advance i now) c (Finalized (Some pr))"
| expire: "clm_status c = Challenged ch rd \<Longrightarrow> rd \<le> now \<Longrightarrow>
    status_step P (Advance i now) c (Rejected ch None)"

inductive_cases status_step_finalized: "status_step P x c (Finalized e)"
inductive_cases status_step_rejected: "status_step P x c (Rejected ch e)"

definition claim_evolves :: "opt_prims \<Rightarrow> opt_op \<Rightarrow> claim \<Rightarrow> claim \<Rightarrow> bool" where
  "claim_evolves P x c d \<longleftrightarrow> d = c \<or> (\<exists>st. status_step P x c st \<and> d = c\<lparr>clm_status := st\<rparr>)"

lemma get_put_claim:
  "get_claim P (put_claim P i c s) j = (if hex P j = hex P i then Some c else get_claim P s j)"
  by (simp add: get_claim_def)

lemma get_claim_frame: "claims t = claims s \<Longrightarrow> get_claim P t j = get_claim P s j"
  by (simp add: get_claim_def)

lemma put_claim_evolves:
  assumes "get_claim P s i = Some c" and "claims u = claims s" and "status_step P x c st"
    and "get_claim P s j = Some a"
  shows "\<exists>d. get_claim P (put_claim P i (c\<lparr>clm_status := st\<rparr>) u) j = Some d \<and> claim_evolves P x a d"
  using assms by (auto simp: get_put_claim get_claim_frame[OF assms(2)] claim_evolves_def get_claim_def)

lemma exec_evolves:
  assumes "opt_exec P auth x s = Inr t" and "get_claim P s j = Some a"
  shows "\<exists>d. get_claim P t j = Some d \<and> claim_evolves P x a d"
proof (cases x)
  case (Enroll p)
  then show ?thesis
    using assms by (auto simp: enroll_policy_def result_simps claim_evolves_def get_claim_def)
next
  case (Register e)
  then show ?thesis
    using assms by (auto simp: register_execution_def result_simps claim_evolves_def get_claim_def)
next
  case (Credit asset owner amount)
  then have "credit_escrow P asset owner amount s = Inr t" using assms(1) by simp
  from bond_frame(1)[OF this] assms(2) show ?thesis by (simp add: get_claim_def claim_evolves_def)
next
  case (Withdraw asset owner amount)
  then have "withdraw_escrow P asset owner amount s = Inr t" using assms(1) by simp
  from bond_frame(2)[OF this] assms(2) show ?thesis by (simp add: get_claim_def claim_evolves_def)
next
  case (Propose q now)
  then obtain r where r: "propose P auth q now s = Inr r" "t = snd r"
    using assms(1) by (auto simp: result_simps)
  from r(1) show ?thesis
  proof (cases rule: propose_ok)
    case (1 i p job e dl u)
    have "hex P j \<noteq> hex P i" using 1(10) assms(2) by (auto simp: get_claim_def)
    with bond_frame(3)[OF 1(13)] assms(2) show ?thesis
      by (simp add: 1(14) r(2) get_claim_def claim_evolves_def)
  qed
next
  case (Dispute r now)
  then have "challenge_claim P auth r now s = Inr t" using assms(1) by simp
  then show ?thesis
  proof (cases rule: challenge_ok)
    case (1 d c rd u)
    show ?thesis
      unfolding 1(10) Dispute
      by (rule put_claim_evolves[OF 1(3) _ _ assms(2)])
        (simp_all add: bond_frame(3)[OF 1(9)] status_step.dispute[OF 1(4-8)])
  qed
next
  case (Answer i pf v now)
  then have "answer P i pf v now s = Inr t" using assms(1) by simp
  then show ?thesis
  proof (cases rule: answer_ok)
    case (defended c ch rd u)
    show ?thesis
      unfolding defended(8) Answer
      by (rule put_claim_evolves[OF defended(1) _ _ assms(2)])
        (simp_all add: bond_frame(4)[OF defended(7)] status_step.defend[OF defended(2,4-6)])
  next
    case (refuted c ch rd res u)
    show ?thesis
      unfolding refuted(9) Answer
      by (rule put_claim_evolves[OF refuted(1) _ _ assms(2)])
        (simp_all add: resolve_frame[OF refuted(8)] status_step.refute[OF refuted(2,4-7)])
  qed
next
  case (Advance i now)
  then have "advance P i now s = Inr t" using assms(1) by simp
  then show ?thesis
  proof (cases rule: advance_ok)
    case (released c evidence u)
    have "status_step P (Advance i now) c (Finalized evidence)"
      using released(2,3) by (auto intro: status_step.finalize status_step.finalize_proven)
    then show ?thesis
      unfolding released(5) Advance
      by (rule put_claim_evolves[OF released(1) _ _ assms(2), rotated])
        (simp add: bond_frame(4)[OF released(4)])
  next
    case (unanswered c ch rd u)
    show ?thesis
      unfolding unanswered(5) Advance
      by (rule put_claim_evolves[OF unanswered(1) _ _ assms(2)])
        (simp_all add: resolve_frame[OF unanswered(4)] status_step.expire[OF unanswered(2,3)])
  qed
qed

section \<open>Who loses collateral\<close>

lemma bond_key_eq:
  assumes "hex_ok P"
  shows "bond_key P a p = bond_key P b q \<longleftrightarrow> a = b \<and> p = q"
  using assms by (auto simp: hex_ok_def bond_key_def inj_eq)

lemma award_worth:
  assumes "award P asset source target amount s = Inr t"
  shows "worth (acct t k) + (if k = bond_key P asset source then unat amount else 0)
           = worth (acct s k) + (if k = bond_key P asset target then unat amount else 0)"
  using assms
  by (auto simp: award_ok credit_escrow_ok bond_acct worth_def unat_sub word_le_nat_alt
      unat_word_ariths)

lemma lock_worth: "lock_bond P asset owner amount s = Inr t \<Longrightarrow> worth (acct t k) = worth (acct s k)"
  by (auto simp: lock_bond_ok bond_acct worth_lock)

lemma credit_worth:
  assumes "credit_escrow P asset owner amount s = Inr t"
  shows "worth (acct t k) = worth (acct s k) + (if k = bond_key P asset owner then unat amount else 0)"
  using assms by (auto simp: credit_escrow_ok bond_acct worth_def unat_word_ariths)

text \<open>Resolving a dispute against the proposer moves exactly the proposer's bond.\<close>

lemma resolve_worth:
  assumes "resolve_bonds P p ch False s = Inr t"
  shows "worth (acct t k)
             + (if k = bond_key P (pol_bond_asset p) (pol_proposer p)
                then unat (pol_proposer_bond p) else 0)
           = worth (acct s k)
             + (if k = bond_key P (pol_bond_asset p) ch then unat (pol_proposer_bond p) else 0)"
proof -
  from assms obtain u where
    "award P (pol_bond_asset p) (pol_proposer p) ch (pol_proposer_bond p) s = Inr u"
    "award P (pol_bond_asset p) ch ch (pol_challenger_bond p) u = Inr t"
    by (auto simp: resolve_bonds_ok)
  from award_worth[OF this(1), of k] award_worth[OF this(2), of k] show ?thesis by simp
qed

text \<open>The three reasons for which an account may shrink.\<close>

definition loss_cause :: "opt_prims \<Rightarrow> opt_state \<Rightarrow> opt_op \<Rightarrow> id32 \<Rightarrow> id32 \<Rightarrow> bool" where
  "loss_cause P s x asset owner \<longleftrightarrow>
     (case x of
        Withdraw a w _ \<Rightarrow> a = asset \<and> w = owner
      | Answer i pf v now \<Rightarrow>
          (\<exists>c ch rd res. get_claim P s i = Some c \<and> clm_status c = Challenged ch rd \<and> now < rd
             \<and> pol_bond_asset (clm_policy c) = asset \<and> verifier_id v = pol_verifier (clm_policy c)
             \<and> verifier_verify v (prop_context (clm_proposal c)) pf = Inr res
             \<and> owner = (if res = prop_output_root (clm_proposal c) then ch
                         else pol_proposer (clm_policy c)))
      | Advance i now \<Rightarrow>
          (\<exists>c ch rd. get_claim P s i = Some c \<and> clm_status c = Challenged ch rd \<and> rd \<le> now
             \<and> pol_bond_asset (clm_policy c) = asset \<and> owner = pol_proposer (clm_policy c))
      | _ \<Rightarrow> False)"

lemma exec_loss:
  assumes hex: "hex_ok P" and ex: "opt_exec P auth x s = Inr t"
    and less: "worth (bond P t asset owner) < worth (bond P s asset owner)"
  shows "loss_cause P s x asset owner"
proof (cases x)
  case (Enroll p)
  then show ?thesis
    using ex less by (auto simp: enroll_policy_def result_simps bond_acct acct_def)
next
  case (Register e)
  then show ?thesis
    using ex less by (auto simp: register_execution_def result_simps bond_acct acct_def)
next
  case (Credit a w amount)
  then show ?thesis using credit_worth[of P a w amount s t] ex less by (simp add: bond_acct)
next
  case (Withdraw a w amount)
  then show ?thesis
    using ex less by (auto simp: withdraw_escrow_ok bond_acct loss_cause_def bond_key_eq[OF hex]
        split: if_splits)
next
  case (Propose q now)
  then obtain r where r: "propose P auth q now s = Inr r" "t = snd r"
    using ex by (auto simp: result_simps)
  from r(1) show ?thesis
  proof (cases rule: propose_ok)
    case (1 i p job e dl u)
    have "acct t = acct u" by (auto simp: 1(14) r(2) acct_def put_claim_def)
    with lock_worth[OF 1(13)] less show ?thesis by (simp add: bond_acct)
  qed
next
  case (Dispute r now)
  then have "challenge_claim P auth r now s = Inr t" using ex by simp
  then show ?thesis
  proof (cases rule: challenge_ok)
    case (1 d c rd u)
    from lock_worth[OF 1(9)] less show ?thesis by (simp add: 1(10) bond_acct)
  qed
next
  case (Answer i pf v now)
  then have "answer P i pf v now s = Inr t" using ex by simp
  then show ?thesis
  proof (cases rule: answer_ok)
    case (defended c ch rd u)
    have "asset = pol_bond_asset (clm_policy c) \<and> owner = ch"
      using award_worth[OF defended(7), of "bond_key P asset owner"] less
      by (simp add: defended(8) bond_acct bond_key_eq[OF hex] split: if_splits)
    with defended Answer show ?thesis by (simp add: loss_cause_def)
  next
    case (refuted c ch rd res u)
    have "asset = pol_bond_asset (clm_policy c) \<and> owner = pol_proposer (clm_policy c)"
      using resolve_worth[OF refuted(8), of "bond_key P asset owner"] less
      by (simp add: refuted(9) bond_acct bond_key_eq[OF hex] split: if_splits)
    with refuted Answer show ?thesis by (simp add: loss_cause_def)
  qed
next
  case (Advance i now)
  then have "advance P i now s = Inr t" using ex by simp
  then show ?thesis
  proof (cases rule: advance_ok)
    case (released c evidence u)
    from award_worth[OF released(4), of "bond_key P asset owner"] less show ?thesis
      by (simp add: released(5) bond_acct)
  next
    case (unanswered c ch rd u)
    have "asset = pol_bond_asset (clm_policy c) \<and> owner = pol_proposer (clm_policy c)"
      using resolve_worth[OF unanswered(4), of "bond_key P asset owner"] less
      by (simp add: unanswered(5) bond_acct bond_key_eq[OF hex] split: if_splits)
    with unanswered Advance show ?thesis by (simp add: loss_cause_def)
  qed
qed

section \<open>Progress\<close>

definition due :: "claim \<Rightarrow> u64 \<Rightarrow> bool" where
  "due c now \<longleftrightarrow>
     (case clm_status c of
        Pending \<Rightarrow> clm_challenge_deadline c \<le> now
      | Proven _ \<Rightarrow> clm_challenge_deadline c \<le> now
      | Challenged _ rd \<Rightarrow> rd \<le> now
      | _ \<Rightarrow> False)"

fun expired_status :: "claim_status \<Rightarrow> claim_status" where
  "expired_status Pending = Finalized None"
| "expired_status (Proven pr) = Finalized (Some pr)"
| "expired_status (Challenged ch rd) = Rejected ch None"
| "expired_status st = st"

lemma award_accepted:
  assumes "hex_ok P" and "asset \<noteq> 0" "target \<noteq> 0" "amount \<noteq> 0"
    and lk: "amount \<le> locked (bond P s asset source)" and wf: "bt_wf (bonds s)"
    and tot: "escrow_total P asset s < 2 ^ 64"
  shows "\<exists>t. award P asset source target amount s = Inr t"
proof -
  let ?d = "bond P s asset source"
  let ?u = "put_bond P asset source (?d\<lparr>locked := locked ?d - amount\<rparr>) s"
  have key: "asset_key P asset (bond_key P asset w)" for w by (simp add: asset_key_bond_key[OF assms(1)])
  have "worth ?d = worth (?d\<lparr>locked := locked ?d - amount\<rparr>) + unat amount"
    using lk by (simp add: worth_def unat_sub word_le_nat_alt)
  then have "escrow_total P asset ?u + unat amount = escrow_total P asset s"
    using held_put_bond[OF wf, of "asset_key P asset" P asset source "?d\<lparr>locked := locked ?d - amount\<rparr>"]
    by (simp add: escrow_total_def key bond_acct)
  moreover have "worth (bond P ?u asset target) \<le> escrow_total P asset ?u"
    unfolding escrow_total_def bond_acct by (rule held_account_le[where Q = "asset_key P asset", OF key])
  ultimately have "unat (available (bond P ?u asset target)) + unat amount < 2 ^ 64"
    using tot by (simp add: worth_def)
  then show ?thesis using assms(2-4) lk by (simp add: award_ok credit_escrow_ok)
qed

lemma obligation_locked:
  assumes "snapshot_ok P auth s" and "get_claim P s i = Some c"
  shows "obligation P k c \<le> unat (locked (acct s k))"
  using bt_sum_member_le[OF bt_get_Some_in[OF assms(2)[unfolded get_claim_def]],
      of "\<lambda>_. obligation P k"] assms(1)
  by (simp add: snapshot_ok_def escrow_ok_def)

lemma locked_owner_nonzero:
  assumes hex: "hex_ok P" and ok: "snapshot_ok P auth s" and "locked (bond P s asset w) \<noteq> 0"
  shows "w \<noteq> 0"
proof
  assume "w = 0"
  have "acct s (bond_key P asset w) \<noteq> bond_default" using assms(3) by (auto simp: bond_acct)
  then have "valid_bond_key (bond_key P asset w)" using held_key_present snapshot_keys[OF ok] by blast
  moreover have "split_colon (bond_key P asset w) = [hex P asset, hex P w]"
    using hex hex_no_colon by (simp add: bond_key_def split_colon_append split_colon_plain hex_ok_def)
  ultimately show False using hex by (simp add: valid_bond_key_def valid_part_def hex_ok_def \<open>w = 0\<close>)
qed

lemma resolve_accepted:
  assumes hex: "hex_ok P" and ok: "snapshot_ok P auth s" and wf: "maps_wf s"
    and c: "get_claim P s i = Some c" and ch: "clm_status c = Challenged ch rd"
    and tot: "escrow_total P (pol_bond_asset (clm_policy c)) s < 2 ^ 64"
  shows "\<exists>t. resolve_bonds P (clm_policy c) ch False s = Inr t"
proof -
  let ?p = "clm_policy c" let ?a = "pol_bond_asset ?p"
  have ne: "ch \<noteq> pol_proposer ?p" using get_claim_static(2)[OF ok c] by (simp add: status_ok_def ch)
  note pos = get_claim_bonds[OF ok c]
  have wb: "bt_wf (bonds s)" using wf by (simp add: maps_wf_def)
  have lk: "pol_proposer_bond ?p \<le> locked (bond P s ?a (pol_proposer ?p))"
      "pol_challenger_bond ?p \<le> locked (bond P s ?a ch)"
    using obligation_locked[OF ok c, of "bond_key P ?a (pol_proposer ?p)"]
      obligation_locked[OF ok c, of "bond_key P ?a ch"]
    by (auto simp: obligation_def ch proposer_share_def challenger_share_def bond_acct word_le_nat_alt
        split: if_splits)
  have "locked (bond P s ?a ch) \<noteq> 0" using lk(2) pos(2) by (auto simp: word_le_nat_alt unat_eq_0)
  then have ch0: "ch \<noteq> 0" by (rule locked_owner_nonzero[OF hex ok])
  obtain u where u: "award P ?a (pol_proposer ?p) ch (pol_proposer_bond ?p) s = Inr u"
    using award_accepted[OF hex pos(3) ch0 pos(1) lk(1) wb tot] by blast
  have key: "asset_key P ?a (bond_key P ?a w)" for w by (simp add: asset_key_bond_key[OF hex])
  have "escrow_total P ?a u = escrow_total P ?a s"
    unfolding escrow_total_def by (rule held_award[OF wb u]) (simp add: key)
  then have tu: "escrow_total P ?a u < 2 ^ 64" using tot by simp
  have lu: "pol_challenger_bond ?p \<le> locked (bond P u ?a ch)"
    using award_locked[OF u, of "bond_key P ?a ch"] ne lk(2)
    by (simp add: bond_key_eq[OF hex] bond_acct word_le_nat_alt)
  obtain t where "award P ?a ch ch (pol_challenger_bond ?p) u = Inr t"
    using award_accepted[OF hex pos(3) ch0 pos(2) lu bonds_wf(4)[OF wb u] tu] by blast
  with u show ?thesis by (auto simp: resolve_bonds_ok)
qed

lemma advance_accepted:
  assumes "ledger_inv P auth s" and c: "get_claim P s i = Some c" and due: "due c now"
    and tot: "escrow_total P (pol_bond_asset (clm_policy c)) s < 2 ^ 64"
  shows "\<exists>t. advance P i now s = Inr t \<and>
           get_claim P t i = Some (c\<lparr>clm_status := expired_status (clm_status c)\<rparr>)"
proof -
  have hex: "hex_ok P" and ok: "snapshot_ok P auth s" and wf: "maps_wf s"
    using assms(1) by (simp_all add: ledger_inv_def)
  let ?p = "clm_policy c"
  have rel: "\<exists>t. award P (pol_bond_asset ?p) (pol_proposer ?p) (pol_proposer ?p) (pol_proposer_bond ?p) s
      = Inr t" if "clm_status c = Pending \<or> (\<exists>pr. clm_status c = Proven pr)"
  proof (rule award_accepted[OF hex _ _ _ _ _ tot])
    show "pol_proposer_bond ?p \<le> locked (bond P s (pol_bond_asset ?p) (pol_proposer ?p))"
      using obligation_locked[OF ok c, of "bond_key P (pol_bond_asset ?p) (pol_proposer ?p)"] that
      by (auto simp: obligation_def proposer_share_def bond_acct word_le_nat_alt)
  qed (use get_claim_bonds[OF ok c] wf in \<open>auto simp: maps_wf_def\<close>)
  show ?thesis
  proof (cases "clm_status c")
    case Pending
    with rel due c show ?thesis
      by (auto simp: advance_def Let_def due_def unlock_bond_def result_simps get_put_claim)
  next
    case (Proven pr)
    with rel due c show ?thesis
      by (auto simp: advance_def Let_def due_def unlock_bond_def result_simps get_put_claim)
  next
    case (Challenged ch rd)
    with resolve_accepted[OF hex ok wf c Challenged tot] due c show ?thesis
      by (auto simp: advance_def Let_def due_def result_simps get_put_claim)
  qed (use due in \<open>auto simp: due_def\<close>)
qed

section \<open>Finalized claims\<close>

lemma finalized_fixed: "is_finalized (clm_status c) \<Longrightarrow> claim_evolves P x c d \<longleftrightarrow> d = c"
  by (auto simp: claim_evolves_def is_finalized_def elim: status_step.cases split: claim_status.splits)

lemma exec_new_claim:
  assumes "opt_exec P auth x s = Inr t" and "get_claim P s j = None" and "get_claim P t j = Some d"
  shows "\<exists>q now. x = Propose q now \<and> clm_proposal d = q \<and> clm_accepted_at d = now
           \<and> clm_status d = Pending"
proof (cases x)
  case (Propose q now)
  then obtain r where r: "propose P auth q now s = Inr r" "t = snd r"
    using assms(1) by (auto simp: result_simps)
  from r(1) show ?thesis
  proof (cases rule: propose_ok)
    case (1 i p job e dl u)
    have "claims u = claims s" using bond_frame(3)[OF 1(13)] by simp
    with assms(2,3) Propose show ?thesis
      by (auto simp: 1(14) r(2) get_claim_def split: if_splits)
  qed
next
  case (Dispute r now)
  then have "challenge_claim P auth r now s = Inr t" using assms(1) by simp
  then show ?thesis
  proof (cases rule: challenge_ok)
    case (1 c' c rd u)
    from bond_frame(3)[OF 1(9)] 1(3) assms(2,3) show ?thesis
      by (auto simp: 1(10) get_claim_def split: if_splits)
  qed
next
  case (Answer i pf v now)
  then have "answer P i pf v now s = Inr t" using assms(1) by simp
  then show ?thesis
  proof (cases rule: answer_ok)
    case (defended c ch rd u)
    from bond_frame(4)[OF defended(7)] defended(1) assms(2,3) show ?thesis
      by (auto simp: defended(8) get_claim_def split: if_splits)
  next
    case (refuted c ch rd res u)
    from resolve_frame[OF refuted(8)] refuted(1) assms(2,3) show ?thesis
      by (auto simp: refuted(9) get_claim_def split: if_splits)
  qed
next
  case (Advance i now)
  then have "advance P i now s = Inr t" using assms(1) by simp
  then show ?thesis
  proof (cases rule: advance_ok)
    case (released c evidence u)
    from bond_frame(4)[OF released(4)] released(1) assms(2,3) show ?thesis
      by (auto simp: released(5) get_claim_def split: if_splits)
  next
    case (unanswered c ch rd u)
    from resolve_frame[OF unanswered(4)] unanswered(1) assms(2,3) show ?thesis
      by (auto simp: unanswered(5) get_claim_def split: if_splits)
  qed
next
  case (Credit a w amount)
  then have "claims t = claims s" using assms(1) bond_frame(1)[of P a w amount s t] by simp
  with assms(2,3) show ?thesis by (simp add: get_claim_def)
next
  case (Withdraw a w amount)
  then have "claims t = claims s" using assms(1) bond_frame(2)[of P a w amount s t] by simp
  with assms(2,3) show ?thesis by (simp add: get_claim_def)
qed (use assms in \<open>auto simp: enroll_policy_def register_execution_def result_simps get_claim_def\<close>)

lemma require_finalized_iff:
  "require_finalized P s i context root = Inr c \<longleftrightarrow>
     get_claim P s i = Some c \<and> prop_context (clm_proposal c) = context
     \<and> prop_output_root (clm_proposal c) = root \<and> is_finalized (clm_status c)"
  by (auto simp: require_finalized_def result_simps)

text \<open>A finalized claim stays as it is; a claim becomes final only through an advance of it.\<close>

lemma run_finalized_stable:
  assumes "get_claim P s i = Some c" and "is_finalized (clm_status c)"
  shows "get_claim P (run_ops (opt_exec P auth) xs s) i = Some c"
  using assms(1)
proof (induction xs arbitrary: s)
  case (Cons x xs)
  show ?case
  proof (cases rule: step_or_stay_cases[of "opt_exec P auth" x s])
    case (accepted t)
    then show ?thesis
      using exec_evolves[OF accepted(1) Cons.prems] Cons.IH finalized_fixed[OF assms(2)] by auto
  qed (use Cons in simp)
qed simp

lemma advance_finalizes:
  assumes "opt_exec P auth x s = Inr t" and "get_claim P s i = Some c" and "get_claim P t i = Some d"
    and "\<not> is_finalized (clm_status c)" and "is_finalized (clm_status d)"
  shows "\<exists>j now. x = Advance j now \<and> hex P j = hex P i \<and> clm_challenge_deadline d \<le> now
           \<and> (clm_status c = Pending \<or> (\<exists>pr. clm_status c = Proven pr))"
proof -
  obtain st where st: "status_step P x c st" "d = c\<lparr>clm_status := st\<rparr>"
    using exec_evolves[OF assms(1,2)] assms(3-5) by (auto simp: claim_evolves_def)
  then obtain j now where x: "x = Advance j now" and dl: "clm_challenge_deadline c \<le> now"
    and pre: "clm_status c = Pending \<or> (\<exists>pr. clm_status c = Proven pr)"
    using assms(5) by (auto simp: is_finalized_def elim: status_step.cases split: claim_status.splits)
  have "advance P j now s = Inr t" using assms(1) x by simp
  then have "hex P j = hex P i"
  proof (cases rule: advance_ok)
    case (released c' evidence u)
    from bond_frame(4)[OF released(4)] assms(2-5) show ?thesis
      by (auto simp: released(5) get_claim_def split: if_splits)
  next
    case (unanswered c' ch rd u)
    from resolve_frame[OF unanswered(4)] assms(2-5) show ?thesis
      by (auto simp: unanswered(5) get_claim_def split: if_splits)
  qed
  with x dl pre st(2) show ?thesis by auto
qed

lemma run_finalized_waited:
  assumes "get_claim P (run_ops (opt_exec P auth) xs s) i = Some d" and "is_finalized (clm_status d)"
    and "\<forall>c. get_claim P s i = Some c \<longrightarrow> \<not> is_finalized (clm_status c)"
  shows "\<exists>j now. Advance j now \<in> set (accepted_ops (opt_exec P auth) xs s) \<and> hex P j = hex P i
           \<and> clm_challenge_deadline d \<le> now"
  using assms
proof (induction xs arbitrary: s)
  case (Cons x xs)
  show ?case
  proof (cases rule: step_or_stay_cases[of "opt_exec P auth" x s])
    case (accepted t)
    show ?thesis
    proof (cases "\<forall>c. get_claim P t i = Some c \<longrightarrow> \<not> is_finalized (clm_status c)")
      case True
      with Cons.IH[of t] Cons.prems accepted show ?thesis by auto
    next
      case False
      then obtain c' where c': "get_claim P t i = Some c'" "is_finalized (clm_status c')" by blast
      have "get_claim P (run_ops (opt_exec P auth) xs t) i = Some c'"
        by (rule run_finalized_stable[OF c'])
      with Cons.prems accepted have d: "c' = d" by simp
      obtain c where c: "get_claim P s i = Some c"
        using exec_new_claim[OF accepted(1) _ c'(1)] c'(2)
        by (cases "get_claim P s i") (auto simp: is_finalized_def)
      with Cons.prems advance_finalizes[OF accepted(1) c c'(1) _ c'(2)] d accepted show ?thesis by auto
    qed
  qed (use Cons in simp)
qed auto

end
