(* ===== verification/Optimistic_Demo.thy ===== *)
theory Optimistic_Demo
  imports Optimistic_Claims
begin

text \<open>
  Concrete parameters of the optimistic ledger, on which the properties are evaluated:
  \<open>hex_encode\<close> is the lower-case encoding that the hex crate documents (so \<open>hex_ok\<close> can hold),
  the serialiser and the hash are small total functions, and the signature check compares the
  signature with the signer and the digest. \<open>demo_ops\<close> plays one dispute of every kind.
\<close>

section \<open>Lower-case hexadecimal\<close>

definition nibble :: "nat \<Rightarrow> char" where
  "nibble n = (if n < 10 then char_of (48 + n) else char_of (87 + n))"

fun hex_digits :: "nat \<Rightarrow> nat \<Rightarrow> string" where
  "hex_digits 0 n = []"
| "hex_digits (Suc k) n = hex_digits k (n div 16) @ [nibble (n mod 16)]"

definition hex_encode :: "id32 \<Rightarrow> string" where
  "hex_encode d = hex_digits 64 (unat d)"

lemma of_char_nibble: "n < 16 \<Longrightarrow> (of_char (nibble n) :: nat) = (if n < 10 then 48 + n else 87 + n)"
  by (simp add: nibble_def)

lemma nibble_inj:
  assumes "m < 16" and "n < 16"
  shows "nibble m = nibble n \<longleftrightarrow> m = n"
proof
  assume "nibble m = nibble n"
  then have "(of_char (nibble m) :: nat) = of_char (nibble n)" by (rule arg_cong)
  then show "m = n"
    unfolding of_char_nibble[OF assms(1)] of_char_nibble[OF assms(2)] by (simp split: if_splits)
qed simp

lemma length_hex_digits [simp]: "length (hex_digits k n) = k"
  by (induction k arbitrary: n) auto

lemma hex_digits_inj: "m < 16 ^ k \<Longrightarrow> n < 16 ^ k \<Longrightarrow> hex_digits k m = hex_digits k n \<longleftrightarrow> m = n"
proof (induction k arbitrary: m n)
  case (Suc k)
  have "m div 16 < 16 ^ k" "n div 16 < 16 ^ k"
    using Suc.prems by (auto simp: less_mult_imp_div_less mult.commute)
  from Suc.IH[OF this] have "hex_digits (Suc k) m = hex_digits (Suc k) n \<longleftrightarrow>
      m div 16 = n div 16 \<and> m mod 16 = n mod 16"
    by (simp add: nibble_inj)
  then show ?case by (metis mult_div_mod_eq)
qed simp

lemma hex_digits_chars: "list_all hex_char (hex_digits k n)"
  by (induction k arbitrary: n) (auto simp: hex_char_def Let_def of_char_nibble)

lemma nibble_zero: "nibble 0 = CHR ''0''"
  by (simp add: nibble_def) code_simp

lemma hex_digits_zero: "hex_digits k 0 = replicate k (CHR ''0'')"
  by (induction k) (simp_all add: nibble_zero replicate_append_same)

lemma hex_encode_ok:
  "inj hex_encode" "length (hex_encode d) = 64" "list_all hex_char (hex_encode d)"
  "hex_encode 0 = replicate 64 (CHR ''0'')"
proof -
  have "unat a < 16 ^ 64" for a :: id32 using unat_bound[of a] by simp
  then show "inj hex_encode" by (auto simp: inj_def hex_encode_def hex_digits_inj word_unat_eq_iff)
qed (simp_all add: hex_encode_def hex_digits_chars hex_digits_zero)

section \<open>Parameters and a run\<close>

fun demo_to_vec :: "payload \<Rightarrow> bytes option" where
  "demo_to_vec (PolicyPayload p) = Some [1]"
| "demo_to_vec (ProposalPayload a c r u) = Some [2, word_of_nat (unat (ctx_job c))]"
| "demo_to_vec (ChallengePayload i ch) = Some [3, word_of_nat (unat ch)]"
| "demo_to_vec (JobPayload a b j) = Some [4, word_of_nat (unat j)]"

definition demo_hash :: "bytes \<Rightarrow> id32" where
  "demo_hash bs = (if bs = [] then 0 else word_of_nat (unat (last bs)) + 256)"

definition demo_prims :: opt_prims where
  "demo_prims = \<lparr>to_vec = demo_to_vec, sha256 = demo_hash, hex = hex_encode\<rparr>"

lemma demo_hex_ok: "hex_ok demo_prims"
  using hex_encode_ok by (simp add: hex_ok_def demo_prims_def)

definition demo_auth :: claim_authentication where
  "demo_auth who d sig = (if sig = [word_of_nat (unat who), word_of_nat (unat d)] then Inr () else Inl AuthFailed)"

definition demo_policy :: opt_policy where
  "demo_policy = \<lparr>pol_network = 1, pol_application = 2, pol_verifier = 3, pol_proposer = 4,
     pol_bond_asset = 5, pol_proposer_bond = 100, pol_challenger_bond = 40,
     pol_challenge_window = 10, pol_response_window = 5\<rparr>"

definition demo_context :: "id32 \<Rightarrow> exec_context" where
  "demo_context j = \<lparr>ctx_network = 1, ctx_application = 2, ctx_verifier = 3, ctx_job = j,
     ctx_input_root = 6, ctx_before_state = 7\<rparr>"

definition demo_proposal :: "id32 \<Rightarrow> proposal" where
  "demo_proposal j = \<lparr>prop_policy = 257, prop_context = demo_context j, prop_output_root = 8,
     prop_valid_until = 900, prop_signature = [4, word_of_nat (unat j)]\<rparr>"

definition demo_verifier :: challenge_verifier where
  "demo_verifier = \<lparr>verifier_id = 3,
     verifier_verify = (\<lambda>c pf. if pf = [] then Inl ProofInvalid else Inr (word_of_nat (unat (hd pf))))\<rparr>"

definition demo_execution :: registered_execution where
  "demo_execution = \<lparr>exe_policy = 257, exe_context = demo_context 20, exe_valid_until = 1000\<rparr>"

definition demo_setup :: "opt_op list" where
  "demo_setup = [Enroll demo_policy, Register demo_execution, Credit 5 4 500, Credit 5 9 100,
     Propose (demo_proposal 20) 50]"

definition demo_dispute :: opt_op where
  "demo_dispute = Dispute \<lparr>chal_claim = 276, chal_challenger = 9, chal_signature = [9, 9]\<rparr> 55"

definition demo_claim :: "claim_status \<Rightarrow> claim" where
  "demo_claim st = \<lparr>clm_proposal = demo_proposal 20, clm_policy = demo_policy, clm_accepted_at = 50,
     clm_challenge_deadline = 60, clm_status = st\<rparr>"

abbreviation demo_exec :: "opt_op \<Rightarrow> opt_state \<Rightarrow> opt_error + opt_state" where
  "demo_exec \<equiv> opt_exec demo_prims demo_auth"

lemma hex_encode_eq [simp]: "hex_encode a = hex_encode b \<longleftrightarrow> a = b"
  using hex_encode_ok(1) by (simp add: inj_eq)

lemma demo_keys [simp]: "bond_key demo_prims a p = bond_key demo_prims b q \<longleftrightarrow> a = b \<and> p = q"
  by (rule bond_key_eq[OF demo_hex_ok])

lemma demo_prims_simps [simp]:
  "to_vec demo_prims = demo_to_vec" "sha256 demo_prims = demo_hash" "hex demo_prims = hex_encode"
  by (simp_all add: demo_prims_def)

lemma demo_policy_digest: "policy_digest demo_prims demo_policy = Inr 257"
  by (simp add: policy_digest_def policy_validate_def demo_policy_def digest_def demo_hash_def)

lemma demo_job_key: "job_key demo_prims (demo_context 20) = Inr (hex_encode 276)"
  by (simp add: job_key_def digest_def demo_hash_def demo_context_def)

lemma demo_proposal_id: "proposal_id demo_prims (demo_proposal 20) = Inr 276"
  by (simp add: proposal_id_def proposal_signing_digest_def digest_def demo_hash_def demo_proposal_def demo_context_def)

lemma demo_verified: "proposal_verify demo_prims demo_auth (demo_proposal 20) demo_policy 50 = Inr ()"
  using demo_proposal_id unfolding proposal_verify_def demo_policy_digest
  by (simp add: proposal_id_def demo_auth_def demo_proposal_def demo_policy_def demo_context_def)

lemma demo_not_past: "\<not> past_execution 50 demo_policy 1000"
  by (simp add: past_execution_def demo_policy_def checked_add_def)

text \<open>The state after the setup, and after a dispute of its claim.\<close>

definition demo_bonds :: "u64 \<Rightarrow> u64 \<Rightarrow> u64 \<Rightarrow> u64 \<Rightarrow> (string, bond_account) btree" where
  "demo_bonds pa pl ca cl =
     bt_insert (bond_key demo_prims 5 4) \<lparr>available = pa, locked = pl\<rparr>
       (bt_insert (bond_key demo_prims 5 9) \<lparr>available = ca, locked = cl\<rparr> [])"

definition demo_state :: "claim_status \<Rightarrow> (string, bond_account) btree \<Rightarrow> opt_state" where
  "demo_state st b = \<lparr>policies = [(hex_encode 257, demo_policy)],
     executions = [(hex_encode 276, demo_execution)], claims = [(hex_encode 276, demo_claim st)],
     jobs = [(hex_encode 276, 276)], bonds = b\<rparr>"

lemma demo_execution_simps [simp]:
  "exe_policy demo_execution = 257" "exe_context demo_execution = demo_context 20"
  "exe_valid_until demo_execution = 1000" "execution_mismatch demo_execution demo_policy = False"
  by (simp_all add: demo_execution_def execution_mismatch_def demo_context_def demo_policy_def)

lemma demo_policy_simps [simp]:
  "pol_bond_asset demo_policy = 5" "pol_proposer demo_policy = 4" "pol_proposer_bond demo_policy = 100"
  "pol_challenger_bond demo_policy = 40" "pol_challenge_window demo_policy = 10"
  "pol_response_window demo_policy = 5" "pol_verifier demo_policy = 3"
  by (simp_all add: demo_policy_def)

lemma demo_proposal_simps [simp]:
  "prop_policy (demo_proposal 20) = 257" "prop_context (demo_proposal 20) = demo_context 20"
  "prop_valid_until (demo_proposal 20) = 900" "prop_output_root (demo_proposal 20) = 8"
  by (simp_all add: demo_proposal_def)

lemma demo_bonds_get [simp]:
  "bt_get (demo_bonds pa pl ca cl) (bond_key demo_prims 5 4) = Some \<lparr>available = pa, locked = pl\<rparr>"
  "bt_get (demo_bonds pa pl ca cl) (bond_key demo_prims 5 9) = Some \<lparr>available = ca, locked = cl\<rparr>"
  by (simp_all add: demo_bonds_def)

lemma demo_bonds_put [simp]:
  "bt_insert (bond_key demo_prims 5 4) \<lparr>available = a, locked = l\<rparr> (demo_bonds pa pl ca cl)
     = demo_bonds a l ca cl"
  "bt_insert (bond_key demo_prims 5 9) \<lparr>available = a, locked = l\<rparr> (demo_bonds pa pl ca cl)
     = demo_bonds pa pl a l"
  "bt_insert (bond_key demo_prims 5 9) \<lparr>available = a, locked = l\<rparr>
     [(bond_key demo_prims 5 4, \<lparr>available = pa, locked = pl\<rparr>)] = demo_bonds pa pl a l"
  unfolding demo_bonds_def
  by (auto intro!: bt_ext simp: bt_get_def bt_wf_def)

lemma demo_run_setup:
  "run_ops demo_exec demo_setup empty_state = demo_state Pending (demo_bonds 400 100 100 0)"
proof -
  let ?t = "\<lparr>policies = [(hex_encode 257, demo_policy)], executions = [(hex_encode 276, demo_execution)],
     claims = [], jobs = [], bonds = demo_bonds 500 0 100 0\<rparr>"
  have "run_ops demo_exec [Enroll demo_policy, Register demo_execution, Credit 5 4 500, Credit 5 9 100]
      empty_state = ?t"
    by (simp add: step_or_stay_def enroll_policy_def demo_policy_digest register_execution_def
        empty_state_def get_policy_def bt_contains_def bt_get_def
        demo_job_key credit_escrow_def bond_def bond_default_def checked_add_def put_bond_def Let_def
        del: bt_insert.simps(2))
  moreover have "step_or_stay demo_exec (Propose (demo_proposal 20) 50) ?t
      = demo_state Pending (demo_bonds 400 100 100 0)"
    by (simp add: step_or_stay_def propose_def get_policy_def demo_verified demo_proposal_id demo_job_key
        demo_not_past bt_contains_def lock_bond_def Let_def bond_def checked_add_def checked_sub_def
        put_bond_def put_claim_def demo_state_def demo_claim_def)
  ultimately show ?thesis by (simp add: demo_setup_def)
qed

end
