(* ===== verification/Optimistic_Properties.thy ===== *)
theory Optimistic_Properties
  imports Optimistic_Demo
begin

text \<open>
  The properties of the optimistic ledger, stated over arbitrary sequences of requests to an
  initially empty ledger, or over one accepted request. The hypothesis \<open>hex_ok\<close> is the documented
  behaviour of \<open>hex::encode\<close> on 32 bytes: injective, 64 lower-case digits, zero to zeros.
\<close>

text \<open>C1: whatever requests a ledger receives, in whatever order and with whatever timestamps, its
  state passes the snapshot validation a host runs on load and before commit: every index, policy
  binding, deadline, and the locked collateral of every account agree.\<close>

theorem ledger_always_validates:
  assumes "hex_ok P"
  shows "validate P auth (run_ops (opt_exec P auth) xs empty_state) = Inr ()"
  using run_ledger_inv[OF assms, of auth xs] validate_iff by (auto simp: ledger_inv_def)

theorem ledger_always_validates_witness:
  "validate demo_prims demo_auth (demo_state Pending (demo_bonds 400 100 100 0)) = Inr ()"
  using ledger_always_validates[OF demo_hex_ok, of demo_auth demo_setup]
  unfolding demo_run_setup .

text \<open>C2: collateral of an asset is neither created nor destroyed: over any run the escrow, over
  all owners, available and locked, is what was deposited minus what was withdrawn.\<close>

theorem escrow_conserved:
  assumes "hex_ok P"
  shows "escrow_total P asset (run_ops (opt_exec P auth) xs empty_state)
           + sum_list (map (withdrawn asset) (accepted_ops (opt_exec P auth) xs empty_state))
         = sum_list (map (deposited asset) (accepted_ops (opt_exec P auth) xs empty_state))"
  using run_conserves[OF assms, of empty_state asset auth xs]
  by (simp add: empty_state_def escrow_total_def held_def)

theorem escrow_conserved_witness:
  "escrow_total demo_prims 5 (demo_state Pending (demo_bonds 400 100 100 0))
     + sum_list (map (withdrawn 5) (accepted_ops demo_exec demo_setup empty_state))
   = sum_list (map (deposited 5) (accepted_ops demo_exec demo_setup empty_state))"
  using escrow_conserved[OF demo_hex_ok, of 5 demo_auth demo_setup]
  unfolding demo_run_setup .

text \<open>C3: an accepted request lowers the holdings of an account only if its owner withdraws, or
  if it resolves a dispute in time with a proof by the policy's verifier that contradicts the
  proposer (the proposer pays) or confirms it (the challenger pays), or if the response deadline of
  a challenge has passed (the proposer pays). Bytes that do not verify never cost anyone anything.\<close>

theorem loss_needs_cause:
  assumes "hex_ok P" and "opt_exec P auth x s = Inr t"
    and "worth (bond P t asset owner) < worth (bond P s asset owner)"
  shows "loss_cause P s x asset owner"
  using assms by (rule exec_loss)

theorem loss_needs_cause_witness:
  "loss_cause demo_prims (demo_state (Challenged 9 60) (demo_bonds 400 100 60 40))
     (Advance 276 60) 5 4"
proof (rule loss_needs_cause[OF demo_hex_ok,
      where auth = demo_auth and t = "demo_state (Rejected 9 None) (demo_bonds 400 0 200 0)"])
  show "opt_exec demo_prims demo_auth (Advance 276 60)
      (demo_state (Challenged 9 60) (demo_bonds 400 100 60 40))
    = Inr (demo_state (Rejected 9 None) (demo_bonds 400 0 200 0))"
    by (simp add: advance_def get_claim_def demo_state_def demo_claim_def Let_def resolve_bonds_def
        award_def credit_escrow_def bond_def put_bond_def put_claim_def checked_sub_def
        checked_add_def bt_get_def[where m = "[(k, v)]" for k v])
  show "worth (bond demo_prims (demo_state (Rejected 9 None) (demo_bonds 400 0 200 0)) 5 4)
      < worth (bond demo_prims (demo_state (Challenged 9 60) (demo_bonds 400 100 60 40)) 5 4)"
    by (simp add: bond_def demo_state_def worth_def)
qed

text \<open>C4: an execution is claimed at most once: over any run, no two accepted proposals are for
  the same job of the same network and application.\<close>

theorem job_claimed_once:
  assumes "hex_ok P"
  shows "distinct (List.map_filter (op_job P) (accepted_ops (opt_exec P auth) xs empty_state))"
  by (rule ledger.accepted_once[OF empty_ledger_inv[OF assms]])

theorem job_claimed_once_witness:
  "distinct (List.map_filter (op_job demo_prims)
     (accepted_ops demo_exec (demo_setup @ demo_setup) empty_state))"
  by (rule job_claimed_once[OF demo_hex_ok])

text \<open>C5: the life cycle of a claim. An accepted request creates a claim only as pending, by a
  proposal and stamped with its time, never removes one, and changes an existing one only in its
  status and only along \<open>status_step\<close>: disputed inside the challenge window by somebody else, proven
  or rejected in time by the enrolled verifier, finalized after the window, or rejected after
  the response deadline; finalized and rejected claims stay.\<close>

theorem claim_life_cycle:
  assumes "opt_exec P auth x s = Inr t"
  shows "(case (get_claim P s j, get_claim P t j) of
            (Some c, Some d) \<Rightarrow> d = c \<or> (\<exists>st. status_step P x c st \<and> d = c\<lparr>clm_status := st\<rparr>)
          | (Some c, None) \<Rightarrow> False
          | (None, Some d) \<Rightarrow>
              (\<exists>q now. x = Propose q now \<and> clm_proposal d = q \<and> clm_accepted_at d = now
                 \<and> clm_status d = Pending)
          | (None, None) \<Rightarrow> True)"
proof (cases "get_claim P s j")
  case None
  then show ?thesis using exec_new_claim[OF assms] by (auto split: option.splits)
next
  case (Some c)
  then show ?thesis
    using exec_evolves[OF assms Some] by (auto simp: claim_evolves_def split: option.splits)
qed

theorem claim_life_cycle_witness:
  "opt_exec demo_prims demo_auth (Advance 276 61) (demo_state Pending (demo_bonds 400 100 100 0))
     = Inr (demo_state (Finalized None) (demo_bonds 500 0 100 0))
   \<and> status_step demo_prims (Advance 276 61) (demo_claim Pending) (Finalized None)"
proof
  show ex: "opt_exec demo_prims demo_auth (Advance 276 61)
      (demo_state Pending (demo_bonds 400 100 100 0))
    = Inr (demo_state (Finalized None) (demo_bonds 500 0 100 0))"
    by (simp add: advance_def get_claim_def demo_state_def demo_claim_def Let_def unlock_bond_def
        award_def credit_escrow_def bond_def put_bond_def put_claim_def checked_sub_def
        checked_add_def bt_get_def[where m = "[(k, v)]" for k v])
  show "status_step demo_prims (Advance 276 61) (demo_claim Pending) (Finalized None)"
    using claim_life_cycle[OF ex, of 276]
    by (auto simp: get_claim_def demo_state_def demo_claim_def bt_get_def)
qed

text \<open>C6: what settlement relies on. If a ledger that started empty answers that a claim is
  finalized for a context and an output, then an advance of that claim was accepted at a time past
  its whole challenge window; and it gives the same answer after any further requests.\<close>

theorem finalized_waited_and_stable:
  assumes "require_finalized P (run_ops (opt_exec P auth) xs empty_state) i context root = Inr c"
  shows "(\<exists>j now. Advance j now \<in> set (accepted_ops (opt_exec P auth) xs empty_state)
            \<and> hex P j = hex P i \<and> clm_challenge_deadline c \<le> now)
       \<and> require_finalized P (run_ops (opt_exec P auth) (xs @ ys) empty_state) i context root = Inr c"
proof
  let ?s = "run_ops (opt_exec P auth) xs empty_state"
  have c: "get_claim P ?s i = Some c" "is_finalized (clm_status c)"
    using assms by (auto simp: require_finalized_iff)
  show "\<exists>j now. Advance j now \<in> set (accepted_ops (opt_exec P auth) xs empty_state)
      \<and> hex P j = hex P i \<and> clm_challenge_deadline c \<le> now"
    by (rule run_finalized_waited[OF c]) (simp add: get_claim_def empty_state_def bt_get_def)
  show "require_finalized P (run_ops (opt_exec P auth) (xs @ ys) empty_state) i context root = Inr c"
    using assms run_finalized_stable[OF c, of auth ys]
    by (simp add: run_ops_append require_finalized_iff)
qed

theorem finalized_waited_and_stable_witness:
  "require_finalized demo_prims
     (run_ops demo_exec (demo_setup @ [Advance 276 61, demo_dispute, demo_dispute]) empty_state)
     276 (demo_context 20) 8 = Inr (demo_claim (Finalized None))"
proof -
  have "step_or_stay demo_exec (Advance 276 61) (demo_state Pending (demo_bonds 400 100 100 0))
      = demo_state (Finalized None) (demo_bonds 500 0 100 0)"
    by (simp add: step_or_stay_def advance_def get_claim_def demo_state_def demo_claim_def Let_def
        unlock_bond_def award_def credit_escrow_def bond_def put_bond_def put_claim_def checked_sub_def
        checked_add_def bt_get_def[where m = "[(k, v)]" for k v])
  then have "require_finalized demo_prims (run_ops demo_exec (demo_setup @ [Advance 276 61]) empty_state)
      276 (demo_context 20) 8 = Inr (demo_claim (Finalized None))"
    by (simp add: run_ops_append demo_run_setup require_finalized_iff get_claim_def demo_state_def
        demo_claim_def is_finalized_def bt_get_def)
  from finalized_waited_and_stable[OF this, of "[demo_dispute, demo_dispute]"]
  show ?thesis by simp
qed

text \<open>C7: no claim gets stuck. In every state a ledger can reach, once the deadline of a claim has
  passed, anybody can advance it, and it becomes final or rejected, provided that the escrow of its
  asset fits a u64: the collateral it needs is locked and no balance overflows.\<close>

theorem overdue_claim_advances:
  assumes "hex_ok P" and "s = run_ops (opt_exec P auth) xs empty_state"
    and "get_claim P s i = Some c" and "due c now"
    and "escrow_total P (pol_bond_asset (clm_policy c)) s < 2 ^ 64"
  shows "\<exists>t. advance P i now s = Inr t \<and>
           get_claim P t i = Some (c\<lparr>clm_status := expired_status (clm_status c)\<rparr>)"
  using advance_accepted[of P auth s i c now] run_ledger_inv[OF assms(1), of auth xs] assms(2-5) by simp

theorem overdue_claim_advances_witness:
  "\<exists>t. advance demo_prims 276 60 (demo_state Pending (demo_bonds 400 100 100 0)) = Inr t \<and>
       get_claim demo_prims t 276 = Some (demo_claim (Finalized None))"
proof -
  have "escrow_total demo_prims 5 (demo_state Pending (demo_bonds 400 100 100 0)) \<le> 600"
    by (simp add: escrow_total_def held_def demo_state_def demo_bonds_def bt_sum_insert_new worth_def)
  then show ?thesis
    using overdue_claim_advances[OF demo_hex_ok demo_run_setup[symmetric], of 276 "demo_claim Pending" 60]
    by (simp add: get_claim_def demo_state_def demo_claim_def due_def bt_get_def)
qed

text \<open>C8: the loops of the snapshot validation, with their accumulated job index and locked
  amounts and their early returns, accept exactly the states that satisfy the declarative
  specification \<open>snapshot_ok\<close> (index agreement, policy binding, one claim per job, and per account
  the locked amount equal to the sum of what its open claims require).\<close>

theorem validate_exact:
  assumes "maps_wf s"
  shows "validate P auth s = Inr () \<longleftrightarrow> snapshot_ok P auth s"
  using assms by (rule validate_iff)

theorem validate_exact_witness:
  "validate demo_prims demo_auth (demo_state Pending (demo_bonds 400 100 100 0)) = Inr ()
    \<and> snapshot_ok demo_prims demo_auth (demo_state Pending (demo_bonds 400 100 100 0))"
proof -
  have "maps_wf (demo_state Pending (demo_bonds 400 100 100 0))"
    and ok: "snapshot_ok demo_prims demo_auth (demo_state Pending (demo_bonds 400 100 100 0))"
    using run_ledger_inv[OF demo_hex_ok, of demo_auth demo_setup] unfolding demo_run_setup by (simp_all add: ledger_inv_def)
  then show ?thesis using validate_exact by blast
qed

end
