(* ===== verification/Sigma.thy ===== *)
theory Sigma
  imports Complex_Main Zkpi_Prelude
begin

text \<open>
  \<^verbatim>\<open>src/rust/zkfmi-zk/src/pedersen.rs\<close> and \<^verbatim>\<open>sigma.rs\<close>: Pedersen commitments over ristretto255
  and the sigma protocols on them.

  The group and the hash functions are third-party crates and enter as parameters: scalars are any
  field \<open>'s\<close>, points any abelian group \<open>'g\<close>, and the record \<open>zk\<close> holds scalar multiplication,
  point compression, the Merlin transcript oracle, reduction of 64 bytes to a scalar, hashing to a
  point, the basepoint and the generators of the bulletproofs crate. That scalars act linearly on
  points is the hypothesis \<open>lawful Z\<close>. A Merlin transcript is the list of what was
  appended to it and drawn from it; a function with a \<open>&mut Transcript\<close> returns the longer
  list. Scalars drawn from a random generator are arguments, in the order they are drawn. A
  multiscalar multiplication of lists of different lengths panics, which is \<open>None\<close>.
\<close>

section \<open>Parameters\<close>

datatype tr_event = Appended bytes bytes | Drawn bytes nat

type_synonym transcript = "tr_event list"

record ('s, 'g) zk =
  smul :: "'s \<Rightarrow> 'g \<Rightarrow> 'g"
  compress :: "'g \<Rightarrow> bytes"
  merlin :: "transcript \<Rightarrow> bytes \<Rightarrow> nat \<Rightarrow> bytes"
  wide_scalar :: "bytes \<Rightarrow> 's"
  hash_point :: "bytes \<Rightarrow> 'g"
  basepoint :: 'g
  bp_value_gen :: 'g
  bp_blinding_gen :: 'g

definition transcript_new :: "bytes \<Rightarrow> transcript" where
  "transcript_new label = [Appended (ascii ''dom-sep'') label]"

definition append_message :: "bytes \<Rightarrow> bytes \<Rightarrow> transcript \<Rightarrow> transcript" where
  "append_message label m T = T @ [Appended label m]"

definition append_point :: "('s, 'g) zk \<Rightarrow> bytes \<Rightarrow> 'g \<Rightarrow> transcript \<Rightarrow> transcript" where
  "append_point Z label p T = append_message label (compress Z p) T"

definition challenge_scalar :: "('s, 'g) zk \<Rightarrow> bytes \<Rightarrow> transcript \<Rightarrow> 's \<times> transcript" where
  "challenge_scalar Z label T = (wide_scalar Z (merlin Z T label 64), T @ [Drawn label 64])"

definition msm :: "('s, 'g::ab_group_add) zk \<Rightarrow> 's list \<Rightarrow> 'g list \<Rightarrow> 'g option" where
  "msm Z ss ps = (if length ss = length ps then Some (sum_list (map2 (smul Z) ss ps)) else None)"

section \<open>Pedersen commitments\<close>

record 'g pedersen =
  gen_g :: 'g
  gen_h :: 'g

definition pedersen_new :: "('s, 'g) zk \<Rightarrow> bytes \<Rightarrow> 'g pedersen" where
  "pedersen_new Z label = \<lparr>gen_g = bp_value_gen Z, gen_h = bp_blinding_gen Z\<rparr>"

definition pedersen_detached :: "('s, 'g) zk \<Rightarrow> bytes \<Rightarrow> 'g pedersen" where
  "pedersen_detached Z label = \<lparr>gen_g = basepoint Z, gen_h = hash_point Z label\<rparr>"

definition with_value_generator :: "'g pedersen \<Rightarrow> 'g \<Rightarrow> 'g pedersen" where
  "with_value_generator key g = \<lparr>gen_g = g, gen_h = gen_h key\<rparr>"

definition commit :: "('s, 'g::ab_group_add) zk \<Rightarrow> 'g pedersen \<Rightarrow> 's \<Rightarrow> 's \<Rightarrow> 'g" where
  "commit Z key v r = smul Z v (gen_g key) + smul Z r (gen_h key)"

definition commit_u64 :: "('s::field, 'g::ab_group_add) zk \<Rightarrow> 'g pedersen \<Rightarrow> u64 \<Rightarrow> 's \<Rightarrow> 'g" where
  "commit_u64 Z key v r = commit Z key (of_nat (unat v)) r"

definition shift :: "('s::field, 'g::ab_group_add) zk \<Rightarrow> 'g pedersen \<Rightarrow> 'g \<Rightarrow> u64 \<Rightarrow> 'g" where
  "shift Z key c low = c - smul Z (of_nat (unat low)) (gen_g key)"

definition asset_tag :: "('s, 'g) zk \<Rightarrow> u32 \<Rightarrow> 'g" where
  "asset_tag Z asset_id = hash_point Z (ascii ''qomm:defmi:asset:'' @ u32_be asset_id)"

section \<open>Openings\<close>

record ('s, 'g) opening_proof =
  op_t :: 'g
  op_z_value :: 's
  op_z_blinding :: 's

definition opening_challenge :: "('s, 'g) zk \<Rightarrow> transcript \<Rightarrow> 'g \<Rightarrow> 'g \<Rightarrow> 's \<times> transcript" where
  "opening_challenge Z T C t =
     challenge_scalar Z (ascii ''c'')
       (append_point Z (ascii ''T'') t
         (append_point Z (ascii ''C'') C
           (append_message (ascii ''dom'') (ascii ''qomm/opening'') T)))"

definition prove_opening ::
  "('s::field, 'g::ab_group_add) zk \<Rightarrow> 'g pedersen \<Rightarrow> transcript \<Rightarrow> 'g \<Rightarrow> 's \<Rightarrow> 's \<Rightarrow> 's \<Rightarrow> 's
    \<Rightarrow> ('s, 'g) opening_proof \<times> transcript" where
  "prove_opening Z key T C v r k_value k_blinding =
     (let t = smul Z k_value (gen_g key) + smul Z k_blinding (gen_h key);
          (c, T') = opening_challenge Z T C t
      in (\<lparr>op_t = t, op_z_value = k_value + c * v, op_z_blinding = k_blinding + c * r\<rparr>, T'))"

definition opening_terms ::
  "('s::field, 'g) zk \<Rightarrow> 'g pedersen \<Rightarrow> transcript \<Rightarrow> 'g \<Rightarrow> ('s, 'g) opening_proof \<Rightarrow> 's
    \<Rightarrow> ('s list \<times> 'g list) \<times> transcript" where
  "opening_terms Z key T C p w =
     (let (c, T') = opening_challenge Z T C (op_t p)
      in (([w * op_z_value p, w * op_z_blinding p, - w, - (w * c)],
           [gen_g key, gen_h key, op_t p, C]), T'))"

definition verify_opening ::
  "('s::field, 'g::ab_group_add) zk \<Rightarrow> 'g pedersen \<Rightarrow> transcript \<Rightarrow> 'g \<Rightarrow> ('s, 'g) opening_proof
    \<Rightarrow> bool \<times> transcript" where
  "verify_opening Z key T C p =
     (let ((ss, ps), T') = opening_terms Z key T C p 1 in (msm Z ss ps = Some 0, T'))"

definition zero_relation :: "transcript \<Rightarrow> transcript" where
  "zero_relation T = append_message (ascii ''relation'') (ascii ''zero-opening:v2'') T"

definition prove_zero_opening ::
  "('s::field, 'g::ab_group_add) zk \<Rightarrow> 'g pedersen \<Rightarrow> transcript \<Rightarrow> 'g \<Rightarrow> 's \<Rightarrow> 's \<Rightarrow> 's
    \<Rightarrow> ('s, 'g) opening_proof \<times> transcript" where
  "prove_zero_opening Z key T residual r k_value k_blinding =
     (let (p, T') = prove_opening Z (with_value_generator key 0) (zero_relation T) residual 0 r
                      k_value k_blinding
      in (p\<lparr>op_z_value := 0\<rparr>, T'))"

definition verify_zero_opening ::
  "('s::field, 'g::ab_group_add) zk \<Rightarrow> 'g pedersen \<Rightarrow> transcript \<Rightarrow> 'g \<Rightarrow> ('s, 'g) opening_proof
    \<Rightarrow> bool \<times> transcript" where
  "verify_zero_opening Z key T residual p =
     (if op_z_value p \<noteq> 0 then (False, T)
      else verify_opening Z (with_value_generator key 0) (zero_relation T) residual p)"

section \<open>Two commitments to one value\<close>

record ('s, 'g) cross_proof =
  cg_t_first :: 'g
  cg_t_second :: 'g
  cg_z_value :: 's
  cg_z_first :: 's
  cg_z_second :: 's

definition cross_challenge ::
  "('s, 'g) zk \<Rightarrow> transcript \<Rightarrow> 'g \<Rightarrow> 'g \<Rightarrow> 'g \<Rightarrow> 'g \<Rightarrow> 'g \<Rightarrow> 'g \<Rightarrow> 's \<times> transcript" where
  "cross_challenge Z T g1 g2 c1 c2 t1 t2 =
     challenge_scalar Z (ascii ''c'')
       (append_point Z (ascii ''t2'') t2 (append_point Z (ascii ''t1'') t1
       (append_point Z (ascii ''c2'') c2 (append_point Z (ascii ''c1'') c1
       (append_point Z (ascii ''g2'') g2 (append_point Z (ascii ''g1'') g1
       (append_message (ascii ''dom'') (ascii ''qomm/xgen'') T)))))))"

definition prove_same_value ::
  "('s::field, 'g::ab_group_add) zk \<Rightarrow> 'g pedersen \<Rightarrow> transcript \<Rightarrow> 'g \<Rightarrow> 'g \<Rightarrow> 'g \<Rightarrow> 'g
    \<Rightarrow> 's \<Rightarrow> 's \<Rightarrow> 's \<Rightarrow> 's \<Rightarrow> 's \<Rightarrow> 's \<Rightarrow> ('s, 'g) cross_proof \<times> transcript" where
  "prove_same_value Z key T g1 g2 c1 c2 v r1 r2 k_value k_first k_second =
     (let t1 = smul Z k_value g1 + smul Z k_first (gen_h key);
          t2 = smul Z k_value g2 + smul Z k_second (gen_h key);
          (c, T') = cross_challenge Z T g1 g2 c1 c2 t1 t2
      in (\<lparr>cg_t_first = t1, cg_t_second = t2, cg_z_value = k_value + c * v,
           cg_z_first = k_first + c * r1, cg_z_second = k_second + c * r2\<rparr>, T'))"

definition same_value_terms ::
  "('s::field, 'g) zk \<Rightarrow> 'g pedersen \<Rightarrow> transcript \<Rightarrow> 'g \<Rightarrow> 'g \<Rightarrow> 'g \<Rightarrow> 'g \<Rightarrow> ('s, 'g) cross_proof \<Rightarrow> 's
    \<Rightarrow> ('s list \<times> 'g list) \<times> transcript" where
  "same_value_terms Z key T g1 g2 c1 c2 p w =
     (let (c, T') = cross_challenge Z T g1 g2 c1 c2 (cg_t_first p) (cg_t_second p);
          w2 = w * w
      in (([w * cg_z_value p, w * cg_z_first p, - w, - (w * c),
            w2 * cg_z_value p, w2 * cg_z_second p, - w2, - (w2 * c)],
           [g1, gen_h key, cg_t_first p, c1, g2, gen_h key, cg_t_second p, c2]), T'))"

definition halves_hold :: "('s::field, 'g::ab_group_add) zk \<Rightarrow> 's list \<Rightarrow> 'g list \<Rightarrow> bool" where
  "halves_hold Z ss ps =
     (let half = length ss div 2
      in msm Z (take half ss) (take half ps) = Some 0 \<and> msm Z (drop half ss) (drop half ps) = Some 0)"

definition verify_same_value ::
  "('s::field, 'g::ab_group_add) zk \<Rightarrow> 'g pedersen \<Rightarrow> transcript \<Rightarrow> 'g \<Rightarrow> 'g \<Rightarrow> 'g \<Rightarrow> 'g
    \<Rightarrow> ('s, 'g) cross_proof \<Rightarrow> bool \<times> transcript" where
  "verify_same_value Z key T g1 g2 c1 c2 p =
     (let ((ss, ps), T') = same_value_terms Z key T g1 g2 c1 c2 p 1 in (halves_hold Z ss ps, T'))"

section \<open>Products\<close>

record ('s, 'g) product_proof =
  pp_t_factor :: 'g
  pp_t_product :: 'g
  pp_z_b :: 's
  pp_z_rb :: 's
  pp_z_s :: 's

definition product_challenge ::
  "('s, 'g) zk \<Rightarrow> transcript \<Rightarrow> 'g \<Rightarrow> 'g \<Rightarrow> 'g \<Rightarrow> 'g \<Rightarrow> 'g \<Rightarrow> 's \<times> transcript" where
  "product_challenge Z T c_a c_b c_c t_factor t_product =
     challenge_scalar Z (ascii ''c'')
       (append_point Z (ascii ''Tp'') t_product (append_point Z (ascii ''Tf'') t_factor
       (append_point Z (ascii ''Cc'') c_c (append_point Z (ascii ''Cb'') c_b
       (append_point Z (ascii ''Ca'') c_a
       (append_message (ascii ''dom'') (ascii ''qomm/product'') T))))))"

definition prove_product ::
  "('s::field, 'g::ab_group_add) zk \<Rightarrow> 'g pedersen \<Rightarrow> transcript \<Rightarrow> 'g \<Rightarrow> 's \<Rightarrow> 's \<Rightarrow> 's \<Rightarrow> 's \<Rightarrow> 's
    \<Rightarrow> 's \<Rightarrow> 's \<Rightarrow> 's \<Rightarrow> ('s, 'g) product_proof \<times> transcript" where
  "prove_product Z key T c_a a r_a b r_b r_c k_b k_rb k_s =
     (let c_b = commit Z key b r_b;
          c_c = commit Z key (a * b) r_c;
          s = r_c - r_a * b;
          t_factor = commit Z key k_b k_rb;
          t_product = smul Z k_b c_a + smul Z k_s (gen_h key);
          (c, T') = product_challenge Z T c_a c_b c_c t_factor t_product
      in (\<lparr>pp_t_factor = t_factor, pp_t_product = t_product, pp_z_b = k_b + c * b,
           pp_z_rb = k_rb + c * r_b, pp_z_s = k_s + c * s\<rparr>, T'))"

definition product_terms ::
  "('s::field, 'g) zk \<Rightarrow> 'g pedersen \<Rightarrow> transcript \<Rightarrow> 'g \<Rightarrow> 'g \<Rightarrow> 'g \<Rightarrow> ('s, 'g) product_proof \<Rightarrow> 's
    \<Rightarrow> ('s list \<times> 'g list) \<times> transcript" where
  "product_terms Z key T c_a c_b c_c p w =
     (let (c, T') = product_challenge Z T c_a c_b c_c (pp_t_factor p) (pp_t_product p);
          w2 = w * w
      in (([w * pp_z_b p, w * pp_z_rb p, - w, - (w * c),
            w2 * pp_z_b p, w2 * pp_z_s p, - w2, - (w2 * c)],
           [gen_g key, gen_h key, pp_t_factor p, c_b, c_a, gen_h key, pp_t_product p, c_c]), T'))"

definition verify_product ::
  "('s::field, 'g::ab_group_add) zk \<Rightarrow> 'g pedersen \<Rightarrow> transcript \<Rightarrow> 'g \<Rightarrow> 'g \<Rightarrow> 'g
    \<Rightarrow> ('s, 'g) product_proof \<Rightarrow> bool \<times> transcript" where
  "verify_product Z key T c_a c_b c_c p =
     (let ((ss, ps), T') = product_terms Z key T c_a c_b c_c p 1 in (halves_hold Z ss ps, T'))"

section \<open>Batches\<close>

record ('s, 'g) batch =
  batch_scalars :: "'s list"
  batch_points :: "'g list"

definition batch_new :: "('s, 'g) batch" where
  "batch_new = \<lparr>batch_scalars = [], batch_points = []\<rparr>"

definition batch_push :: "'s list \<Rightarrow> 'g list \<Rightarrow> ('s, 'g) batch \<Rightarrow> ('s, 'g) batch" where
  "batch_push ss ps b = \<lparr>batch_scalars = batch_scalars b @ ss, batch_points = batch_points b @ ps\<rparr>"

definition batch_len :: "('s, 'g) batch \<Rightarrow> nat" where
  "batch_len b = length (batch_points b)"

definition batch_is_empty :: "('s, 'g) batch \<Rightarrow> bool" where
  "batch_is_empty b = (batch_points b = [])"

definition batch_verify :: "('s, 'g::ab_group_add) zk \<Rightarrow> ('s, 'g) batch \<Rightarrow> bool option" where
  "batch_verify Z b =
     (if batch_points b = [] then Some True
      else map_option (\<lambda>x. x = 0) (msm Z (batch_scalars b) (batch_points b)))"

section \<open>Linear relations\<close>

definition linear_residual ::
  "('s::field, 'g::ab_group_add) zk \<Rightarrow> 'g pedersen \<Rightarrow> 'g list \<Rightarrow> 's list \<Rightarrow> 's \<Rightarrow> 'g option" where
  "linear_residual Z key commitments coefficients constant =
     map_option (\<lambda>aggregate. aggregate - smul Z constant (gen_g key)) (msm Z coefficients commitments)"

definition prove_linear ::
  "('s::field, 'g::ab_group_add) zk \<Rightarrow> 'g pedersen \<Rightarrow> transcript \<Rightarrow> 'g list \<Rightarrow> 's list \<Rightarrow> 's list \<Rightarrow> 's
    \<Rightarrow> 's \<Rightarrow> 's \<Rightarrow> (('s, 'g) opening_proof \<times> transcript) option" where
  "prove_linear Z key T commitments coefficients blindings constant k_value k_blinding =
     (let combined = sum_list (map2 (*) coefficients blindings)
      in map_option (\<lambda>residual. prove_zero_opening Z key T residual combined k_value k_blinding)
           (linear_residual Z key commitments coefficients constant))"

definition verify_linear ::
  "('s::field, 'g::ab_group_add) zk \<Rightarrow> 'g pedersen \<Rightarrow> transcript \<Rightarrow> 'g list \<Rightarrow> 's list \<Rightarrow> 's
    \<Rightarrow> ('s, 'g) opening_proof \<Rightarrow> bool \<times> transcript" where
  "verify_linear Z key T commitments coefficients constant p =
     (case linear_residual Z key commitments coefficients constant of
        None \<Rightarrow> (False, T)
      | Some residual \<Rightarrow> verify_zero_opening Z key T residual p)"

section \<open>Bits\<close>

record ('s, 'g) bit_proof =
  bp_t0 :: 'g
  bp_t1 :: 'g
  bp_c0 :: 's
  bp_z0 :: 's
  bp_z1 :: 's

definition bit_challenge :: "('s, 'g) zk \<Rightarrow> transcript \<Rightarrow> 'g \<Rightarrow> 'g \<Rightarrow> 'g \<Rightarrow> 's \<times> transcript" where
  "bit_challenge Z T C t0 t1 =
     challenge_scalar Z (ascii ''c'')
       (append_point Z (ascii ''T1'') t1 (append_point Z (ascii ''T0'') t0
       (append_point Z (ascii ''C'') C
       (append_message (ascii ''dom'') (ascii ''qomm/bit'') T))))"

definition prove_bit ::
  "('s::field, 'g::ab_group_add) zk \<Rightarrow> 'g pedersen \<Rightarrow> transcript \<Rightarrow> 'g \<Rightarrow> bool \<Rightarrow> 's \<Rightarrow> 's \<Rightarrow> 's \<Rightarrow> 's
    \<Rightarrow> ('s, 'g) bit_proof \<times> transcript" where
  "prove_bit Z key T C b r k c_fake z_fake =
     (let shifted_fake = (if b then C else C - gen_g key);
          t_real = smul Z k (gen_h key);
          t_fake = smul Z z_fake (gen_h key) - smul Z c_fake shifted_fake;
          (t0, t1) = (if b then (t_fake, t_real) else (t_real, t_fake));
          (total, T') = bit_challenge Z T C t0 t1;
          c_real = total - c_fake;
          z_real = k + c_real * r
      in ((if b then \<lparr>bp_t0 = t0, bp_t1 = t1, bp_c0 = c_fake, bp_z0 = z_fake, bp_z1 = z_real\<rparr>
           else \<lparr>bp_t0 = t0, bp_t1 = t1, bp_c0 = c_real, bp_z0 = z_real, bp_z1 = z_fake\<rparr>), T'))"

definition verify_bit ::
  "('s::field, 'g::ab_group_add) zk \<Rightarrow> 'g pedersen \<Rightarrow> transcript \<Rightarrow> 'g \<Rightarrow> ('s, 'g) bit_proof
    \<Rightarrow> bool \<times> transcript" where
  "verify_bit Z key T C p =
     (let (total, T') = bit_challenge Z T C (bp_t0 p) (bp_t1 p);
          c1 = total - bp_c0 p;
          zero_ok = (smul Z (bp_z0 p) (gen_h key) = bp_t0 p + smul Z (bp_c0 p) C);
          one_ok = (smul Z (bp_z1 p) (gen_h key) = bp_t1 p + smul Z c1 (C - gen_g key))
      in (zero_ok \<and> one_ok, T'))"

end
