(* ===== verification/Sigma_Protocols.thy ===== *)
theory Sigma_Protocols
  imports Sigma
begin

text \<open>
  Completeness and special soundness of the sigma protocols. Each verifier is first reduced to its
  equation in the transcript's challenge; the locale \<open>sigma_check\<close> is the contract such an equation
  meets (two accepted answers to different challenges give a witness), interpreted once per
  protocol, and its client lemma says that a statement without a witness leaves the prover at
  most one challenge it can answer.
\<close>

section \<open>Linear algebra of points\<close>

text \<open>What the curve crate documents of scalar multiplication: scalars act linearly on points.\<close>

definition lawful :: "('s::field, 'g::ab_group_add) zk \<Rightarrow> bool" where
  "lawful Z \<longleftrightarrow>
     (\<forall>a b x. smul Z (a + b) x = smul Z a x + smul Z b x)
     \<and> (\<forall>a x y. smul Z a (x + y) = smul Z a x + smul Z a y)
     \<and> (\<forall>a b x. smul Z a (smul Z b x) = smul Z (a * b) x)
     \<and> (\<forall>x. smul Z 1 x = x)"

lemma lawful_smul:
  assumes "lawful Z"
  shows "smul Z (a + b) x = smul Z a x + smul Z b x"
    and "smul Z a (x + y) = smul Z a x + smul Z a y"
    and "smul Z a (smul Z b x) = smul Z (a * b) x"
    and "smul Z 1 x = x" and "smul Z 0 x = 0" and "smul Z a 0 = 0"
    and "smul Z (- a) x = - smul Z a x" and "smul Z a (- x) = - smul Z a x"
    and "smul Z (a - b) x = smul Z a x - smul Z b x"
    and "smul Z a (x - y) = smul Z a x - smul Z a y"
proof -
  have add: "smul Z (a + b) x = smul Z a x + smul Z b x" for a b x
    using assms by (simp add: lawful_def)
  have dist: "smul Z a (x + y) = smul Z a x + smul Z a y" for a x y
    using assms by (simp add: lawful_def)
  have z1: "smul Z 0 x = 0" for x using add[of 0 0 x] by simp
  have z2: "smul Z a 0 = 0" for a using dist[of a 0 0] by simp
  have m1: "smul Z (- a) x = - smul Z a x" for a x
    using add[of a "- a" x] z1 by (simp add: eq_neg_iff_add_eq_0 add.commute)
  have m2: "smul Z a (- x) = - smul Z a x" for a x
    using dist[of a x "- x"] z2 by (simp add: eq_neg_iff_add_eq_0 add.commute)
  show "smul Z (a + b) x = smul Z a x + smul Z b x" "smul Z a (x + y) = smul Z a x + smul Z a y"
    "smul Z a (smul Z b x) = smul Z (a * b) x" "smul Z 1 x = x" "smul Z 0 x = 0" "smul Z a 0 = 0"
    "smul Z (- a) x = - smul Z a x" "smul Z a (- x) = - smul Z a x"
    using assms by (simp_all add: lawful_def add dist z1 z2 m1 m2)
  show "smul Z (a - b) x = smul Z a x - smul Z b x"
    using add[of a "- b" x] m1 by simp
  show "smul Z a (x - y) = smul Z a x - smul Z a y"
    using dist[of a x "- y"] m2 by simp
qed

text \<open>Two equations with one first move and different challenges determine the commitment.\<close>

lemma point_extract:
  assumes Z: "lawful Z" and "A = t + smul Z c C" and "B = t + smul Z d C" and "c \<noteq> d"
  shows "C = smul Z (inverse (c - d)) (A - B)"
proof -
  have "A - B = smul Z (c - d) C" using assms(2,3) by (simp add: lawful_smul[OF Z])
  then show ?thesis using \<open>c \<noteq> d\<close> by (simp add: lawful_smul(3,4)[OF Z])
qed

lemma commit_extract:
  assumes Z: "lawful Z" and "commit Z key v r = t + smul Z c C" and "commit Z key v' r' = t + smul Z d C"
    and "c \<noteq> d"
  shows "C = commit Z key ((v - v') / (c - d)) ((r - r') / (c - d))"
  using point_extract[OF assms] by (simp add: commit_def lawful_smul[OF Z] divide_inverse algebra_simps)

section \<open>The contract of a verification equation\<close>

locale sigma_check =
  fixes check :: "'stmt \<Rightarrow> 'first \<Rightarrow> 'c \<Rightarrow> 'resp \<Rightarrow> bool"
    and rel :: "'stmt \<Rightarrow> 'wit \<Rightarrow> bool"
    and extractor :: "'c \<Rightarrow> 'resp \<Rightarrow> 'c \<Rightarrow> 'resp \<Rightarrow> 'wit"
  assumes special_sound:
    "check s t c z \<Longrightarrow> check s t d y \<Longrightarrow> c \<noteq> d \<Longrightarrow> rel s (extractor c z d y)"
begin

lemma one_challenge:
  assumes "\<nexists>w. rel s w"
  shows "\<exists>c0. {c. \<exists>z. check s t c z} \<subseteq> {c0}"
proof (cases "\<exists>c z. check s t c z")
  case True
  then obtain c0 z0 where c0: "check s t c0 z0" by blast
  have "c = c0" if "check s t c z" for c z
    using special_sound[OF that c0] assms by blast
  then show ?thesis by blast
qed blast

end

section \<open>Openings\<close>

definition opening_holds ::
  "('s::field, 'g::ab_group_add) zk \<Rightarrow> 'g pedersen \<Rightarrow> 'g \<Rightarrow> 'g \<Rightarrow> 's \<Rightarrow> 's \<times> 's \<Rightarrow> bool" where
  "opening_holds Z key C t c z \<longleftrightarrow> lawful Z \<and> commit Z key (fst z) (snd z) = t + smul Z c C"

definition opens :: "('s::field, 'g::ab_group_add) zk \<Rightarrow> 'g pedersen \<Rightarrow> 'g \<Rightarrow> 's \<times> 's \<Rightarrow> bool" where
  "opens Z key C w \<longleftrightarrow> C = commit Z key (fst w) (snd w)"

interpretation opened: sigma_check "opening_holds Z key" "opens Z key"
  "\<lambda>c z d y. ((fst z - fst y) / (c - d), (snd z - snd y) / (c - d))"
  for Z :: "('s::field, 'g::ab_group_add) zk" and key
  by unfold_locales (auto simp: opening_holds_def opens_def intro: commit_extract)

lemma verify_opening_iff:
  assumes "lawful Z"
  shows "fst (verify_opening Z key T C p) \<longleftrightarrow>
     opening_holds Z key C (op_t p) (fst (opening_challenge Z T C (op_t p)))
       (op_z_value p, op_z_blinding p)"
  using assms
  by (auto simp: verify_opening_def opening_terms_def opening_holds_def msm_def commit_def Let_def
      lawful_smul algebra_simps eq_neg_iff_add_eq_0 add_eq_0_iff split: prod.splits)

lemma opening_complete:
  assumes Z: "lawful Z" and "C = commit Z key v r"
  shows "fst (verify_opening Z key T C (fst (prove_opening Z key T C v r k_value k_blinding)))"
  unfolding verify_opening_iff[OF Z] using Z assms(2)
  by (simp add: prove_opening_def opening_holds_def Let_def commit_def lawful_smul algebra_simps
      split: prod.splits)

text \<open>The zero relation is the opening relation with the value generator replaced by zero.\<close>

lemma commit_zero_gen: "lawful Z \<Longrightarrow> commit Z (with_value_generator key 0) v r = smul Z r (gen_h key)"
  by (simp add: commit_def with_value_generator_def lawful_smul)

definition zero_challenge :: "('s, 'g::zero) zk \<Rightarrow> transcript \<Rightarrow> 'g \<Rightarrow> 'g \<Rightarrow> 's" where
  "zero_challenge Z T C t = fst (opening_challenge Z (zero_relation T) C t)"

definition zero_holds ::
  "('s::field, 'g::ab_group_add) zk \<Rightarrow> 'g pedersen \<Rightarrow> 'g \<Rightarrow> 'g \<Rightarrow> 's \<Rightarrow> 's \<Rightarrow> bool" where
  "zero_holds Z key C t c z \<longleftrightarrow> lawful Z \<and> smul Z z (gen_h key) = t + smul Z c C"

definition pure_blinding :: "('s::field, 'g::ab_group_add) zk \<Rightarrow> 'g pedersen \<Rightarrow> 'g \<Rightarrow> 's \<Rightarrow> bool" where
  "pure_blinding Z key C r \<longleftrightarrow> C = smul Z r (gen_h key)"

lemma blinding_extract:
  assumes Z: "lawful Z" and "smul Z z h = t + smul Z c C" and "smul Z y h = t + smul Z d C" and "c \<noteq> d"
  shows "C = smul Z ((z - y) / (c - d)) h"
  using point_extract[OF assms] by (simp add: lawful_smul[OF Z] divide_inverse algebra_simps)

interpretation zeroed: sigma_check "zero_holds Z key" "pure_blinding Z key" "\<lambda>c z d y. (z - y) / (c - d)"
  for Z :: "('s::field, 'g::ab_group_add) zk" and key
  by unfold_locales (auto simp: zero_holds_def pure_blinding_def intro: blinding_extract)

lemma verify_zero_opening_iff:
  assumes "lawful Z"
  shows "fst (verify_zero_opening Z key T C p) \<longleftrightarrow>
     op_z_value p = 0 \<and> zero_holds Z key C (op_t p) (zero_challenge Z T C (op_t p)) (op_z_blinding p)"
  using assms
  by (auto simp: verify_zero_opening_def verify_opening_iff zero_holds_def opening_holds_def
      commit_zero_gen zero_challenge_def)

lemma zero_opening_complete:
  assumes Z: "lawful Z" and "C = smul Z r (gen_h key)"
  shows "fst (verify_zero_opening Z key T C (fst (prove_zero_opening Z key T C r k_value k_blinding)))"
  unfolding verify_zero_opening_iff[OF Z] using Z assms(2)
  by (simp add: prove_zero_opening_def prove_opening_def zero_holds_def Let_def zero_challenge_def
      with_value_generator_def lawful_smul algebra_simps split: prod.splits)

section \<open>Two commitments to one value\<close>

text \<open>The two halves of the term list are the two equations, whatever the first one says.\<close>

lemma halves_hold_append:
  assumes "length ss = n" "length ps = n" "length ss' = n" "length ps' = n"
  shows "halves_hold Z (ss @ ss') (ps @ ps') \<longleftrightarrow> msm Z ss ps = Some 0 \<and> msm Z ss' ps' = Some 0"
  using assms by (simp add: halves_hold_def)

lemma four_terms:
  assumes "lawful Z"
  shows "msm Z [a, b, - w, - (w * c)] [p, q, t, C] = Some 0 \<longleftrightarrow>
     smul Z a p + smul Z b q = smul Z w (t + smul Z c C)"
  using assms by (auto simp: msm_def lawful_smul algebra_simps eq_neg_iff_add_eq_0 add_eq_0_iff)

lemma eight_terms:
  assumes Z: "lawful Z"
  shows "halves_hold Z [a, b, - w, - (w * c), a', b', - w', - (w' * c)] [p, q, t, C, p', q', t', C'] \<longleftrightarrow>
     smul Z a p + smul Z b q = smul Z w (t + smul Z c C)
     \<and> smul Z a' p' + smul Z b' q' = smul Z w' (t' + smul Z c C')"
  using halves_hold_append[of "[a, b, - w, - (w * c)]" 4 "[p, q, t, C]" "[a', b', - w', - (w' * c)]"
      "[p', q', t', C']" Z] four_terms[OF Z]
  by simp

definition cross_holds ::
  "('s::field, 'g::ab_group_add) zk \<Rightarrow> 'g \<Rightarrow> 'g \<times> 'g \<times> 'g \<times> 'g \<Rightarrow> 'g \<times> 'g \<Rightarrow> 's \<Rightarrow> 's \<times> 's \<times> 's \<Rightarrow> bool" where
  "cross_holds Z h s t c z \<longleftrightarrow>
     (case (s, t, z) of ((g1, g2, c1, c2), (t1, t2), (v, r1, r2)) \<Rightarrow>
        lawful Z \<and> smul Z v g1 + smul Z r1 h = t1 + smul Z c c1
        \<and> smul Z v g2 + smul Z r2 h = t2 + smul Z c c2)"

definition same_value ::
  "('s::field, 'g::ab_group_add) zk \<Rightarrow> 'g \<Rightarrow> 'g \<times> 'g \<times> 'g \<times> 'g \<Rightarrow> 's \<times> 's \<times> 's \<Rightarrow> bool" where
  "same_value Z h s w \<longleftrightarrow>
     (case (s, w) of ((g1, g2, c1, c2), (v, r1, r2)) \<Rightarrow>
        c1 = smul Z v g1 + smul Z r1 h \<and> c2 = smul Z v g2 + smul Z r2 h)"

lemma two_extract:
  assumes Z: "lawful Z" and "smul Z v g + smul Z r h = t + smul Z c C"
    and "smul Z v' g + smul Z r' h = t + smul Z d C" and "c \<noteq> d"
  shows "C = smul Z ((v - v') / (c - d)) g + smul Z ((r - r') / (c - d)) h"
  using commit_extract[OF Z, of "\<lparr>gen_g = g, gen_h = h\<rparr>"] assms by (simp add: commit_def)

interpretation crossed: sigma_check "cross_holds Z h" "same_value Z h"
  "\<lambda>c z d y. case (z, y) of ((v, r1, r2), (v', r1', r2')) \<Rightarrow>
     ((v - v') / (c - d), (r1 - r1') / (c - d), (r2 - r2') / (c - d))"
  for Z :: "('s::field, 'g::ab_group_add) zk" and h
  by unfold_locales (auto simp: cross_holds_def same_value_def intro!: two_extract split: prod.splits)

lemma verify_same_value_iff:
  assumes "lawful Z"
  shows "fst (verify_same_value Z key T g1 g2 c1 c2 p) \<longleftrightarrow>
     cross_holds Z (gen_h key) (g1, g2, c1, c2) (cg_t_first p, cg_t_second p)
       (fst (cross_challenge Z T g1 g2 c1 c2 (cg_t_first p) (cg_t_second p)))
       (cg_z_value p, cg_z_first p, cg_z_second p)"
  using assms eight_terms[OF assms, where w = 1 and w' = 1]
  by (simp add: verify_same_value_def same_value_terms_def cross_holds_def Let_def lawful_smul
      split: prod.splits)

lemma same_value_complete:
  assumes Z: "lawful Z" and "same_value Z (gen_h key) (g1, g2, c1, c2) (v, r1, r2)"
  shows "fst (verify_same_value Z key T g1 g2 c1 c2
               (fst (prove_same_value Z key T g1 g2 c1 c2 v r1 r2 k k1 k2)))"
  unfolding verify_same_value_iff[OF Z] using Z assms(2)
  by (simp add: prove_same_value_def cross_holds_def same_value_def Let_def lawful_smul algebra_simps
      split: prod.splits)

section \<open>Products\<close>

definition product_holds ::
  "('s::field, 'g::ab_group_add) zk \<Rightarrow> 'g pedersen \<Rightarrow> 'g \<times> 'g \<times> 'g \<Rightarrow> 'g \<times> 'g \<Rightarrow> 's \<Rightarrow> 's \<times> 's \<times> 's \<Rightarrow> bool" where
  "product_holds Z key s t c z \<longleftrightarrow>
     (case (s, t, z) of ((c_a, c_b, c_c), (tf, tp), (b, rb, u)) \<Rightarrow>
        lawful Z \<and> commit Z key b rb = tf + smul Z c c_b
        \<and> smul Z b c_a + smul Z u (gen_h key) = tp + smul Z c c_c)"

text \<open>\<open>c_b\<close> opens to a factor \<open>b\<close>, and \<open>c_c\<close> is that multiple of \<open>c_a\<close> up to blinding.\<close>

definition multiplies ::
  "('s::field, 'g::ab_group_add) zk \<Rightarrow> 'g pedersen \<Rightarrow> 'g \<times> 'g \<times> 'g \<Rightarrow> 's \<times> 's \<times> 's \<Rightarrow> bool" where
  "multiplies Z key s w \<longleftrightarrow>
     (case (s, w) of ((c_a, c_b, c_c), (b, rb, u)) \<Rightarrow>
        c_b = commit Z key b rb \<and> c_c = smul Z b c_a + smul Z u (gen_h key))"

interpretation multiplied: sigma_check "product_holds Z key" "multiplies Z key"
  "\<lambda>c z d y. case (z, y) of ((v, r1, r2), (v', r1', r2')) \<Rightarrow>
     ((v - v') / (c - d), (r1 - r1') / (c - d), (r2 - r2') / (c - d))"
  for Z :: "('s::field, 'g::ab_group_add) zk" and key
  by unfold_locales
    (auto simp: product_holds_def multiplies_def intro!: two_extract commit_extract split: prod.splits)

lemma multiplies_product:
  assumes Z: "lawful Z" and "multiplies Z key (c_a, c_b, c_c) (b, rb, u)" and "c_a = commit Z key a ra"
  shows "c_c = commit Z key (a * b) (ra * b + u)"
  using assms by (simp add: multiplies_def commit_def lawful_smul algebra_simps)

lemma verify_product_iff:
  assumes "lawful Z"
  shows "fst (verify_product Z key T c_a c_b c_c p) \<longleftrightarrow>
     product_holds Z key (c_a, c_b, c_c) (pp_t_factor p, pp_t_product p)
       (fst (product_challenge Z T c_a c_b c_c (pp_t_factor p) (pp_t_product p)))
       (pp_z_b p, pp_z_rb p, pp_z_s p)"
  using assms eight_terms[OF assms, where w = 1 and w' = 1]
  by (simp add: verify_product_def product_terms_def product_holds_def Let_def lawful_smul commit_def
      split: prod.splits)

lemma product_complete:
  assumes Z: "lawful Z" and "c_a = commit Z key a ra"
  shows "fst (verify_product Z key T c_a (commit Z key b rb) (commit Z key (a * b) rc)
               (fst (prove_product Z key T c_a a ra b rb rc k_b k_rb k_s)))"
  unfolding verify_product_iff[OF Z] using Z assms(2)
  by (simp add: prove_product_def product_holds_def Let_def commit_def lawful_smul algebra_simps
      split: prod.splits)

section \<open>Weighted batches\<close>

text \<open>
  A verifier that adds the two weighted equations of a proof checks \<open>w * E1 + w\<^sup>2 * E2 = 0\<close> for
  their defects \<open>E1\<close> and \<open>E2\<close>. If the proof is bad, at most one non-zero weight hides it.
\<close>

lemma bad_weights:
  assumes Z: "lawful Z" and "E1 \<noteq> 0 \<or> E2 \<noteq> 0"
  shows "\<exists>w0. {w. smul Z w E1 + smul Z (w * w) E2 = 0} \<subseteq> {0, w0}"
proof -
  have one: "w = w'" if "w \<noteq> 0" "w' \<noteq> 0" and w: "smul Z w E1 + smul Z (w * w) E2 = 0"
    and w': "smul Z w' E1 + smul Z (w' * w') E2 = 0" for w w'
  proof -
    have e: "E1 + smul Z v E2 = 0" if v: "v \<noteq> 0" "smul Z v E1 + smul Z (v * v) E2 = 0" for v
    proof -
      have "smul Z (inverse v) (smul Z v E1 + smul Z (v * v) E2) = 0"
        using v(2) by (simp add: lawful_smul[OF Z])
      moreover have "inverse v * (v * v) = v" using v(1) by (simp add: mult.assoc[symmetric])
      ultimately show ?thesis using v(1) by (simp add: lawful_smul(2-4)[OF Z])
    qed
    have "smul Z (w - w') E2 = 0"
      using e[OF that(1) w] e[OF that(2) w'] by (simp add: lawful_smul[OF Z] add_eq_0_iff)
    then have "w = w' \<or> E2 = 0"
      using lawful_smul(3,4,6)[OF Z] by (metis eq_iff_diff_eq_0 left_inverse)
    moreover have "E2 \<noteq> 0" using e[OF that(1) w] assms(2) by (auto simp: lawful_smul[OF Z])
    ultimately show ?thesis by simp
  qed
  show ?thesis
  proof (cases "\<exists>w0. w0 \<noteq> 0 \<and> smul Z w0 E1 + smul Z (w0 * w0) E2 = 0")
    case True
    then obtain w0 where "w0 \<noteq> 0" "smul Z w0 E1 + smul Z (w0 * w0) E2 = 0" by blast
    with one show ?thesis by blast
  qed blast
qed

lemma msm_append:
  assumes "length ss = length ps"
  shows "msm Z (ss @ ss') (ps @ ps') = (case (msm Z ss ps, msm Z ss' ps') of
           (Some a, Some b) \<Rightarrow> Some (a + b) | _ \<Rightarrow> None)"
  using assms by (simp add: msm_def)

definition defect ::
  "('s::field, 'g::ab_group_add) zk \<Rightarrow> 's \<Rightarrow> 's \<Rightarrow> 's \<Rightarrow> 'g \<Rightarrow> 'g \<Rightarrow> 'g \<Rightarrow> 'g \<Rightarrow> 'g" where
  "defect Z a b c p q t C = smul Z a p + smul Z b q - t - smul Z c C"

lemma weighted_terms:
  assumes "lawful Z"
  shows "msm Z [w * a, w * b, - w, - (w * c), w * w * a', w * w * b', - (w * w), - (w * w * c)]
             [p, q, t, C, p', q', t', C']
         = Some (smul Z w (defect Z a b c p q t C) + smul Z (w * w) (defect Z a' b' c p' q' t' C'))"
  using assms by (simp add: msm_def defect_def lawful_smul algebra_simps)

lemma weighted_pair:
  assumes Z: "lawful Z"
    and bad: "\<not> halves_hold Z [a, b, - 1, - c, a', b', - 1, - c] [p, q, t, C, p', q', t', C']"
  shows "\<exists>w0. {w. msm Z [w * a, w * b, - w, - (w * c), w * w * a', w * w * b', - (w * w), - (w * w * c)]
             [p, q, t, C, p', q', t', C'] = Some 0} \<subseteq> {0, w0}"
proof -
  have "defect Z a b c p q t C \<noteq> 0 \<or> defect Z a' b' c p' q' t' C' \<noteq> 0"
    using bad eight_terms[OF Z, of a b 1 c a' b' 1] by (auto simp: defect_def lawful_smul[OF Z] algebra_simps)
  from bad_weights[OF Z this] show ?thesis by (simp add: weighted_terms[OF Z])
qed

lemma batch_verify_push:
  assumes "length ss = length ps" and "batch_verify Z b = Some True" and "msm Z ss ps = Some 0"
    and "length (batch_scalars b) = length (batch_points b)"
  shows "batch_verify Z (batch_push ss ps b) = Some True"
  using assms by (auto simp: batch_verify_def batch_push_def msm_append msm_def[of Z "[]" "[]"] split: if_splits)

section \<open>Linear relations\<close>

lemma sum_list_commit:
  assumes Z: "lawful Z" and "length vs = length cs" and "length rs = length cs"
  shows "sum_list (map2 (smul Z) cs (map2 (commit Z key) vs rs))
           = commit Z key (sum_list (map2 (*) cs vs)) (sum_list (map2 (*) cs rs))"
  using assms(2,3)
proof (induction cs arbitrary: vs rs)
  case Nil
  then show ?case by (simp add: commit_def lawful_smul[OF Z])
next
  case (Cons c cs)
  then obtain v vs' r rs' where "vs = v # vs'" "rs = r # rs'"
    by (metis length_Suc_conv)
  with Cons show ?case by (simp add: commit_def lawful_smul[OF Z] algebra_simps)
qed

lemma linear_residual_commit:
  assumes Z: "lawful Z" and "length vs = length cs" and "length rs = length cs"
  shows "linear_residual Z key (map2 (commit Z key) vs rs) cs k
           = Some (commit Z key (sum_list (map2 (*) cs vs) - k) (sum_list (map2 (*) cs rs)))"
  using sum_list_commit[OF assms] assms(2,3)
  by (simp add: linear_residual_def msm_def commit_def lawful_smul[OF Z])

lemma linear_complete:
  assumes Z: "lawful Z" and "length vs = length cs" and "length rs = length cs"
    and "sum_list (map2 (*) cs vs) = k"
  shows "\<exists>p T'. prove_linear Z key T (map2 (commit Z key) vs rs) cs rs k k_value k_blinding = Some (p, T')
           \<and> fst (verify_linear Z key T (map2 (commit Z key) vs rs) cs k p)"
proof -
  let ?C = "smul Z (sum_list (map2 (*) cs rs)) (gen_h key)"
  have "linear_residual Z key (map2 (commit Z key) vs rs) cs k = Some ?C"
    using linear_residual_commit[OF assms(1-3)] assms(4) by (simp add: commit_def lawful_smul[OF Z])
  then show ?thesis
    using zero_opening_complete[OF Z refl, where key = key and T = T
        and r = "sum_list (map2 (*) cs rs)" and k_value = k_value and k_blinding = k_blinding]
    by (cases "prove_zero_opening Z key T ?C (sum_list (map2 (*) cs rs)) k_value k_blinding")
      (simp add: prove_linear_def verify_linear_def)
qed

section \<open>Bits\<close>

definition bit_holds ::
  "('s::field, 'g::ab_group_add) zk \<Rightarrow> 'g pedersen \<Rightarrow> 'g \<Rightarrow> 'g \<times> 'g \<Rightarrow> 's \<Rightarrow> 's \<times> 's \<times> 's \<Rightarrow> bool" where
  "bit_holds Z key C t tot z \<longleftrightarrow>
     (case (t, z) of ((t0, t1), (c0, z0, z1)) \<Rightarrow>
        lawful Z \<and> smul Z z0 (gen_h key) = t0 + smul Z c0 C
        \<and> smul Z z1 (gen_h key) = t1 + smul Z (tot - c0) (C - gen_g key))"

definition commits_bit :: "('s::field, 'g::ab_group_add) zk \<Rightarrow> 'g pedersen \<Rightarrow> 'g \<Rightarrow> bool \<times> 's \<Rightarrow> bool" where
  "commits_bit Z key C w \<longleftrightarrow> C = commit Z key (if fst w then 1 else 0) (snd w)"

lemma commits_bit_shift:
  assumes "lawful Z" and "C - gen_g key = smul Z r (gen_h key)"
  shows "commits_bit Z key C (True, r)"
  using assms by (simp add: commits_bit_def commit_def lawful_smul algebra_simps)

interpretation bits: sigma_check "bit_holds Z key" "commits_bit Z key"
  "\<lambda>c z d y. case (z, y) of ((c0, z0, z1), (d0, y0, y1)) \<Rightarrow>
     if c0 \<noteq> d0 then (False, (z0 - y0) / (c0 - d0)) else (True, (z1 - y1) / ((c - c0) - (d - d0)))"
  for Z :: "('s::field, 'g::ab_group_add) zk" and key
proof unfold_locales
  fix C :: 'g and t c z d y
  assume a: "bit_holds Z key C t c z" and b: "bit_holds Z key C t d y" and ne: "c \<noteq> d"
  obtain t0 t1 c0 z0 z1 d0 y0 y1 where tz: "t = (t0, t1)" "z = (c0, z0, z1)" "y = (d0, y0, y1)"
    by (cases t, cases z, cases y) auto
  have Z: "lawful Z" using a by (auto simp: bit_holds_def split: prod.splits)
  note ab = a[unfolded bit_holds_def tz prod.case] b[unfolded bit_holds_def tz prod.case]
  show "commits_bit Z key C (case (z, y) of ((c0, z0, z1), (d0, y0, y1)) \<Rightarrow>
      if c0 \<noteq> d0 then (False, (z0 - y0) / (c0 - d0)) else (True, (z1 - y1) / ((c - c0) - (d - d0))))"
  proof (cases "c0 = d0")
    case True
    with ne have "c - c0 \<noteq> d - d0" by simp
    then have "C - gen_g key = smul Z ((z1 - y1) / ((c - c0) - (d - d0))) (gen_h key)"
      using ab by (intro blinding_extract[OF Z]) auto
    from commits_bit_shift[OF Z this] True show ?thesis by (simp add: tz)
  next
    case False
    then have "C = smul Z ((z0 - y0) / (c0 - d0)) (gen_h key)"
      using ab by (intro blinding_extract[OF Z]) auto
    then show ?thesis using False by (simp add: tz commits_bit_def commit_def lawful_smul[OF Z])
  qed
qed

lemma verify_bit_iff:
  assumes "lawful Z"
  shows "fst (verify_bit Z key T C p) \<longleftrightarrow>
     bit_holds Z key C (bp_t0 p, bp_t1 p) (fst (bit_challenge Z T C (bp_t0 p) (bp_t1 p)))
       (bp_c0 p, bp_z0 p, bp_z1 p)"
  using assms by (simp add: verify_bit_def bit_holds_def Let_def split: prod.splits)

lemma bit_complete:
  assumes Z: "lawful Z" and "commits_bit Z key C (b, r)"
  shows "fst (verify_bit Z key T C (fst (prove_bit Z key T C b r k c_fake z_fake)))"
  unfolding verify_bit_iff[OF Z] using Z assms(2)
  by (auto simp: prove_bit_def bit_holds_def commits_bit_def commit_def Let_def lawful_smul algebra_simps
      split: prod.splits if_splits)

end
