(* ===== verification/Bitrange.thy ===== *)
theory Bitrange
  imports Sigma_Protocols
begin

text \<open>
  \<^verbatim>\<open>src/rust/zkfmi-zk/src/bitrange.rs\<close>: range proofs by bit decomposition, one bit proof per
  little-endian bit and an opening of the residual that links the bits to the commitment. The
  random generator is the sequence of scalars it yields; a signed integer is its two's complement
  word, read by \<open>sint\<close>.
\<close>

type_synonym i64 = "64 word"

datatype range_error =
    BitWidthExceedsIndex | ValueOutsideRange | EmptyInterval | ValueOutsideInterval | IntervalTooWide

record ('s, 'g) range_proof =
  rp_bit_commitments :: "'g list"
  rp_bit_proofs :: "('s, 'g) bit_proof list"
  rp_linkage :: "('s, 'g) opening_proof"
  rp_bits :: nat

record ('s, 'g) bounded_proof =
  bd_above :: "('s, 'g) range_proof"
  bd_below :: "('s, 'g) range_proof"
  bd_bits :: nat

definition component_transcript :: "bytes \<Rightarrow> transcript" where
  "component_transcript context =
     append_message (ascii ''context'') context (transcript_new (ascii ''qomm:bitrange:v1''))"

definition bit_context :: "bytes \<Rightarrow> nat \<Rightarrow> range_error + bytes" where
  "bit_context context index =
     (if index < 2 ^ 16
      then Inr (context @ ascii '':bit:'' @ u16_be (word_of_nat index))
      else Inl BitWidthExceedsIndex)"

definition suffixed_context :: "bytes \<Rightarrow> bytes \<Rightarrow> bytes" where
  "suffixed_context context suffix = context @ suffix"

definition value_fits :: "u64 \<Rightarrow> nat \<Rightarrow> bool" where
  "value_fits v bits \<longleftrightarrow> 64 \<le> bits \<or> unat v < 2 ^ bits"

text \<open>The loop \<open>aggregate += c * weight; weight += weight\<close>.\<close>

definition weighted_sum :: "('s::field, 'g::ab_group_add) zk \<Rightarrow> 'g list \<Rightarrow> 'g" where
  "weighted_sum Z cs = fst (foldl (\<lambda>(a, w) c. (a + smul Z w c, w + w)) (0, 1) cs)"

definition weighted_scalars :: "'s::field list \<Rightarrow> 's" where
  "weighted_scalars rs = fst (foldl (\<lambda>(a, w) r. (a + r * w, w + w)) (0, 1) rs)"

definition bit_values :: "u64 \<Rightarrow> nat \<Rightarrow> bool list" where
  "bit_values v bits = map (\<lambda>i. i < 64 \<and> odd (unat v div 2 ^ i)) [0..<bits]"

definition prove_range ::
  "('s::field, 'g::ab_group_add) zk \<Rightarrow> 'g pedersen \<Rightarrow> 'g \<Rightarrow> u64 \<Rightarrow> 's \<Rightarrow> nat \<Rightarrow> bytes \<Rightarrow> (nat \<Rightarrow> 's)
    \<Rightarrow> range_error + ('s, 'g) range_proof" where
  "prove_range Z key C v r bits context rng =
     and_then (refuse_if (\<not> value_fits v bits) ValueOutsideRange) (\<lambda>_.
     and_then (refuse_if (2 ^ 16 < bits) BitWidthExceedsIndex) (\<lambda>_.
       let bit_blindings = map rng [0..<bits];
           values = bit_values v bits;
           bit_commitments = map2 (\<lambda>b. commit Z key (of_bool b)) values bit_blindings
       in and_then (try_map (\<lambda>(i, (b, br), bc).
              and_then (bit_context context i) (\<lambda>ctx.
              Inr (fst (prove_bit Z key (component_transcript ctx) bc b br
                     (rng (bits + 3 * i)) (rng (bits + 3 * i + 1)) (rng (bits + 3 * i + 2))))))
            (enumerate 0 (zip (zip values bit_blindings) bit_commitments))) (\<lambda>bit_proofs.
          let aggregate = weighted_sum Z bit_commitments;
              combined_blinding = weighted_scalars bit_blindings;
              residual = C - aggregate;
              residual_blinding = r - combined_blinding;
              T = component_transcript (suffixed_context context (ascii '':link''));
              linkage = fst (prove_zero_opening Z key T residual residual_blinding
                               (rng (4 * bits)) (rng (4 * bits + 1)))
          in Inr \<lparr>rp_bit_commitments = bit_commitments, rp_bit_proofs = bit_proofs,
                  rp_linkage = linkage, rp_bits = bits\<rparr>)))"

definition verify_range ::
  "('s::field, 'g::ab_group_add) zk \<Rightarrow> 'g pedersen \<Rightarrow> 'g \<Rightarrow> ('s, 'g) range_proof \<Rightarrow> bytes \<Rightarrow> bool" where
  "verify_range Z key C p context =
     (if length (rp_bit_commitments p) \<noteq> rp_bits p \<or> length (rp_bit_proofs p) \<noteq> rp_bits p then False
      else if \<not> list_all (\<lambda>(i, bc, bp).
             case bit_context context i of
               Inl _ \<Rightarrow> False
             | Inr ctx \<Rightarrow> fst (verify_bit Z key (component_transcript ctx) bc bp))
           (enumerate 0 (zip (rp_bit_commitments p) (rp_bit_proofs p))) then False
      else
        let residual = C - weighted_sum Z (rp_bit_commitments p);
            T = component_transcript (suffixed_context context (ascii '':link''))
        in fst (verify_zero_opening Z key T residual (rp_linkage p)))"

section \<open>Intervals\<close>

definition scalar_from_i64 :: "i64 \<Rightarrow> 's::field" where
  "scalar_from_i64 v = (if 0 \<le> sint v then of_nat (unat v) else - of_nat (nat (- sint v)))"

text \<open>\<open>u64::BITS - span.leading_zeros()\<close>.\<close>

fun bit_length :: "nat \<Rightarrow> nat" where
  "bit_length n = (if n = 0 then 0 else Suc (bit_length (n div 2)))"

declare bit_length.simps [simp del]

definition interval :: "i64 \<Rightarrow> i64 \<Rightarrow> i64 \<Rightarrow> range_error + (u64 \<times> u64 \<times> nat)" where
  "interval v low high =
     (let span = sint high - sint low in
      and_then (refuse_if (span < 0) EmptyInterval) (\<lambda>_.
      and_then (refuse_if (sint v < sint low \<or> sint high < sint v) ValueOutsideInterval) (\<lambda>_.
      and_then (if span < 2 ^ 64 then Inr (word_of_int span) else Inl IntervalTooWide) (\<lambda>width.
      and_then (if 0 \<le> sint v - sint low \<and> sint v - sint low < 2 ^ 64
                then Inr (word_of_int (sint v - sint low)) else Inl ValueOutsideInterval) (\<lambda>above.
      Inr (width, above, max (bit_length (unat width)) 1))))))"

definition shift_commitment :: "('s::field, 'g::ab_group_add) zk \<Rightarrow> 'g pedersen \<Rightarrow> 'g \<Rightarrow> i64 \<Rightarrow> 'g" where
  "shift_commitment Z key C low = C - smul Z (scalar_from_i64 low) (gen_g key)"

text \<open>The draws of the second range proof follow those of the first, \<open>4 * bits + 2\<close> of them.\<close>

definition prove_bounded ::
  "('s::field, 'g::ab_group_add) zk \<Rightarrow> 'g pedersen \<Rightarrow> i64 \<Rightarrow> 's \<Rightarrow> i64 \<Rightarrow> i64 \<Rightarrow> bytes \<Rightarrow> (nat \<Rightarrow> 's)
    \<Rightarrow> range_error + ('g \<times> ('s, 'g) bounded_proof \<times> nat)" where
  "prove_bounded Z key v r low high context rng =
     and_then (interval v low high) (\<lambda>(span, above_value, bits).
       let C = commit Z key (scalar_from_i64 v) r
       in and_then (prove_range Z key (shift_commitment Z key C low) above_value r bits
                      (suffixed_context context (ascii ''|above'')) rng) (\<lambda>above.
          let ceiling = commit Z key (scalar_from_i64 high) 0
          in and_then (prove_range Z key (ceiling - C) (span - above_value) (- r) bits
                         (suffixed_context context (ascii ''|below''))
                         (\<lambda>n. rng (4 * bits + 2 + n))) (\<lambda>below.
             Inr (C, \<lparr>bd_above = above, bd_below = below, bd_bits = bits\<rparr>, bits))))"

definition verify_bounded ::
  "('s::field, 'g::ab_group_add) zk \<Rightarrow> 'g pedersen \<Rightarrow> 'g \<Rightarrow> ('s, 'g) bounded_proof \<Rightarrow> i64 \<Rightarrow> i64 \<Rightarrow> bytes
    \<Rightarrow> bool" where
  "verify_bounded Z key C p low high context =
     (let span = sint high - sint low
      in if span < 0 then False
         else if \<not> span < 2 ^ 64 then False
         else let bits = max (bit_length (nat span)) 1
              in if bd_bits p \<noteq> bits then False
                 else if rp_bits (bd_above p) \<noteq> bits \<or> rp_bits (bd_below p) \<noteq> bits then False
                 else if \<not> verify_range Z key (shift_commitment Z key C low) (bd_above p)
                             (suffixed_context context (ascii ''|above'')) then False
                 else verify_range Z key (commit Z key (scalar_from_i64 high) 0 - C) (bd_below p)
                        (suffixed_context context (ascii ''|below'')))"

end
