(* ===== verification/Bitrange_Sound.thy ===== *)
theory Bitrange_Sound
  imports Bitrange
begin

text \<open>
  Range proofs by bit decomposition: an honest proof of a value that fits is accepted, and two
  accepted proofs with the same first moves and different challenges at every leaf determine an
  opening of the commitment to a number below \<open>2 ^ bits\<close>.
\<close>

section \<open>Weighted sums\<close>

fun horner_points :: "('s::field, 'g::ab_group_add) zk \<Rightarrow> 'g list \<Rightarrow> 'g" where
  "horner_points Z [] = 0"
| "horner_points Z (c # cs) = c + smul Z 2 (horner_points Z cs)"

fun horner_scalars :: "'s::field list \<Rightarrow> 's" where
  "horner_scalars [] = 0"
| "horner_scalars (r # rs) = r + 2 * horner_scalars rs"

fun bits_value :: "bool list \<Rightarrow> nat" where
  "bits_value [] = 0"
| "bits_value (b # bs) = of_bool b + 2 * bits_value bs"

lemma weighted_sum_horner: "lawful Z \<Longrightarrow> weighted_sum Z cs = horner_points Z cs"
proof -
  assume Z: "lawful Z"
  have "fst (foldl (\<lambda>(a, w) c. (a + smul Z w c, w + w)) (a0, w0) cs) = a0 + smul Z w0 (horner_points Z cs)"
    for a0 w0
    by (induction cs arbitrary: a0 w0) (simp_all add: lawful_smul[OF Z] algebra_simps)
  then show ?thesis by (simp add: weighted_sum_def lawful_smul[OF Z])
qed

lemma weighted_scalars_horner: "weighted_scalars rs = horner_scalars rs"
proof -
  have "fst (foldl (\<lambda>(a, w) r. (a + r * w, w + w)) (a0, w0) rs) = a0 + w0 * horner_scalars rs"
    for a0 w0 :: 'a
    by (induction rs arbitrary: a0 w0) (simp_all add: algebra_simps)
  then show ?thesis by (simp add: weighted_scalars_def)
qed

lemma horner_commit:
  assumes Z: "lawful Z" and "length bs = length rs"
  shows "horner_points Z (map2 (\<lambda>b. commit Z key (of_bool b)) bs rs)
           = commit Z key (of_nat (bits_value bs)) (horner_scalars rs)"
  using assms(2)
proof (induction bs rs rule: list_induct2)
  case Nil
  then show ?case by (simp add: commit_def lawful_smul[OF Z])
next
  case (Cons b bs r rs)
  then show ?case by (simp add: commit_def lawful_smul[OF Z] algebra_simps)
qed

lemma bits_value_less: "bits_value bs < 2 ^ length bs"
  by (induction bs) auto

lemma bits_value_upt: "bits_value (map (\<lambda>i. odd (v div 2 ^ i)) [0..<n]) = v mod 2 ^ n"
proof (induction n arbitrary: v)
  case (Suc n)
  have up: "[0..<Suc n] = 0 # map Suc [0..<n]" by (simp add: map_Suc_upt upt_conv_Cons)
  have "bits_value (map (\<lambda>i. odd (v div 2 ^ i)) [0..<Suc n])
      = of_bool (odd v) + 2 * bits_value (map (\<lambda>i. odd ((v div 2) div 2 ^ i)) [0..<n])"
    unfolding up by (simp add: o_def div_mult2_eq[symmetric] del: upt_Suc)
  also have "\<dots> = v mod 2 ^ Suc n"
    using Suc.IH[of "v div 2"] mod_mult2_eq[of v 2 "2 ^ n"] by (simp add: odd_iff_mod_2_eq_one)
  finally show ?case .
qed simp

lemma bits_value_fits:
  assumes "value_fits v bits"
  shows "bits_value (bit_values v bits) = unat v"
proof -
  have big: "unat v div 2 ^ i = 0" if "64 \<le> i" for i
  proof -
    have "unat v < 2 ^ 64" using unat_bound[of v] by simp
    also have "(2::nat) ^ 64 \<le> 2 ^ i" by (rule power_increasing[OF that]) simp
    finally show ?thesis by simp
  qed
  have "(i < 64 \<and> odd (unat v div 2 ^ i)) = odd (unat v div 2 ^ i)" for i
    using big[of i] by (cases "i < 64") auto
  then have "bits_value (bit_values v bits) = unat v mod 2 ^ bits"
    by (simp add: bit_values_def bits_value_upt)
  moreover have "unat v < 2 ^ bits"
    using assms big[of bits] by (auto simp: value_fits_def div_eq_0_iff)
  ultimately show ?thesis by simp
qed

section \<open>Completeness\<close>

lemma bit_context_ok: "i < 2 ^ 16 \<Longrightarrow> \<exists>ctx. bit_context context i = Inr ctx"
  by (simp add: bit_context_def)

lemma length_bit_values [simp]: "length (bit_values v bits) = bits"
  by (simp add: bit_values_def)

lemma prove_range_accepted:
  assumes "value_fits v bits" and "bits \<le> 2 ^ 16"
  obtains p where "prove_range Z key C v r bits context rng = Inr p"
proof -
  let ?bl = "map rng [0..<bits]"
  let ?cs = "map2 (\<lambda>b. commit Z key (of_bool b)) (bit_values v bits) ?bl"
  have "\<exists>ps. try_map (\<lambda>(i, (b, br), bc). and_then (bit_context context i) (\<lambda>ctx.
           Inr (fst (prove_bit Z key (component_transcript ctx) bc b br
             (rng (bits + 3 * i)) (rng (bits + 3 * i + 1)) (rng (bits + 3 * i + 2))))))
         (enumerate 0 (zip (zip (bit_values v bits) ?bl) ?cs)) = Inr ps"
    using assms(2) by (intro try_map_total) (auto simp: in_set_enumerate_eq bit_context_def)
  then show thesis using assms that by (auto simp: prove_range_def Let_def)
qed

lemma prove_range_ok:
  assumes "prove_range Z key C v r bits context rng = Inr p"
  shows "value_fits v bits" and "bits \<le> 2 ^ 16" and "rp_bits p = bits"
    and "rp_bit_commitments p
           = map2 (\<lambda>b. commit Z key (of_bool b)) (bit_values v bits) (map rng [0..<bits])"
    and "length (rp_bit_proofs p) = bits"
    and "i < bits \<Longrightarrow> \<exists>ctx. bit_context context i = Inr ctx \<and>
           rp_bit_proofs p ! i = fst (prove_bit Z key (component_transcript ctx)
             (rp_bit_commitments p ! i) (bit_values v bits ! i) (rng i)
             (rng (bits + 3 * i)) (rng (bits + 3 * i + 1)) (rng (bits + 3 * i + 2)))"
    and "rp_linkage p = fst (prove_zero_opening Z key
           (component_transcript (suffixed_context context (ascii '':link'')))
           (C - weighted_sum Z (rp_bit_commitments p)) (r - weighted_scalars (map rng [0..<bits]))
           (rng (4 * bits)) (rng (4 * bits + 1)))"
proof -
  let ?bl = "map rng [0..<bits]"
  let ?cs = "map2 (\<lambda>b. commit Z key (of_bool b)) (bit_values v bits) ?bl"
  let ?f = "\<lambda>(i, (b, br), bc). and_then (bit_context context i) (\<lambda>ctx.
           Inr (fst (prove_bit Z key (component_transcript ctx) bc b br
             (rng (bits + 3 * i)) (rng (bits + 3 * i + 1)) (rng (bits + 3 * i + 2)))))"
  let ?xs = "enumerate 0 (zip (zip (bit_values v bits) ?bl) ?cs)"
  from assms have fits: "value_fits v bits" "bits \<le> 2 ^ 16"
    by (auto simp: prove_range_def result_simps)
  from assms obtain ps where ps: "try_map ?f ?xs = Inr ps"
    and p: "p = \<lparr>rp_bit_commitments = ?cs, rp_bit_proofs = ps,
      rp_linkage = fst (prove_zero_opening Z key
        (component_transcript (suffixed_context context (ascii '':link'')))
        (C - weighted_sum Z ?cs) (r - weighted_scalars ?bl) (rng (4 * bits)) (rng (4 * bits + 1))),
      rp_bits = bits\<rparr>"
    by (auto simp: prove_range_def result_simps Let_def)
  from try_map_nth[OF ps] have len: "length ps = bits" and nth: "i < bits \<Longrightarrow> ?f (?xs ! i) = Inr (ps ! i)" for i
    by auto
  show "value_fits v bits" "bits \<le> 2 ^ 16" by (fact fits)+
  show "rp_bits p = bits" "rp_bit_commitments p = ?cs" "length (rp_bit_proofs p) = bits"
    "rp_linkage p = fst (prove_zero_opening Z key
           (component_transcript (suffixed_context context (ascii '':link'')))
           (C - weighted_sum Z (rp_bit_commitments p)) (r - weighted_scalars ?bl)
           (rng (4 * bits)) (rng (4 * bits + 1)))"
    by (simp_all add: p len)
  show "\<exists>ctx. bit_context context i = Inr ctx \<and>
           rp_bit_proofs p ! i = fst (prove_bit Z key (component_transcript ctx)
             (rp_bit_commitments p ! i) (bit_values v bits ! i) (rng i)
             (rng (bits + 3 * i)) (rng (bits + 3 * i + 1)) (rng (bits + 3 * i + 2)))" if "i < bits"
    using nth[OF that] that by (auto simp: p nth_enumerate_eq result_simps)
qed

lemma range_complete:
  assumes Z: "lawful Z" and C: "C = commit Z key (of_nat (unat v)) r"
    and ok: "prove_range Z key C v r bits context rng = Inr p"
  shows "verify_range Z key C p context"
proof -
  note P = prove_range_ok[OF ok]
  have len: "length (rp_bit_commitments p) = bits" by (simp add: P(4))
  have "case bit_context context i of Inl _ \<Rightarrow> False
      | Inr ctx \<Rightarrow> fst (verify_bit Z key (component_transcript ctx) (rp_bit_commitments p ! i)
                       (rp_bit_proofs p ! i))" if "i < bits" for i
  proof -
    have "rp_bit_commitments p ! i = commit Z key (of_bool (bit_values v bits ! i)) (rng i)"
      using that by (simp add: P(4))
    then have "commits_bit Z key (rp_bit_commitments p ! i) (bit_values v bits ! i, rng i)"
      by (simp add: commits_bit_def of_bool_def)
    from bit_complete[OF Z this] P(6)[OF that] show ?thesis by auto
  qed
  then have "list_all (\<lambda>(i, bc, bp). case bit_context context i of Inl _ \<Rightarrow> False
      | Inr ctx \<Rightarrow> fst (verify_bit Z key (component_transcript ctx) bc bp))
      (enumerate 0 (zip (rp_bit_commitments p) (rp_bit_proofs p)))"
    by (simp add: list_all_length nth_enumerate_eq len P(5))
  moreover have "C - weighted_sum Z (rp_bit_commitments p)
      = smul Z (r - weighted_scalars (map rng [0..<bits])) (gen_h key)"
    unfolding P(4) weighted_sum_horner[OF Z] weighted_scalars_horner
    by (subst horner_commit[OF Z])
      (simp_all add: C bits_value_fits[OF P(1)] commit_def lawful_smul[OF Z] algebra_simps)
  from zero_opening_complete[OF Z this] have "fst (verify_zero_opening Z key
      (component_transcript (suffixed_context context (ascii '':link'')))
      (C - weighted_sum Z (rp_bit_commitments p)) (rp_linkage p))"
    unfolding P(7) .
  ultimately show ?thesis by (simp add: verify_range_def P(3,5) len)
qed

section \<open>Soundness\<close>

text \<open>The challenges of the leaves of a proof, in order: one per bit, then the linkage.\<close>

definition range_first_moves :: "('s, 'g) range_proof \<Rightarrow> 'g list \<times> ('g \<times> 'g) list \<times> 'g" where
  "range_first_moves p =
     (rp_bit_commitments p, map (\<lambda>q. (bp_t0 q, bp_t1 q)) (rp_bit_proofs p), op_t (rp_linkage p))"

definition bit_leaf_challenge :: "('s, 'g) zk \<Rightarrow> bytes \<Rightarrow> ('s, 'g) range_proof \<Rightarrow> nat \<Rightarrow> 's" where
  "bit_leaf_challenge Z context p i =
     (case bit_context context i of
        Inl _ \<Rightarrow> undefined
      | Inr ctx \<Rightarrow> fst (bit_challenge Z (component_transcript ctx) (rp_bit_commitments p ! i)
                        (bp_t0 (rp_bit_proofs p ! i)) (bp_t1 (rp_bit_proofs p ! i))))"

definition link_challenge ::
  "('s::field, 'g::ab_group_add) zk \<Rightarrow> bytes \<Rightarrow> 'g \<Rightarrow> ('s, 'g) range_proof \<Rightarrow> 's" where
  "link_challenge Z context C p =
     zero_challenge Z (component_transcript (suffixed_context context (ascii '':link'')))
       (C - weighted_sum Z (rp_bit_commitments p)) (op_t (rp_linkage p))"

lemma verify_range_leaf:
  assumes Z: "lawful Z" and "verify_range Z key C p context"
  shows "length (rp_bit_commitments p) = rp_bits p" and "length (rp_bit_proofs p) = rp_bits p"
    and "i < rp_bits p \<Longrightarrow> bit_holds Z key (rp_bit_commitments p ! i)
           (bp_t0 (rp_bit_proofs p ! i), bp_t1 (rp_bit_proofs p ! i)) (bit_leaf_challenge Z context p i)
           (bp_c0 (rp_bit_proofs p ! i), bp_z0 (rp_bit_proofs p ! i), bp_z1 (rp_bit_proofs p ! i))"
    and "zero_holds Z key (C - weighted_sum Z (rp_bit_commitments p)) (op_t (rp_linkage p))
           (link_challenge Z context C p) (op_z_blinding (rp_linkage p))"
proof -
  show len: "length (rp_bit_commitments p) = rp_bits p" "length (rp_bit_proofs p) = rp_bits p"
    using assms(2) by (auto simp: verify_range_def split: if_splits)
  show "bit_holds Z key (rp_bit_commitments p ! i)
           (bp_t0 (rp_bit_proofs p ! i), bp_t1 (rp_bit_proofs p ! i)) (bit_leaf_challenge Z context p i)
           (bp_c0 (rp_bit_proofs p ! i), bp_z0 (rp_bit_proofs p ! i), bp_z1 (rp_bit_proofs p ! i))"
    if "i < rp_bits p"
  proof -
    have "case bit_context context i of Inl _ \<Rightarrow> False
      | Inr ctx \<Rightarrow> fst (verify_bit Z key (component_transcript ctx) (rp_bit_commitments p ! i)
                       (rp_bit_proofs p ! i))"
      using assms(2) that len
      by (auto simp: verify_range_def list_all_length nth_enumerate_eq split: if_splits)
    then show ?thesis
      using verify_bit_iff[OF Z] by (auto simp: bit_leaf_challenge_def split: sum.splits)
  qed
  show "zero_holds Z key (C - weighted_sum Z (rp_bit_commitments p)) (op_t (rp_linkage p))
           (link_challenge Z context C p) (op_z_blinding (rp_linkage p))"
    using assms(2) verify_zero_opening_iff[OF Z]
    by (auto simp: verify_range_def link_challenge_def Let_def split: if_splits)
qed

text \<open>Committed bits, linked to a commitment by a pure blinding, open it to a number of that width.\<close>

definition linked_opening :: "(nat \<Rightarrow> bool \<times> 's::field) \<Rightarrow> nat \<Rightarrow> 's \<Rightarrow> nat \<times> 's" where
  "linked_opening w n u =
     (bits_value (map (fst \<circ> w) [0..<n]), horner_scalars (map (snd \<circ> w) [0..<n]) + u)"

lemma linked_bits:
  assumes Z: "lawful Z" and len: "length cs = n"
    and w: "\<And>i. i < n \<Longrightarrow> commits_bit Z key (cs ! i) (w i)"
    and u: "C - weighted_sum Z cs = smul Z u (gen_h key)"
  shows "case linked_opening w n u of (m, r) \<Rightarrow> m < 2 ^ n \<and> C = commit Z key (of_nat m) r"
proof -
  let ?bs = "map (fst \<circ> w) [0..<n]" and ?rs = "map (snd \<circ> w) [0..<n]"
  have cmap: "cs = map2 (\<lambda>b. commit Z key (of_bool b)) ?bs ?rs"
    using w len by (intro nth_equalityI) (auto simp: commits_bit_def of_bool_def case_prod_unfold)
  have "C = commit Z key (of_nat (bits_value ?bs)) (horner_scalars ?rs + u)"
    using u horner_commit[OF Z, of ?bs ?rs key]
    unfolding weighted_sum_horner[OF Z] cmap
    by (simp add: commit_def lawful_smul[OF Z] algebra_simps)
  then show ?thesis using bits_value_less[of ?bs] by (simp add: linked_opening_def)
qed

text \<open>What the responses of two proofs with equal first moves give away.\<close>

definition bit_witness ::
  "('s::field, 'g) zk \<Rightarrow> ('s, 'g) zk \<Rightarrow> bytes \<Rightarrow> ('s, 'g) range_proof \<Rightarrow> ('s, 'g) range_proof \<Rightarrow> nat
    \<Rightarrow> bool \<times> 's" where
  "bit_witness Z Z' context p q i =
     (let c = bit_leaf_challenge Z context p i; d = bit_leaf_challenge Z' context q i;
          a = rp_bit_proofs p ! i; b = rp_bit_proofs q ! i
      in if bp_c0 a \<noteq> bp_c0 b then (False, (bp_z0 a - bp_z0 b) / (bp_c0 a - bp_c0 b))
         else (True, (bp_z1 a - bp_z1 b) / ((c - bp_c0 a) - (d - bp_c0 b))))"

definition range_witness ::
  "('s::field, 'g::ab_group_add) zk \<Rightarrow> ('s, 'g) zk \<Rightarrow> bytes \<Rightarrow> 'g \<Rightarrow> ('s, 'g) range_proof
    \<Rightarrow> ('s, 'g) range_proof \<Rightarrow> nat \<times> 's" where
  "range_witness Z Z' context C p q =
     linked_opening (bit_witness Z Z' context p q) (rp_bits p)
       ((op_z_blinding (rp_linkage p) - op_z_blinding (rp_linkage q))
          / (link_challenge Z context C p - link_challenge Z' context C q))"

lemma range_extract:
  assumes Z: "lawful Z" and Z': "lawful Z'" and sm: "smul Z' = smul Z"
    and p: "verify_range Z key C p context" and q: "verify_range Z' key C q context"
    and same: "range_first_moves q = range_first_moves p"
    and bits: "\<And>i. i < rp_bits p \<Longrightarrow> bit_leaf_challenge Z context p i \<noteq> bit_leaf_challenge Z' context q i"
    and link: "link_challenge Z context C p \<noteq> link_challenge Z' context C q"
  shows "case range_witness Z Z' context C p q of
           (n, r) \<Rightarrow> n < 2 ^ rp_bits p \<and> C = commit Z key (of_nat n) r"
  unfolding range_witness_def
proof (rule linked_bits[OF Z])
  note P = verify_range_leaf[OF Z p] and Q = verify_range_leaf[OF Z' q]
  have cs: "rp_bit_commitments q = rp_bit_commitments p"
    and ts: "map (\<lambda>q. (bp_t0 q, bp_t1 q)) (rp_bit_proofs q) = map (\<lambda>q. (bp_t0 q, bp_t1 q)) (rp_bit_proofs p)"
    and ot: "op_t (rp_linkage q) = op_t (rp_linkage p)"
    using same by (auto simp: range_first_moves_def)
  have wsum: "weighted_sum Z' = weighted_sum Z" by (rule ext) (simp add: weighted_sum_def sm)
  have nb: "rp_bits q = rp_bits p" using P(1) Q(1) cs by simp
  have t_eq: "(bp_t0 (rp_bit_proofs q ! i), bp_t1 (rp_bit_proofs q ! i))
      = (bp_t0 (rp_bit_proofs p ! i), bp_t1 (rp_bit_proofs p ! i))" if "i < rp_bits p" for i
    using arg_cong[OF ts, of "\<lambda>l. l ! i"] that P(2) Q(2) nb by simp
  have sub: "bit_holds Z' key = bit_holds Z key" "zero_holds Z' key = zero_holds Z key"
    using Z Z' by (auto simp: bit_holds_def zero_holds_def sm fun_eq_iff)
  show "length (rp_bit_commitments p) = rp_bits p" by (rule P(1))
  show "commits_bit Z key (rp_bit_commitments p ! i) (bit_witness Z Z' context p q i)"
    if "i < rp_bits p" for i
  proof -
    have "i < rp_bits q" using that nb by simp
    note Qi = Q(3)[OF this, unfolded sub(1) cs t_eq[OF that]]
    show ?thesis
      using bits.special_sound[OF P(3)[OF that] Qi bits[OF that]] by (simp add: bit_witness_def Let_def)
  qed
  show "C - weighted_sum Z (rp_bit_commitments p)
      = smul Z ((op_z_blinding (rp_linkage p) - op_z_blinding (rp_linkage q))
          / (link_challenge Z context C p - link_challenge Z' context C q)) (gen_h key)"
    using zeroed.special_sound[OF P(4) Q(4)[unfolded sub(2) cs ot wsum] link]
    unfolding pure_blinding_def .
qed

section \<open>Intervals\<close>

lemma scalar_from_i64_int: "(scalar_from_i64 v :: 's::field) = of_int (sint v)"
proof (cases "0 \<le> sint v")
  case True
  then have "int (unat v) = sint v"
    using uint_sint[of v] sint_lt[of v] by (simp add: take_bit_int_eq_self)
  then have "(of_nat (unat v) :: 's) = of_int (sint v)" by (metis of_int_of_nat_eq)
  with True show ?thesis by (simp add: scalar_from_i64_def)
next
  case False
  then have "(of_nat (nat (- sint v)) :: 's) = of_int (- sint v)" by (subst of_nat_nat) auto
  with False show ?thesis by (simp add: scalar_from_i64_def)
qed

lemma bit_length_bound: "n < 2 ^ bit_length n"
proof (induction n rule: bit_length.induct)
  case (1 n)
  then show ?case by (cases "n = 0") (auto simp: bit_length.simps[of n])
qed

lemma bit_length_le: "n < 2 ^ k \<Longrightarrow> bit_length n \<le> k"
proof (induction k arbitrary: n)
  case (Suc k)
  then have "n div 2 < 2 ^ k" by auto
  from Suc.IH[OF this] show ?case by (simp add: bit_length.simps[of n])
qed (simp add: bit_length.simps)

lemma int_unat_word_of_int: "0 \<le> x \<Longrightarrow> x < 2 ^ 64 \<Longrightarrow> int (unat (word_of_int x :: u64)) = x"
  by (simp add: uint_word_of_int)

lemma interval_ok:
  assumes "interval v low high = Inr (wd, up, bits)"
  shows "sint low \<le> sint v" "sint v \<le> sint high"
    and "int (unat wd) = sint high - sint low" and "int (unat up) = sint v - sint low"
    and "up \<le> wd" and "int (unat (wd - up)) = sint high - sint v"
    and "bits = max (bit_length (nat (sint high - sint low))) 1" and "bits \<le> 64"
    and "value_fits up bits" and "value_fits (wd - up) bits"
proof -
  from assms have le: "sint low \<le> sint v" "sint v \<le> sint high"
    and lt: "sint high - sint low < 2 ^ 64" and sp: "wd = word_of_int (sint high - sint low)"
    and ab: "up = word_of_int (sint v - sint low)" and b: "bits = max (bit_length (unat wd)) 1"
    by (auto simp: interval_def Let_def result_simps split: if_splits)
  show "sint low \<le> sint v" "sint v \<le> sint high" by (fact le)+
  show us: "int (unat wd) = sint high - sint low"
    unfolding sp using le lt by (intro int_unat_word_of_int) auto
  show ua: "int (unat up) = sint v - sint low"
    unfolding ab using le lt by (intro int_unat_word_of_int) auto
  show las: "up \<le> wd" using us ua le unfolding word_le_nat_alt by linarith
  then have ud: "unat (wd - up) = unat wd - unat up" by (simp add: unat_sub)
  then show "int (unat (wd - up)) = sint high - sint v"
    using us ua las unfolding word_le_nat_alt by linarith
  have nat: "nat (sint high - sint low) = unat wd" unfolding us[symmetric] by (rule nat_int)
  show "bits = max (bit_length (nat (sint high - sint low))) 1" by (simp add: b nat)
  have "bit_length (unat wd) \<le> 64" using bit_length_le[of "unat wd" 64] unat_bound[of wd] by simp
  then show "bits \<le> 64" by (simp add: b)
  have "(2::nat) ^ bit_length (unat wd) \<le> 2 ^ bits" by (rule power_increasing) (simp_all add: b)
  then have "unat wd < 2 ^ bits" by (rule less_le_trans[OF bit_length_bound])
  then show "value_fits up bits" "value_fits (wd - up) bits"
    using las ud by (auto simp: value_fits_def word_le_nat_alt)
qed

lemma span64: "sint high - sint low < 2 ^ 64" for high low :: i64
  using sint_lt[of high] sint_ge[of low] by simp

lemma interval_accepts:
  assumes "sint low \<le> sint v" and "sint v \<le> sint high"
  obtains wd up bits where "interval v low high = Inr (wd, up, bits)"
  using span64[of high low] assms that by (auto simp: interval_def Let_def)

lemma bounded_complete:
  assumes Z: "lawful Z" and v: "sint low \<le> sint v" "sint v \<le> sint high"
  shows "\<exists>C p bits. prove_bounded Z key v r low high context rng = Inr (C, p, bits)
           \<and> verify_bounded Z key C p low high context"
proof -
  obtain wd up bits where iv: "interval v low high = Inr (wd, up, bits)"
    using interval_accepts[OF v] .
  note I = interval_ok[OF iv]
  let ?C = "commit Z key (scalar_from_i64 v) r"
  let ?A = "shift_commitment Z key ?C low" and ?B = "commit Z key (scalar_from_i64 high) 0 - ?C"
  let ?ca = "suffixed_context context (ascii ''|above'')" and ?cb = "suffixed_context context (ascii ''|below'')"
  let ?rng = "\<lambda>n. rng (4 * bits + 2 + n)"
  have b16: "bits \<le> 2 ^ 16" using I(8) by simp
  obtain a where a: "prove_range Z key ?A up r bits ?ca rng = Inr a"
    using prove_range_accepted[OF I(9) b16] .
  obtain b where b: "prove_range Z key ?B (wd - up) (- r) bits ?cb ?rng = Inr b"
    using prove_range_accepted[OF I(10) b16] .
  have "sint v = sint low + int (unat up)" "sint high = sint v + int (unat (wd - up))"
    using I(4,6) by simp_all
  then have "(scalar_from_i64 v :: 'a) = scalar_from_i64 low + of_nat (unat up)"
    and "(scalar_from_i64 high :: 'a) = scalar_from_i64 v + of_nat (unat (wd - up))"
    unfolding scalar_from_i64_int by (metis of_int_add of_int_of_nat_eq)+
  then have "?A = commit Z key (of_nat (unat up)) r"
    and "?B = commit Z key (of_nat (unat (wd - up))) (- r)"
    unfolding shift_commitment_def commit_def by (simp_all only: lawful_smul[OF Z]) simp_all
  from range_complete[OF Z this(1) a] range_complete[OF Z this(2) b]
  have ok: "verify_range Z key ?A a ?ca" "verify_range Z key ?B b ?cb" .
  have "verify_bounded Z key ?C \<lparr>bd_above = a, bd_below = b, bd_bits = bits\<rparr> low high context"
    using ok I(1,2) span64[of high low] prove_range_ok(3)[OF a] prove_range_ok(3)[OF b] I(7)
    by (simp add: verify_bounded_def Let_def)
  moreover have "prove_bounded Z key v r low high context rng
      = Inr (?C, \<lparr>bd_above = a, bd_below = b, bd_bits = bits\<rparr>, bits)"
    unfolding prove_bounded_def iv and_then_Inr prod.case Let_def a b ..
  ultimately show ?thesis by blast
qed

lemma bounded_ranges:
  assumes "verify_bounded Z key C p low high context"
  shows "verify_range Z key (shift_commitment Z key C low) (bd_above p)
           (suffixed_context context (ascii ''|above''))"
    and "verify_range Z key (commit Z key (scalar_from_i64 high) 0 - C) (bd_below p)
           (suffixed_context context (ascii ''|below''))"
    and "rp_bits (bd_above p) = max (bit_length (nat (sint high - sint low))) 1"
    and "rp_bits (bd_below p) = max (bit_length (nat (sint high - sint low))) 1"
  using assms by (auto simp: verify_bounded_def Let_def split: if_splits)

lemma shifted_opening:
  assumes Z: "lawful Z" and "shift_commitment Z key C low = commit Z key (of_nat n) r"
  shows "C = commit Z key (of_int (sint low + int n)) r"
  using assms by (simp add: shift_commitment_def commit_def scalar_from_i64_int lawful_smul algebra_simps)

lemma ceiling_opening:
  assumes Z: "lawful Z" and "commit Z key (scalar_from_i64 high) 0 - C = commit Z key (of_nat n) r"
  shows "C = commit Z key (of_int (sint high - int n)) (- r)"
  using assms by (simp add: commit_def scalar_from_i64_int lawful_smul algebra_simps)

end
