(* ===== verification/Threshold_Range.thy ===== *)
theory Threshold_Range
  imports Bitrange_Sound
begin

text \<open>
  The public verifier of threshold range proofs, \<open>verify_threshold_range\<close> of
  \<^verbatim>\<open>src/rust/zkpi-proofs/src/threshold_range.rs\<close>, with \<open>verify_square_bit\<close> of
  \<^verbatim>\<open>threshold_gadgets.rs\<close>: a bit is proved by the equation \<open>b * b = b\<close>. Extraction yields bits, or
  a scalar that expresses the value generator as a multiple of the blinding generator.
\<close>

record ('s, 'g) threshold_range_proof =
  tr_bit_commitments :: "'g list"
  tr_bit_proofs :: "('s, 'g) product_proof list"
  tr_linkage :: "('s, 'g) opening_proof"
  tr_bits :: nat

definition verify_square_bit ::
  "('s::field, 'g::ab_group_add) zk \<Rightarrow> 'g pedersen \<Rightarrow> 'g \<Rightarrow> ('s, 'g) product_proof \<Rightarrow> transcript
    \<Rightarrow> bool \<times> transcript" where
  "verify_square_bit Z key C p T = verify_product Z key T C C C p"

definition verify_threshold_range ::
  "('s::field, 'g::ab_group_add) zk \<Rightarrow> 'g pedersen \<Rightarrow> 'g \<Rightarrow> ('s, 'g) threshold_range_proof \<Rightarrow> bytes
    \<Rightarrow> bool" where
  "verify_threshold_range Z key C p context =
     (if length (tr_bit_commitments p) \<noteq> tr_bits p \<or> length (tr_bit_proofs p) \<noteq> tr_bits p then False
      else if \<not> list_all (\<lambda>(i, bc, bp).
             case bit_context context i of
               Inl _ \<Rightarrow> False
             | Inr ctx \<Rightarrow> fst (verify_square_bit Z key bc bp (component_transcript ctx)))
           (enumerate 0 (zip (tr_bit_commitments p) (tr_bit_proofs p))) then False
      else
        let residual = C - weighted_sum Z (tr_bit_commitments p);
            T = component_transcript (suffixed_context context (ascii '':link''))
        in fst (verify_zero_opening Z key T residual (tr_linkage p)))"

section \<open>Squares\<close>

text \<open>The scalar that a factor other than 0 and 1 would give away.\<close>

definition square_dlog :: "'s::field \<Rightarrow> 's \<Rightarrow> 's \<Rightarrow> 's" where
  "square_dlog b rb u = (b * rb + u - rb) / (b - b * b)"

lemma square_bit:
  assumes Z: "lawful Z" and "multiplies Z key (C, C, C) (b, rb, u)"
  shows "b = 0 \<or> b = 1 \<or> gen_g key = smul Z (square_dlog b rb u) (gen_h key)"
proof (cases "b - b * b = 0")
  case True
  then have "b * (1 - b) = 0" by (simp add: algebra_simps)
  then show ?thesis by auto
next
  case False
  have "commit Z key b rb = commit Z key (b * b) (rb * b + u)"
    using assms(2) multiplies_product[OF Z assms(2)] by (auto simp: multiplies_def)
  then have "smul Z (b - b * b) (gen_g key) = smul Z (b * rb + u - rb) (gen_h key)"
    by (simp add: commit_def lawful_smul[OF Z] algebra_simps)
  then have "smul Z (inverse (b - b * b)) (smul Z (b - b * b) (gen_g key))
      = smul Z (inverse (b - b * b)) (smul Z (b * rb + u - rb) (gen_h key))" by simp
  with False show ?thesis
    by (simp add: lawful_smul(3,4)[OF Z] square_dlog_def divide_inverse mult.commute)
qed

section \<open>Extraction\<close>

definition threshold_first_moves ::
  "('s, 'g) threshold_range_proof \<Rightarrow> 'g list \<times> ('g \<times> 'g) list \<times> 'g" where
  "threshold_first_moves p =
     (tr_bit_commitments p, map (\<lambda>q. (pp_t_factor q, pp_t_product q)) (tr_bit_proofs p),
      op_t (tr_linkage p))"

definition square_challenge ::
  "('s, 'g) zk \<Rightarrow> bytes \<Rightarrow> ('s, 'g) threshold_range_proof \<Rightarrow> nat \<Rightarrow> 's" where
  "square_challenge Z context p i =
     (case bit_context context i of
        Inl _ \<Rightarrow> undefined
      | Inr ctx \<Rightarrow>
          (let C = tr_bit_commitments p ! i; q = tr_bit_proofs p ! i
           in fst (product_challenge Z (component_transcript ctx) C C C (pp_t_factor q) (pp_t_product q))))"

definition threshold_link_challenge ::
  "('s::field, 'g::ab_group_add) zk \<Rightarrow> bytes \<Rightarrow> 'g \<Rightarrow> ('s, 'g) threshold_range_proof \<Rightarrow> 's" where
  "threshold_link_challenge Z context C p =
     zero_challenge Z (component_transcript (suffixed_context context (ascii '':link'')))
       (C - weighted_sum Z (tr_bit_commitments p)) (op_t (tr_linkage p))"

text \<open>The witness that two answers for bit \<open>i\<close> give.\<close>

definition square_witness ::
  "'s::field \<Rightarrow> ('s, 'g) product_proof \<Rightarrow> 's \<Rightarrow> ('s, 'g) product_proof \<Rightarrow> 's \<times> 's \<times> 's" where
  "square_witness c p d q =
     ((pp_z_b p - pp_z_b q) / (c - d), (pp_z_rb p - pp_z_rb q) / (c - d), (pp_z_s p - pp_z_s q) / (c - d))"

definition square_witness_at ::
  "('s::field, 'g) zk \<Rightarrow> ('s, 'g) zk \<Rightarrow> bytes \<Rightarrow> ('s, 'g) threshold_range_proof
    \<Rightarrow> ('s, 'g) threshold_range_proof \<Rightarrow> nat \<Rightarrow> 's \<times> 's \<times> 's" where
  "square_witness_at Z Z' context p q i =
     square_witness (square_challenge Z context p i) (tr_bit_proofs p ! i)
       (square_challenge Z' context q i) (tr_bit_proofs q ! i)"

definition extracted_dlog ::
  "('s::field, 'g) zk \<Rightarrow> ('s, 'g) zk \<Rightarrow> bytes \<Rightarrow> ('s, 'g) threshold_range_proof
    \<Rightarrow> ('s, 'g) threshold_range_proof \<Rightarrow> nat \<Rightarrow> 's" where
  "extracted_dlog Z Z' context p q i =
     (case square_witness_at Z Z' context p q i of (b, rb, u) \<Rightarrow> square_dlog b rb u)"

definition threshold_witness ::
  "('s::field, 'g::ab_group_add) zk \<Rightarrow> ('s, 'g) zk \<Rightarrow> bytes \<Rightarrow> 'g \<Rightarrow> ('s, 'g) threshold_range_proof
    \<Rightarrow> ('s, 'g) threshold_range_proof \<Rightarrow> nat \<times> 's" where
  "threshold_witness Z Z' context C p q =
     linked_opening (\<lambda>i. case square_witness_at Z Z' context p q i of (b, rb, u) \<Rightarrow> (b = 1, rb))
       (tr_bits p)
       ((op_z_blinding (tr_linkage p) - op_z_blinding (tr_linkage q))
          / (threshold_link_challenge Z context C p - threshold_link_challenge Z' context C q))"

lemma threshold_leaf:
  assumes Z: "lawful Z" and "verify_threshold_range Z key C p context"
  shows "length (tr_bit_commitments p) = tr_bits p" and "length (tr_bit_proofs p) = tr_bits p"
    and "i < tr_bits p \<Longrightarrow> product_holds Z key
           (tr_bit_commitments p ! i, tr_bit_commitments p ! i, tr_bit_commitments p ! i)
           (pp_t_factor (tr_bit_proofs p ! i), pp_t_product (tr_bit_proofs p ! i))
           (square_challenge Z context p i)
           (pp_z_b (tr_bit_proofs p ! i), pp_z_rb (tr_bit_proofs p ! i), pp_z_s (tr_bit_proofs p ! i))"
    and "zero_holds Z key (C - weighted_sum Z (tr_bit_commitments p)) (op_t (tr_linkage p))
           (threshold_link_challenge Z context C p) (op_z_blinding (tr_linkage p))"
proof -
  show len: "length (tr_bit_commitments p) = tr_bits p" "length (tr_bit_proofs p) = tr_bits p"
    using assms(2) by (auto simp: verify_threshold_range_def split: if_splits)
  show "product_holds Z key
           (tr_bit_commitments p ! i, tr_bit_commitments p ! i, tr_bit_commitments p ! i)
           (pp_t_factor (tr_bit_proofs p ! i), pp_t_product (tr_bit_proofs p ! i))
           (square_challenge Z context p i)
           (pp_z_b (tr_bit_proofs p ! i), pp_z_rb (tr_bit_proofs p ! i), pp_z_s (tr_bit_proofs p ! i))"
    if "i < tr_bits p"
  proof -
    have "case bit_context context i of Inl _ \<Rightarrow> False
      | Inr ctx \<Rightarrow> fst (verify_square_bit Z key (tr_bit_commitments p ! i) (tr_bit_proofs p ! i)
                       (component_transcript ctx))"
      using assms(2) that len
      by (auto simp: verify_threshold_range_def list_all_length nth_enumerate_eq split: if_splits)
    then show ?thesis
      using verify_product_iff[OF Z]
      by (auto simp: square_challenge_def verify_square_bit_def Let_def split: sum.splits)
  qed
  show "zero_holds Z key (C - weighted_sum Z (tr_bit_commitments p)) (op_t (tr_linkage p))
           (threshold_link_challenge Z context C p) (op_z_blinding (tr_linkage p))"
    using assms(2) verify_zero_opening_iff[OF Z]
    by (auto simp: verify_threshold_range_def threshold_link_challenge_def Let_def split: if_splits)
qed

lemma threshold_extract:
  assumes Z: "lawful Z" and Z': "lawful Z'" and sm: "smul Z' = smul Z"
    and p: "verify_threshold_range Z key C p context" and q: "verify_threshold_range Z' key C q context"
    and same: "threshold_first_moves q = threshold_first_moves p"
    and bits: "\<And>i. i < tr_bits p \<Longrightarrow> square_challenge Z context p i \<noteq> square_challenge Z' context q i"
    and link: "threshold_link_challenge Z context C p \<noteq> threshold_link_challenge Z' context C q"
  shows "(case threshold_witness Z Z' context C p q of
            (n, r) \<Rightarrow> n < 2 ^ tr_bits p \<and> C = commit Z key (of_nat n) r)
       \<or> (\<exists>i < tr_bits p. gen_g key = smul Z (extracted_dlog Z Z' context p q i) (gen_h key))"
proof (rule disjCI)
  assume no: "\<not> (\<exists>i < tr_bits p. gen_g key = smul Z (extracted_dlog Z Z' context p q i) (gen_h key))"
  note P = threshold_leaf[OF Z p] and Q = threshold_leaf[OF Z' q]
  have cs: "tr_bit_commitments q = tr_bit_commitments p"
    and ts: "map (\<lambda>q. (pp_t_factor q, pp_t_product q)) (tr_bit_proofs q)
           = map (\<lambda>q. (pp_t_factor q, pp_t_product q)) (tr_bit_proofs p)"
    and ot: "op_t (tr_linkage q) = op_t (tr_linkage p)"
    using same by (auto simp: threshold_first_moves_def)
  have wsum: "weighted_sum Z' = weighted_sum Z" by (rule ext) (simp add: weighted_sum_def sm)
  have nb: "tr_bits q = tr_bits p" using P(1) Q(1) cs by simp
  have t_eq: "(pp_t_factor (tr_bit_proofs q ! i), pp_t_product (tr_bit_proofs q ! i))
      = (pp_t_factor (tr_bit_proofs p ! i), pp_t_product (tr_bit_proofs p ! i))" if "i < tr_bits p" for i
    using arg_cong[OF ts, of "\<lambda>l. l ! i"] that P(2) Q(2) nb by simp
  have sub: "product_holds Z' key = product_holds Z key" "zero_holds Z' key = zero_holds Z key"
    using Z Z' by (auto simp: product_holds_def zero_holds_def commit_def sm fun_eq_iff)
  have wit: "commits_bit Z key (tr_bit_commitments p ! i)
      (case square_witness_at Z Z' context p q i of (b, rb, u) \<Rightarrow> (b = 1, rb))" if "i < tr_bits p" for i
  proof -
    have "i < tr_bits q" using that nb by simp
    note Qi = Q(3)[OF this, unfolded sub(1) cs t_eq[OF that]]
    obtain b rb u where w: "square_witness_at Z Z' context p q i = (b, rb, u)"
      by (cases "square_witness_at Z Z' context p q i") auto
    have m: "multiplies Z key
        (tr_bit_commitments p ! i, tr_bit_commitments p ! i, tr_bit_commitments p ! i) (b, rb, u)"
      using multiplied.special_sound[OF P(3)[OF that] Qi bits[OF that]]
      by (simp add: w[symmetric] square_witness_def square_witness_at_def)
    have "gen_g key \<noteq> smul Z (square_dlog b rb u) (gen_h key)"
      using no that w by (auto simp: extracted_dlog_def)
    with square_bit[OF Z m] have "b = 0 \<or> b = 1" by blast
    then show ?thesis using m by (auto simp: w commits_bit_def multiplies_def)
  qed
  have "C - weighted_sum Z (tr_bit_commitments p)
      = smul Z ((op_z_blinding (tr_linkage p) - op_z_blinding (tr_linkage q))
          / (threshold_link_challenge Z context C p - threshold_link_challenge Z' context C q)) (gen_h key)"
    using zeroed.special_sound[OF P(4) Q(4)[unfolded sub(2) cs ot wsum] link]
    unfolding pure_blinding_def .
  from linked_bits[OF Z P(1) wit this]
  show "case threshold_witness Z Z' context C p q of
      (n, r) \<Rightarrow> n < 2 ^ tr_bits p \<and> C = commit Z key (of_nat n) r"
    unfolding threshold_witness_def .
qed

end
