(* ===== verification/Sigma_Properties.thy ===== *)
theory Sigma_Properties
  imports Threshold_Range
begin

text \<open>
  The properties of the commitment proofs. They hold for every field of scalars, every abelian
  group of points and every linear action (\<open>lawful\<close>); the forked verifier of a soundness statement
  is a second oracle \<open>Z'\<close> with the same scalar multiplication. The witnesses use the rationals with a
  constant challenge oracle.
\<close>

section \<open>A concrete group\<close>

definition demo_zk :: "rat \<Rightarrow> (rat, rat) zk" where
  "demo_zk c = \<lparr>smul = (*), compress = (\<lambda>_. []), merlin = (\<lambda>_ _ _. []), wide_scalar = (\<lambda>_. c),
     hash_point = (\<lambda>_. 1), basepoint = 1, bp_value_gen = 1, bp_blinding_gen = 2\<rparr>"

definition demo_key :: "rat pedersen" where
  "demo_key = \<lparr>gen_g = 1, gen_h = 2\<rparr>"

lemma demo_lawful: "lawful (demo_zk c)"
  by (simp add: lawful_def demo_zk_def algebra_simps)

lemma demo_smul [simp]: "smul (demo_zk c) = (*)"
  by (simp add: demo_zk_def)

lemma demo_challenge [simp]: "challenge_scalar (demo_zk c) l T = (c, T @ [Drawn l 64])"
  by (simp add: challenge_scalar_def demo_zk_def)

definition demo_rng :: "nat \<Rightarrow> rat" where
  "demo_rng n = of_nat n + 1"

definition demo_commitment :: rat where
  "demo_commitment = commit (demo_zk 3) demo_key 1 7"

lemma demo_commitment_any: "demo_commitment = commit (demo_zk c) demo_key (of_nat (unat (1 :: u64))) 7"
  by (simp add: demo_commitment_def commit_def)

definition demo_range :: "rat \<Rightarrow> (rat, rat) range_proof" where
  "demo_range c = \<lparr>rp_bit_commitments = [3],
     rp_bit_proofs = [\<lparr>bp_t0 = 2 * 4 - 3 * 3, bp_t1 = 2 * 2, bp_c0 = 3, bp_z0 = 4, bp_z1 = 2 + (c - 3) * 1\<rparr>],
     rp_linkage = \<lparr>op_t = 2 * 6, op_z_value = 0, op_z_blinding = 6 + c * 6\<rparr>, rp_bits = 1\<rparr>"

lemma demo_range_proved: "prove_range (demo_zk c) demo_key demo_commitment 1 7 1 [] demo_rng = Inr (demo_range c)"
  by (simp add: prove_range_def value_fits_def bit_values_def bit_context_def Let_def prove_bit_def
      bit_challenge_def prove_zero_opening_def prove_opening_def opening_challenge_def
      with_value_generator_def weighted_sum_def weighted_scalars_def demo_rng_def demo_key_def
      demo_commitment_def commit_def demo_range_def)

lemma demo_leaves:
  "i < 2 ^ 16 \<Longrightarrow> bit_leaf_challenge (demo_zk c) context p i = c"
  "link_challenge (demo_zk c) context C p = c"
  by (simp_all add: bit_leaf_challenge_def link_challenge_def zero_challenge_def opening_challenge_def
      bit_challenge_def bit_context_def)

definition demo_below :: "rat \<Rightarrow> (rat, rat) range_proof" where
  "demo_below c = \<lparr>rp_bit_commitments = [14],
     rp_bit_proofs = [\<lparr>bp_t0 = 2 * 8, bp_t1 = 2 * 10 - 9 * 13, bp_c0 = c - 9, bp_z0 = 8 + (c - 9) * 7, bp_z1 = 10\<rparr>],
     rp_linkage = \<lparr>op_t = 2 * 12, op_z_value = 0, op_z_blinding = 12 + c * (- 14)\<rparr>, rp_bits = 1\<rparr>"

lemma demo_bounded:
  "prove_bounded (demo_zk c) demo_key 1 7 0 1 [] demo_rng
     = Inr (demo_commitment, \<lparr>bd_above = demo_range c, bd_below = demo_below c, bd_bits = 1\<rparr>, 1)"
  by (simp add: prove_bounded_def interval_def bit_length.simps scalar_from_i64_def shift_commitment_def
      prove_range_def value_fits_def bit_values_def bit_context_def Let_def prove_bit_def
      bit_challenge_def prove_zero_opening_def prove_opening_def opening_challenge_def
      with_value_generator_def weighted_sum_def weighted_scalars_def demo_rng_def demo_key_def
      demo_commitment_def commit_def demo_range_def demo_below_def)

section \<open>Ranges\<close>

text \<open>C16: soundness of bit-decomposition range proofs. From two accepted proofs of one commitment that
  share their first moves but meet different challenges at every bit and at the linkage, the
  explicit function \<open>range_witness\<close> computes an opening of the commitment to a number below
  \<open>2 ^ bits\<close>.\<close>

theorem range_proof_sound:
  assumes "lawful Z" and "lawful Z'" and "smul Z' = smul Z"
    and "verify_range Z key C p context" and "verify_range Z' key C q context"
    and "range_first_moves q = range_first_moves p"
    and "\<forall>i < rp_bits p. bit_leaf_challenge Z context p i \<noteq> bit_leaf_challenge Z' context q i"
    and "link_challenge Z context C p \<noteq> link_challenge Z' context C q"
  shows "case range_witness Z Z' context C p q of
           (n, r) \<Rightarrow> n < 2 ^ rp_bits p \<and> C = commit Z key (of_nat n) r"
  using assms by (intro range_extract) auto

theorem range_proof_sound_witness:
  "case range_witness (demo_zk 3) (demo_zk 5) [] demo_commitment (demo_range 3) (demo_range 5) of
     (n, r) \<Rightarrow> n < 2 ^ rp_bits (demo_range 3)
       \<and> demo_commitment = commit (demo_zk 3) demo_key (of_nat n) r"
proof (rule range_proof_sound[OF demo_lawful demo_lawful])
  show "verify_range (demo_zk 3) demo_key demo_commitment (demo_range 3) []"
    by (rule range_complete[OF demo_lawful demo_commitment_any demo_range_proved])
  show "verify_range (demo_zk 5) demo_key demo_commitment (demo_range 5) []"
    by (rule range_complete[OF demo_lawful demo_commitment_any demo_range_proved])
qed (simp_all add: demo_range_def demo_leaves range_first_moves_def)

text \<open>C17: proving that a committed integer lies in an interval succeeds exactly for the integers of
  the interval, at every width up to the full signed 64-bit span, and the proof it returns verifies;
  any other value is refused with an error and no proof.\<close>

theorem bounded_proof_complete:
  assumes "lawful Z"
  shows "if sint low \<le> sint v \<and> sint v \<le> sint high
         then \<exists>C p bits. prove_bounded Z key v r low high context rng = Inr (C, p, bits)
                \<and> C = commit Z key (of_int (sint v)) r \<and> verify_bounded Z key C p low high context
         else prove_bounded Z key v r low high context rng
                = Inl (if sint high < sint low then EmptyInterval else ValueOutsideInterval)"
proof (cases "sint low \<le> sint v \<and> sint v \<le> sint high")
  case True
  then obtain C p bits where ok: "prove_bounded Z key v r low high context rng = Inr (C, p, bits)"
      "verify_bounded Z key C p low high context"
    using bounded_complete[OF assms] by blast
  from ok(1) have "C = commit Z key (of_int (sint v)) r"
    by (auto simp: prove_bounded_def result_simps Let_def scalar_from_i64_int)
  with True ok show ?thesis by auto
next
  case False
  then have "interval v low high
      = Inl (if sint high < sint low then EmptyInterval else ValueOutsideInterval)"
    by (auto simp: interval_def Let_def refuse_if_def)
  with False show ?thesis by (auto simp: prove_bounded_def)
qed

theorem bounded_proof_complete_witness:
  "\<exists>C p bits. prove_bounded (demo_zk 3) demo_key (- 5) 7 (- 10) 4 [] demo_rng = Inr (C, p, bits)
     \<and> C = commit (demo_zk 3) demo_key (- 5) 7 \<and> verify_bounded (demo_zk 3) demo_key C p (- 10) 4 []"
  using bounded_proof_complete[OF demo_lawful, of "- 10" "- 5" 4 3 demo_key 7 "[]" demo_rng] by simp

text \<open>C18: soundness of interval proofs. From two accepted proofs as above, one computes an opening of
  the commitment to an integer at least \<open>low\<close> and one to an integer at most \<open>high\<close>, both within the
  width of the interval: either the two agree and the committed integer lies in the interval, or
  the proofs give away two different openings of one commitment.\<close>

theorem bounded_proof_sound:
  assumes "lawful Z" and "lawful Z'" and "smul Z' = smul Z"
    and "verify_bounded Z key C p low high context" and "verify_bounded Z' key C q low high context"
    and "A = shift_commitment Z key C low" and "B = commit Z key (scalar_from_i64 high) 0 - C"
    and "ca = suffixed_context context (ascii ''|above'')" and "cb = suffixed_context context (ascii ''|below'')"
    and "range_first_moves (bd_above q) = range_first_moves (bd_above p)"
    and "range_first_moves (bd_below q) = range_first_moves (bd_below p)"
    and "\<forall>i < rp_bits (bd_above p).
           bit_leaf_challenge Z ca (bd_above p) i \<noteq> bit_leaf_challenge Z' ca (bd_above q) i"
    and "\<forall>i < rp_bits (bd_below p).
           bit_leaf_challenge Z cb (bd_below p) i \<noteq> bit_leaf_challenge Z' cb (bd_below q) i"
    and "link_challenge Z ca A (bd_above p) \<noteq> link_challenge Z' ca A (bd_above q)"
    and "link_challenge Z cb B (bd_below p) \<noteq> link_challenge Z' cb B (bd_below q)"
    and "range_witness Z Z' ca A (bd_above p) (bd_above q) = (n, r)"
    and "range_witness Z Z' cb B (bd_below p) (bd_below q) = (m, u)"
  shows "C = commit Z key (of_int (sint low + int n)) r \<and> C = commit Z key (of_int (sint high - int m)) (- u)
       \<and> n < 2 ^ max (bit_length (nat (sint high - sint low))) 1
       \<and> m < 2 ^ max (bit_length (nat (sint high - sint low))) 1"
proof -
  note P = bounded_ranges[OF assms(4)] and Q = bounded_ranges[OF assms(5)]
  have sub: "shift_commitment Z' = shift_commitment Z" "commit Z' = commit Z"
    by (auto simp: shift_commitment_def commit_def assms(3) fun_eq_iff)
  have a: "case range_witness Z Z' ca A (bd_above p) (bd_above q) of
      (n, r) \<Rightarrow> n < 2 ^ rp_bits (bd_above p) \<and> A = commit Z key (of_nat n) r"
    unfolding assms(6,8)
    by (rule range_extract[OF assms(1-3) P(1) Q(1)[unfolded sub] assms(10)])
      (use assms(6,8,12,14) in auto)
  have b: "case range_witness Z Z' cb B (bd_below p) (bd_below q) of
      (n, r) \<Rightarrow> n < 2 ^ rp_bits (bd_below p) \<and> B = commit Z key (of_nat n) r"
    unfolding assms(7,9)
    by (rule range_extract[OF assms(1-3) P(2) Q(2)[unfolded sub] assms(11)])
      (use assms(7,9,13,15) in auto)
  have n: "n < 2 ^ rp_bits (bd_above p)" "A = commit Z key (of_nat n) r"
    and m: "m < 2 ^ rp_bits (bd_below p)" "B = commit Z key (of_nat m) u"
    using a[unfolded assms(16)] b[unfolded assms(17)] by simp_all
  show ?thesis
    using shifted_opening[OF assms(1) n(2)[unfolded assms(6)]] ceiling_opening[OF assms(1) m(2)[unfolded assms(7)]]
      n(1) m(1) P(3,4) by auto
qed


theorem bounded_proof_sound_witness:
  "\<exists>n m r u. demo_commitment = commit (demo_zk 3) demo_key (of_int (sint (0 :: i64) + int n)) r
     \<and> demo_commitment = commit (demo_zk 3) demo_key (of_int (sint (1 :: i64) - int m)) (- u)
     \<and> n < 2 \<and> m < 2"
proof -
  let ?p = "\<lambda>c. \<lparr>bd_above = demo_range c, bd_below = demo_below c, bd_bits = 1\<rparr>"
  obtain n r m u where wit:
    "range_witness (demo_zk 3) (demo_zk 5) (suffixed_context [] (ascii ''|above''))
       (shift_commitment (demo_zk 3) demo_key demo_commitment 0) (bd_above (?p 3)) (bd_above (?p 5)) = (n, r)"
    "range_witness (demo_zk 3) (demo_zk 5) (suffixed_context [] (ascii ''|below''))
       (commit (demo_zk 3) demo_key (scalar_from_i64 1) 0 - demo_commitment) (bd_below (?p 3)) (bd_below (?p 5))
       = (m, u)"
    by (meson surj_pair)
  have ok: "verify_bounded (demo_zk c) demo_key demo_commitment (?p c) 0 1 []" for c
    using bounded_complete[OF demo_lawful, of 0 1 1 c demo_key 7 "[]" demo_rng] demo_bounded[of c] by auto
  have "demo_commitment = commit (demo_zk 3) demo_key (of_int (sint (0 :: i64) + int n)) r
     \<and> demo_commitment = commit (demo_zk 3) demo_key (of_int (sint (1 :: i64) - int m)) (- u)
     \<and> n < 2 ^ max (bit_length (nat (sint (1 :: i64) - sint (0 :: i64)))) 1
     \<and> m < 2 ^ max (bit_length (nat (sint (1 :: i64) - sint (0 :: i64)))) 1"
    by (rule bounded_proof_sound[OF demo_lawful demo_lawful _ ok ok refl refl refl refl _ _ _ _ _ _ wit])
      (simp_all add: demo_leaves demo_range_def demo_below_def range_first_moves_def)
  then show ?thesis by (auto simp: bit_length.simps)
qed

section \<open>Threshold range proofs\<close>

text \<open>C19: soundness of the threshold range proofs that payment instructions carry. From two accepted
  proofs with the same first moves and different challenges, explicit functions compute either an
  opening of the commitment to a number below \<open>2 ^ bits\<close>, or, for some bit that is neither 0 nor
  1, the discrete logarithm of the value generator to the blinding generator.\<close>

theorem threshold_range_sound:
  assumes "lawful Z" and "lawful Z'" and "smul Z' = smul Z"
    and "verify_threshold_range Z key C p context" and "verify_threshold_range Z' key C q context"
    and "threshold_first_moves q = threshold_first_moves p"
    and "\<forall>i < tr_bits p. square_challenge Z context p i \<noteq> square_challenge Z' context q i"
    and "threshold_link_challenge Z context C p \<noteq> threshold_link_challenge Z' context C q"
  shows "(case threshold_witness Z Z' context C p q of
            (n, r) \<Rightarrow> n < 2 ^ tr_bits p \<and> C = commit Z key (of_nat n) r)
       \<or> (\<exists>i < tr_bits p. gen_g key = smul Z (extracted_dlog Z Z' context p q i) (gen_h key))"
  using assms by (intro threshold_extract) auto

definition demo_threshold :: "rat \<Rightarrow> (rat, rat) threshold_range_proof" where
  "demo_threshold c = \<lparr>tr_bit_commitments = [3],
     tr_bit_proofs = [\<lparr>pp_t_factor = 4 + 2 * 5, pp_t_product = 4 * 3 + 2 * 6, pp_z_b = 4 + c,
                       pp_z_rb = 5 + c, pp_z_s = 6\<rparr>],
     tr_linkage = \<lparr>op_t = 2 * 6, op_z_value = 0, op_z_blinding = 6 + c * 6\<rparr>, tr_bits = 1\<rparr>"

theorem threshold_range_sound_witness:
  "(case threshold_witness (demo_zk 3) (demo_zk 5) [] demo_commitment (demo_threshold 3) (demo_threshold 5) of
      (n, r) \<Rightarrow> n < 2 ^ tr_bits (demo_threshold 3) \<and> demo_commitment = commit (demo_zk 3) demo_key (of_nat n) r)
   \<or> (\<exists>i < tr_bits (demo_threshold 3).
        gen_g demo_key = smul (demo_zk 3) (extracted_dlog (demo_zk 3) (demo_zk 5) [] (demo_threshold 3)
          (demo_threshold 5) i) (gen_h demo_key))"
  by (rule threshold_range_sound[OF demo_lawful demo_lawful])
    (simp_all add: demo_threshold_def verify_threshold_range_def bit_context_def verify_square_bit_def
      verify_product_iff[OF demo_lawful] product_holds_def product_challenge_def demo_lawful
      verify_zero_opening_iff[OF demo_lawful] zero_holds_def zero_challenge_def opening_challenge_def
      demo_key_def demo_commitment_def commit_def weighted_sum_def threshold_first_moves_def
      square_challenge_def threshold_link_challenge_def Let_def)

section \<open>Products and batches\<close>

text \<open>C20: a product proof pins the product. Two accepted answers with one first move determine an
  opening of the second commitment to a factor, and with any opening of the first commitment the
  third one opens to the product of the two values.\<close>

theorem product_proof_sound:
  assumes "lawful Z" and "lawful Z'" and "smul Z' = smul Z"
    and "fst (verify_product Z key T c_a c_b c_c p)" and "fst (verify_product Z' key T c_a c_b c_c q)"
    and "pp_t_factor q = pp_t_factor p" and "pp_t_product q = pp_t_product p"
    and "c = fst (product_challenge Z T c_a c_b c_c (pp_t_factor p) (pp_t_product p))"
    and "d = fst (product_challenge Z' T c_a c_b c_c (pp_t_factor p) (pp_t_product p))"
    and "c \<noteq> d" and "square_witness c p d q = (b, rb, u)" and "c_a = commit Z key a ra"
  shows "c_b = commit Z key b rb \<and> c_c = commit Z key (a * b) (ra * b + u)"
proof -
  have "product_holds Z' key = product_holds Z key"
    using assms(1-3) by (auto simp: product_holds_def commit_def fun_eq_iff)
  then have "multiplies Z key (c_a, c_b, c_c) (b, rb, u)"
    using multiplied.special_sound[of Z key "(c_a, c_b, c_c)" "(pp_t_factor p, pp_t_product p)" c
        "(pp_z_b p, pp_z_rb p, pp_z_s p)" d "(pp_z_b q, pp_z_rb q, pp_z_s q)"]
      assms verify_product_iff[OF assms(1)] verify_product_iff[OF assms(2)]
    by (simp add: square_witness_def)
  then show ?thesis
    using multiplies_product[OF assms(1) _ assms(12)] by (auto simp: multiplies_def)
qed

theorem product_proof_sound_witness:
  "commit (demo_zk 3) demo_key 4 9 = commit (demo_zk 3) demo_key 4 9
   \<and> commit (demo_zk 3) demo_key 20 1 = commit (demo_zk 3) demo_key (5 * 4) (8 * 4 + - 31)"
proof -
  let ?p = "\<lambda>x. fst (prove_product (demo_zk x) demo_key [] (commit (demo_zk x) demo_key 5 8) 5 8 4 9 1 11 12 13)"
  have ok: "fst (verify_product (demo_zk x) demo_key [] (commit (demo_zk 3) demo_key 5 8)
      (commit (demo_zk 3) demo_key 4 9) (commit (demo_zk 3) demo_key 20 1) (?p x))" for x
    using product_complete[OF demo_lawful[of x] refl, where key = demo_key and a = 5 and ra = 8 and T = "[]"
        and b = 4 and rb = 9 and rc = 1 and k_b = 11 and k_rb = 12 and k_s = 13]
    by (simp add: commit_def)
  show ?thesis
    by (rule product_proof_sound[OF demo_lawful demo_lawful _ ok[of 3] ok[of 5] _ _ refl refl])
      (simp_all add: prove_product_def product_challenge_def Let_def square_witness_def commit_def)
qed

text \<open>C21: a bad two-equation proof hides in a batch for at most one non-zero weight, whether it is a
  product proof or a same-value proof; so a weight drawn by the verifier after the proof is fixed
  catches it, while the lone verifier, which checks the two equations separately, needs none.\<close>

theorem batch_weight_catches:
  assumes "lawful Z"
  shows "(\<not> fst (verify_product Z key T c_a c_b c_c p) \<longrightarrow>
            (\<exists>w0. {w. case fst (product_terms Z key T c_a c_b c_c p w) of (ss, ps) \<Rightarrow> msm Z ss ps = Some 0}
                  \<subseteq> {0, w0}))
       \<and> (\<not> fst (verify_same_value Z key T g1 g2 c1 c2 x) \<longrightarrow>
            (\<exists>w0. {w. case fst (same_value_terms Z key T g1 g2 c1 c2 x w) of (ss, ps) \<Rightarrow> msm Z ss ps = Some 0}
                  \<subseteq> {0, w0}))"
  using weighted_pair[OF assms]
  by (simp add: verify_product_def product_terms_def verify_same_value_def same_value_terms_def Let_def
      case_prod_unfold)

theorem batch_weight_catches_witness:
  "\<exists>w0. {w. case fst (product_terms (demo_zk 3) demo_key [] 1 1 1
              \<lparr>pp_t_factor = 0, pp_t_product = 0, pp_z_b = 0, pp_z_rb = 0, pp_z_s = 0\<rparr> w) of
            (ss, ps) \<Rightarrow> msm (demo_zk 3) ss ps = Some 0} \<subseteq> {0, w0}"
proof -
  have "\<not> fst (verify_product (demo_zk 3) demo_key [] 1 1 1
      \<lparr>pp_t_factor = 0, pp_t_product = 0, pp_z_b = 0, pp_z_rb = 0, pp_z_s = 0\<rparr>)"
    by (simp add: verify_product_iff[OF demo_lawful] product_holds_def product_challenge_def commit_def)
  then show ?thesis using batch_weight_catches[OF demo_lawful] by blast
qed

end
