(* ===== verification/Instructions.thy ===== *)
theory Instructions
  imports Threshold_Range
begin

text \<open>
  Payment instructions, \<^verbatim>\<open>src/rust/zkpi/src/lib.rs\<close>: the data, the digests, the issuer and the
  sealing of a partial instruction; with \<^verbatim>\<open>src/rust/zkfmi-zk/src/range.rs\<close>, the wrapper around the
  bulletproofs crate.

  The records \<open>prims\<close> and \<open>quorum\<close> hold the third-party code the crate calls: point and scalar
  encodings, FROST signatures (\<open>'sig\<close>) and public key packages (\<open>'pk\<close>), bulletproofs (\<open>'rp\<close>),
  post-quantum approvals (\<open>'pq\<close>) and policies (\<open>'pol\<close>), and the hash functions. A FROST
  identifier is its serialization. Errors are the source's messages. A panic is \<open>None\<close>.
\<close>

section \<open>Parameters\<close>

record ('s, 'g, 'sig, 'rp, 'pq) prims =
  curve :: "('s, 'g) zk"
  decompress :: "bytes \<Rightarrow> 'g option"
  scalar_to_bytes :: "'s \<Rightarrow> bytes"
  from_canonical_bytes :: "bytes \<Rightarrow> 's option"
  sig_serialize :: "'sig \<Rightarrow> bytes option"
  sig_deserialize :: "bytes \<Rightarrow> 'sig option"
  rp_to_bytes :: "'rp \<Rightarrow> bytes"
  rp_from_bytes :: "bytes \<Rightarrow> 'rp option"
  rp_prove_multiple ::
    "nat \<Rightarrow> nat \<times> nat \<Rightarrow> transcript \<Rightarrow> u64 list \<Rightarrow> 's list \<Rightarrow> nat \<Rightarrow> ('rp \<times> bytes list) option"
  rp_verify_multiple :: "nat \<times> nat \<Rightarrow> transcript \<Rightarrow> 'rp \<Rightarrow> bytes list \<Rightarrow> nat \<Rightarrow> bool"
  pq_encode :: "'pq \<Rightarrow> bytes option"
  pq_decode :: "bytes \<Rightarrow> 'pq option"
  sha256 :: "bytes \<Rightarrow> bytes"
  sha512 :: "bytes \<Rightarrow> bytes"

record ('sig, 'pq, 'pk, 'pol) quorum =
  frost_verify :: "'pk \<Rightarrow> bytes \<Rightarrow> 'sig \<Rightarrow> bool"
  pk_serialize :: "'pk \<Rightarrow> bytes option"
  verifying_shares :: "'pk \<Rightarrow> bytes list"
  identifier_of :: "u16 \<Rightarrow> bytes option"
  pol_validate :: "'pol \<Rightarrow> bool"
  pol_for_settlement :: "'pol \<Rightarrow> bool"
  pol_classical_binding :: "'pol \<Rightarrow> bytes"
  pol_members :: "'pol \<Rightarrow> u16 list"
  pol_verify :: "'pol \<Rightarrow> 'pq \<Rightarrow> bytes \<Rightarrow> u64 \<Rightarrow> bool"
  pol_verify_archived :: "'pol \<Rightarrow> 'pq \<Rightarrow> bytes \<Rightarrow> bool"

abbreviation point_bytes :: "('s, 'g, 'sig, 'rp, 'pq) prims \<Rightarrow> 'g \<Rightarrow> bytes" where
  "point_bytes P \<equiv> compress (curve P)"

section \<open>Range contexts\<close>

record range_ctx =
  rc_gens :: "nat \<times> nat"
  rc_bits :: nat

text \<open>\<open>usize::next_power_of_two\<close>: doubling from 1 until \<open>n\<close> is reached.\<close>

function double_until :: "nat \<Rightarrow> nat \<Rightarrow> nat" where
  "double_until n p = (if n \<le> p \<or> p = 0 then p else double_until n (2 * p))"
  by pat_completeness auto
termination by (relation "measure (\<lambda>(n, p). n - p)") auto

declare double_until.simps [simp del]

definition next_power_of_two :: "nat \<Rightarrow> nat" where
  "next_power_of_two n = double_until n 1"

definition range_ctx_new :: "nat \<Rightarrow> nat \<Rightarrow> range_ctx option" where
  "range_ctx_new b max_aggregate =
     (if b \<in> {8, 16, 32, 64}
      then Some \<lparr>rc_gens = (b, next_power_of_two max_aggregate), rc_bits = b\<rparr> else None)"

definition range_prove ::
  "('s::zero, 'g, 'sig, 'rp, 'pq) prims \<Rightarrow> nat \<Rightarrow> range_ctx \<Rightarrow> transcript \<Rightarrow> u64 list \<Rightarrow> 's list
    \<Rightarrow> string + ('rp \<times> bytes list)" where
  "range_prove P entropy ctx T values blindings =
     (if rc_bits ctx < 64 \<and> list_ex (\<lambda>v. 2 ^ rc_bits ctx \<le> unat v) values
      then Inl ''a value does not fit the range being proved''
      else
        let pad = next_power_of_two (length values) - length values
        in ok_or (rp_prove_multiple P entropy (rc_gens ctx) T (values @ replicate pad 0)
                    (blindings @ replicate pad 0) (rc_bits ctx))
             ''range proof failed'')"

definition range_verify ::
  "('s, 'g, 'sig, 'rp, 'pq) prims \<Rightarrow> range_ctx \<Rightarrow> transcript \<Rightarrow> 'rp \<Rightarrow> bytes list \<Rightarrow> bool" where
  "range_verify P ctx T proof commitments =
     rp_verify_multiple P (rc_gens ctx) T proof commitments (rc_bits ctx)"

section \<open>Instructions\<close>

definition AMOUNT_RANGE_CONTEXT :: bytes where
  "AMOUNT_RANGE_CONTEXT = ascii ''qomm:zkpi:ranges:amount''"

definition PRICE_RANGE_CONTEXT :: bytes where
  "PRICE_RANGE_CONTEXT = ascii ''qomm:zkpi:ranges:price''"

definition DEFAULT_DOMAIN :: bytes where
  "DEFAULT_DOMAIN = ascii ''qomm:default-venue''"

datatype ('s, 'g, 'rp) range_evidence =
  Bulletproof (bp_amount: 'rp) (bp_price: 'rp) (bp_commitments: "bytes list")
| Threshold (th_amount: "('s, 'g) threshold_range_proof") (th_price: "('s, 'g) threshold_range_proof")

datatype quote_binding = LegacyPackedKey u64 | ProofDigest bytes32

record bounds =
  amount_bits :: nat
  price_bits :: nat
  bd_max_horizon :: u64

definition bounds_default :: bounds where
  "bounds_default = \<lparr>amount_bits = 32, price_bits = 32, bd_max_horizon = 86400\<rparr>"

record ('s, 'g, 'rp) partial_instruction =
  pi_amount_commitment :: 'g
  pi_price_commitment :: 'g
  pi_asset_commitment :: 'g
  pi_ranges :: "('s, 'g, 'rp) range_evidence"
  pi_payer_handle :: 'g
  pi_payee_handle :: 'g
  pi_deadline :: u64
  pi_nonce :: bytes32
  pi_quote_binding :: quote_binding

record ('s, 'g, 'sig, 'rp, 'pq) instruction =
  amount_commitment :: 'g
  price_commitment :: 'g
  asset_commitment :: 'g
  ranges :: "('s, 'g, 'rp) range_evidence"
  payer_handle :: 'g
  payee_handle :: 'g
  deadline :: u64
  nonce :: bytes32
  quote_binding :: quote_binding
  signature :: 'sig
  pq_approval :: "'pq option"

record 's openings =
  on_amount :: 's
  on_price :: 's
  on_asset :: 's

definition is_threshold :: "('s, 'g, 'rp) range_evidence \<Rightarrow> bool" where
  "is_threshold e = (case e of Bulletproof _ _ _ \<Rightarrow> False | Threshold _ _ \<Rightarrow> True)"

definition commitment_count :: "('s, 'g, 'rp) range_evidence \<Rightarrow> nat" where
  "commitment_count e =
     (case e of
        Bulletproof _ _ cs \<Rightarrow> length cs
      | Threshold a p \<Rightarrow> length (tr_bit_commitments a) + length (tr_bit_commitments p))"

text \<open>\<open>threshold_range_encoded_len\<close> of \<^verbatim>\<open>wire.rs\<close>.\<close>

definition threshold_range_encoded_len :: "('s, 'g) threshold_range_proof \<Rightarrow> nat" where
  "threshold_range_encoded_len p = 2 + length (tr_bit_commitments p) * (32 + 5 * 32) + 3 * 32"

definition proof_bytes_len ::
  "('s, 'g, 'sig, 'rp, 'pq) prims \<Rightarrow> ('s, 'g, 'rp) range_evidence \<Rightarrow> nat" where
  "proof_bytes_len P e =
     (case e of
        Bulletproof a p _ \<Rightarrow> length (rp_to_bytes P a) + length (rp_to_bytes P p)
      | Threshold a p \<Rightarrow> threshold_range_encoded_len a + threshold_range_encoded_len p)"

definition legacy_quote_key :: "('s, 'g, 'sig, 'rp, 'pq) instruction \<Rightarrow> u64 option" where
  "legacy_quote_key i = (case quote_binding i of LegacyPackedKey v \<Rightarrow> Some v | ProofDigest _ \<Rightarrow> None)"

definition quote_proof_digest :: "('s, 'g, 'sig, 'rp, 'pq) instruction \<Rightarrow> bytes32 option" where
  "quote_proof_digest i = (case quote_binding i of LegacyPackedKey _ \<Rightarrow> None | ProofDigest v \<Rightarrow> Some v)"

definition asset_scalar :: "('s, 'g, 'sig, 'rp, 'pq) prims \<Rightarrow> bytes32 \<Rightarrow> 's" where
  "asset_scalar P asset_id =
     wide_scalar (curve P) (sha512 P (ascii ''QOMM:DEFMI:ASSET-SCALAR:v1'' @ asset_id))"

section \<open>Digests\<close>

definition quote_binding_bytes :: "quote_binding \<Rightarrow> bytes" where
  "quote_binding_bytes q =
     (case q of
        LegacyPackedKey v \<Rightarrow> u64_be v
      | ProofDigest v \<Rightarrow> ascii ''QOMM:QUOTE-PROOF-DIGEST:v1'' @ v)"

text \<open>What the hasher is fed, in order.\<close>

definition signed_bytes ::
  "('g \<Rightarrow> bytes) \<Rightarrow> bytes \<Rightarrow> 'g list \<Rightarrow> u64 \<Rightarrow> bytes32 \<Rightarrow> quote_binding \<Rightarrow> bytes" where
  "signed_bytes pt domain points dl non q =
     ascii ''QOMM:ZKPI:v2'' @ u64_be (word_of_nat (length domain)) @ domain
       @ concat (map pt points) @ u64_be dl @ non @ quote_binding_bytes q"

definition digest_for :: "('s, 'g, 'sig, 'rp, 'pq) prims \<Rightarrow> bytes
    \<Rightarrow> ('s, 'g, 'sig, 'rp, 'pq) instruction \<Rightarrow> bytes" where
  "digest_for P domain i =
     sha512 P (signed_bytes (point_bytes P) domain
       [amount_commitment i, price_commitment i, asset_commitment i, payer_handle i, payee_handle i]
       (deadline i) (nonce i) (quote_binding i))"

definition digest :: "('s, 'g, 'sig, 'rp, 'pq) prims \<Rightarrow> ('s, 'g, 'sig, 'rp, 'pq) instruction \<Rightarrow> bytes" where
  "digest P i = digest_for P DEFAULT_DOMAIN i"

definition digest_public_fields_for ::
  "('s, 'g, 'sig, 'rp, 'pq) prims \<Rightarrow> bytes \<Rightarrow> 'g \<Rightarrow> 'g \<Rightarrow> 'g \<Rightarrow> 'g \<Rightarrow> 'g \<Rightarrow> u64 \<Rightarrow> bytes32
    \<Rightarrow> quote_binding \<Rightarrow> bytes" where
  "digest_public_fields_for P domain amount price asset payer payee dl non q =
     sha512 P (signed_bytes (point_bytes P) domain [amount, price, asset, payer, payee] dl non q)"

definition partial_digest_for ::
  "('s, 'g, 'sig, 'rp, 'pq) prims \<Rightarrow> bytes \<Rightarrow> ('s, 'g, 'rp) partial_instruction \<Rightarrow> bytes" where
  "partial_digest_for P domain p =
     digest_public_fields_for P domain (pi_amount_commitment p) (pi_price_commitment p)
       (pi_asset_commitment p) (pi_payer_handle p) (pi_payee_handle p) (pi_deadline p) (pi_nonce p)
       (pi_quote_binding p)"

definition nullifier :: "('s, 'g, 'sig, 'rp, 'pq) prims \<Rightarrow> ('s, 'g, 'sig, 'rp, 'pq) instruction \<Rightarrow> bytes32" where
  "nullifier P i =
     take 32 (sha512 P (ascii ''QOMM:ZKPI:NUL:v1'' @ nonce i @ point_bytes P (payer_handle i)
                          @ point_bytes P (payee_handle i)))"

section \<open>The issuer\<close>

record 'g issuer =
  is_key :: "'g pedersen"
  is_bounds :: bounds
  is_amount_ranges :: range_ctx
  is_price_ranges :: range_ctx
  is_domain :: bytes

definition issuer_new :: "'g pedersen \<Rightarrow> bounds \<Rightarrow> 'g issuer option" where
  "issuer_new key b =
     Option.bind (range_ctx_new (amount_bits b) 1) (\<lambda>ar.
     Option.bind (range_ctx_new (price_bits b) 1) (\<lambda>pr.
       Some \<lparr>is_key = key, is_bounds = b, is_amount_ranges = ar, is_price_ranges = pr,
             is_domain = DEFAULT_DOMAIN\<rparr>))"

text \<open>The two arguments \<open>ea\<close> and \<open>ep\<close> name what the bulletproofs crate draws in the two proofs.\<close>

definition build_with_asset_scalar_and_openings ::
  "('s::field, 'g::ab_group_add, 'sig, 'rp, 'pq) prims \<Rightarrow> nat \<Rightarrow> nat \<Rightarrow> 'g issuer \<Rightarrow> u64 \<Rightarrow> u64 \<Rightarrow> 's
    \<Rightarrow> 'g \<Rightarrow> 'g \<Rightarrow> u64 \<Rightarrow> bytes32 \<Rightarrow> u64 \<Rightarrow> 's openings
    \<Rightarrow> string + (bytes \<times> 's openings \<times> ('s, 'g, 'rp) partial_instruction)" where
  "build_with_asset_scalar_and_openings P ea ep iss amount price asset_value payer payee dl non quote_key on =
     and_then (range_prove P ea (is_amount_ranges iss) (transcript_new AMOUNT_RANGE_CONTEXT)
                 [amount] [on_amount on]) (\<lambda>(amount_range, amount_commitments).
     and_then (range_prove P ep (is_price_ranges iss) (transcript_new PRICE_RANGE_CONTEXT)
                 [price] [on_price on]) (\<lambda>(price_range, price_commitments).
       let p = \<lparr>pi_amount_commitment = commit_u64 (curve P) (is_key iss) amount (on_amount on),
                pi_price_commitment = commit_u64 (curve P) (is_key iss) price (on_price on),
                pi_asset_commitment = commit (curve P) (is_key iss) asset_value (on_asset on),
                pi_ranges = Bulletproof amount_range price_range (amount_commitments @ price_commitments),
                pi_payer_handle = payer, pi_payee_handle = payee, pi_deadline = dl, pi_nonce = non,
                pi_quote_binding = LegacyPackedKey quote_key\<rparr>
       in Inr (partial_digest_for P (is_domain iss) p, on, p)))"

text \<open>\<open>k1\<close>, \<open>k2\<close> and \<open>k3\<close> are the scalars drawn from the generator.\<close>

definition build_with_asset_scalar ::
  "('s::field, 'g::ab_group_add, 'sig, 'rp, 'pq) prims \<Rightarrow> nat \<Rightarrow> nat \<Rightarrow> 's \<Rightarrow> 's \<Rightarrow> 's \<Rightarrow> 'g issuer
    \<Rightarrow> u64 \<Rightarrow> u64 \<Rightarrow> 's \<Rightarrow> 'g \<Rightarrow> 'g \<Rightarrow> u64 \<Rightarrow> bytes32 \<Rightarrow> u64
    \<Rightarrow> string + (bytes \<times> 's openings \<times> ('s, 'g, 'rp) partial_instruction)" where
  "build_with_asset_scalar P ea ep k1 k2 k3 iss amount price asset_value payer payee dl non quote_key =
     build_with_asset_scalar_and_openings P ea ep iss amount price asset_value payer payee dl non
       quote_key \<lparr>on_amount = k1, on_price = k2, on_asset = k3\<rparr>"

definition build ::
  "('s::field, 'g::ab_group_add, 'sig, 'rp, 'pq) prims \<Rightarrow> nat \<Rightarrow> nat \<Rightarrow> 's \<Rightarrow> 's \<Rightarrow> 's \<Rightarrow> 'g issuer
    \<Rightarrow> u64 \<Rightarrow> u64 \<Rightarrow> u32 \<Rightarrow> 'g \<Rightarrow> 'g \<Rightarrow> u64 \<Rightarrow> bytes32 \<Rightarrow> u64
    \<Rightarrow> string + (bytes \<times> 's openings \<times> ('s, 'g, 'rp) partial_instruction)" where
  "build P ea ep k1 k2 k3 iss amount price asset payer payee dl non quote_key =
     build_with_asset_scalar P ea ep k1 k2 k3 iss amount price (of_nat (unat asset)) payer payee dl non
       quote_key"

definition build_for_asset_id ::
  "('s::field, 'g::ab_group_add, 'sig, 'rp, 'pq) prims \<Rightarrow> nat \<Rightarrow> nat \<Rightarrow> 's \<Rightarrow> 's \<Rightarrow> 's \<Rightarrow> 'g issuer
    \<Rightarrow> u64 \<Rightarrow> u64 \<Rightarrow> bytes32 \<Rightarrow> 'g \<Rightarrow> 'g \<Rightarrow> u64 \<Rightarrow> bytes32 \<Rightarrow> u64
    \<Rightarrow> string + (bytes \<times> 's openings \<times> ('s, 'g, 'rp) partial_instruction)" where
  "build_for_asset_id P ea ep k1 k2 k3 iss amount price asset_id payer payee dl non quote_key =
     build_with_asset_scalar P ea ep k1 k2 k3 iss amount price (asset_scalar P asset_id) payer payee dl non
       quote_key"

definition build_for_asset_id_with_openings ::
  "('s::field, 'g::ab_group_add, 'sig, 'rp, 'pq) prims \<Rightarrow> nat \<Rightarrow> nat \<Rightarrow> 'g issuer
    \<Rightarrow> u64 \<Rightarrow> u64 \<Rightarrow> bytes32 \<Rightarrow> 'g \<Rightarrow> 'g \<Rightarrow> u64 \<Rightarrow> bytes32 \<Rightarrow> u64 \<Rightarrow> 's openings
    \<Rightarrow> string + (bytes \<times> 's openings \<times> ('s, 'g, 'rp) partial_instruction)" where
  "build_for_asset_id_with_openings P ea ep iss amount price asset_id payer payee dl non quote_key on =
     build_with_asset_scalar_and_openings P ea ep iss amount price (asset_scalar P asset_id) payer payee
       dl non quote_key on"

section \<open>Sealing\<close>

definition from_threshold_ranges ::
  "('s::field, 'g::ab_group_add, 'sig, 'rp, 'pq) prims \<Rightarrow> 'g pedersen \<Rightarrow> bounds \<Rightarrow> 'g \<Rightarrow> 'g \<Rightarrow> 'g
    \<Rightarrow> ('s, 'g) threshold_range_proof \<Rightarrow> ('s, 'g) threshold_range_proof \<Rightarrow> 'g \<Rightarrow> 'g \<Rightarrow> u64 \<Rightarrow> bytes32
    \<Rightarrow> bytes32 \<Rightarrow> string + ('s, 'g, 'rp) partial_instruction" where
  "from_threshold_ranges P key b amount_c price_c asset_c amount_range price_range payer payee dl non qd =
     (if tr_bits amount_range \<noteq> amount_bits b
         \<or> \<not> verify_threshold_range (curve P) key amount_c amount_range AMOUNT_RANGE_CONTEXT
      then Inl ''the threshold amount proof is outside the published bounds''
      else if tr_bits price_range \<noteq> price_bits b
         \<or> \<not> verify_threshold_range (curve P) key price_c price_range PRICE_RANGE_CONTEXT
      then Inl ''the threshold price proof is outside the published bounds''
      else if point_bytes P payer = point_bytes P payee
      then Inl ''the payer and the payee are the same handle''
      else Inr \<lparr>pi_amount_commitment = amount_c, pi_price_commitment = price_c,
                pi_asset_commitment = asset_c, pi_ranges = Threshold amount_range price_range,
                pi_payer_handle = payer, pi_payee_handle = payee, pi_deadline = dl, pi_nonce = non,
                pi_quote_binding = ProofDigest qd\<rparr>)"

definition sealed ::
  "('s, 'g, 'rp) partial_instruction \<Rightarrow> 'sig \<Rightarrow> ('s, 'g, 'sig, 'rp, 'pq) instruction" where
  "sealed p sg =
     \<lparr>amount_commitment = pi_amount_commitment p, price_commitment = pi_price_commitment p,
      asset_commitment = pi_asset_commitment p, ranges = pi_ranges p,
      payer_handle = pi_payer_handle p, payee_handle = pi_payee_handle p,
      deadline = pi_deadline p, nonce = pi_nonce p, quote_binding = pi_quote_binding p,
      signature = sg, pq_approval = None\<rparr>"

definition sealed_hybrid ::
  "('s, 'g, 'rp) partial_instruction \<Rightarrow> 'sig \<Rightarrow> 'pq \<Rightarrow> ('s, 'g, 'sig, 'rp, 'pq) instruction" where
  "sealed_hybrid p sg pq = (sealed p sg)\<lparr>pq_approval := Some pq\<rparr>"

section \<open>What the signature covers\<close>

text \<open>The quorum signs the digest of the partial instruction; the venue recomputes it.\<close>

lemma sealed_digest [simp]:
  "digest_for P domain (sealed p sg) = partial_digest_for P domain p"
  "digest_for P domain (sealed_hybrid p sg pq) = partial_digest_for P domain p"
  by (simp_all add: digest_for_def sealed_def sealed_hybrid_def partial_digest_for_def
      digest_public_fields_for_def)

text \<open>A collision of a hash function, exhibited.\<close>

definition collides :: "(bytes \<Rightarrow> bytes) \<Rightarrow> bytes \<Rightarrow> bytes \<Rightarrow> bool" where
  "collides h a b \<longleftrightarrow> a \<noteq> b \<and> h a = h b"

text \<open>The documented encoding of points: 32 bytes, and two points with the same bytes are equal.\<close>

definition points_encode :: "('s, 'g, 'sig, 'rp, 'pq) prims \<Rightarrow> bool" where
  "points_encode P \<longleftrightarrow> (\<forall>p. length (point_bytes P p) = 32 \<and> decompress P (point_bytes P p) = Some p)"

lemma points_encode_length: "points_encode P \<Longrightarrow> length (point_bytes P p) = 32"
  by (simp add: points_encode_def)

lemma points_encode_inj: "points_encode P \<Longrightarrow> point_bytes P p = point_bytes P q \<longleftrightarrow> p = q"
  by (metis option.inject points_encode_def)

lemma concat_points_inj:
  assumes "points_encode P" and "length ps = length qs"
  shows "concat (map (point_bytes P) ps) = concat (map (point_bytes P) qs) \<longleftrightarrow> ps = qs"
  using assms(2)
  by (induction ps qs rule: list_induct2)
    (simp_all add: append_eq_fixed points_encode_length[OF assms(1)] points_encode_inj[OF assms(1)])

lemma length_concat_points:
  "points_encode P \<Longrightarrow> length (concat (map (point_bytes P) ps)) = 32 * length ps"
  by (induction ps) (simp_all add: points_encode_length)

text \<open>The arrays of an instruction have their Rust lengths.\<close>

fun binding_wf :: "quote_binding \<Rightarrow> bool" where
  "binding_wf (LegacyPackedKey v) = True"
| "binding_wf (ProofDigest d) = (length d = 32)"

lemma quote_binding_bytes_length:
  "binding_wf q \<Longrightarrow> length (quote_binding_bytes q) = (case q of LegacyPackedKey _ \<Rightarrow> 8 | ProofDigest _ \<Rightarrow> 58)"
  by (cases q) (simp_all add: quote_binding_bytes_def del: ascii_simps)

lemma quote_binding_bytes_inj:
  assumes "binding_wf q" and "binding_wf q'" and "quote_binding_bytes q = quote_binding_bytes q'"
  shows "q = q'"
proof (cases "length (quote_binding_bytes q) = 8")
  case True
  then show ?thesis
    using assms quote_binding_bytes_length[OF assms(1)] quote_binding_bytes_length[OF assms(2)]
    by (cases q; cases q') (simp_all add: quote_binding_bytes_def del: ascii_simps)
next
  case False
  then show ?thesis
    using assms quote_binding_bytes_length[OF assms(1)] quote_binding_bytes_length[OF assms(2)]
    by (cases q; cases q') (simp_all add: quote_binding_bytes_def del: ascii_simps)
qed

lemma word_of_length_inj:
  assumes "length (a :: bytes) < 2 ^ 64" and "length (b :: bytes) < 2 ^ 64"
    and "(word_of_nat (length a) :: u64) = word_of_nat (length b)"
  shows "length a = length b"
proof -
  have "unat (word_of_nat (length a) :: u64) = unat (word_of_nat (length b) :: u64)"
    using assms(3) by simp
  then show ?thesis using assms(1,2) by (simp add: unat_of_nat take_bit_nat_eq_self)
qed

lemma length_prefixed_inj:
  assumes "length a < 2 ^ 64" and "length b < 2 ^ 64"
    and "u64_be (word_of_nat (length a)) @ a @ s = u64_be (word_of_nat (length b)) @ b @ t"
  shows "a = b \<and> s = t"
proof -
  have "(word_of_nat (length a) :: u64) = word_of_nat (length b)" and rest: "a @ s = b @ t"
    using assms(3) by (simp_all add: append_eq_fixed)
  then have "length a = length b" using word_of_length_inj[OF assms(1,2)] by blast
  with rest show ?thesis by (simp add: append_eq_fixed)
qed

text \<open>Nothing of the signed statement is ambiguous: equal bytes come from equal fields.\<close>

lemma signed_bytes_inj:
  assumes P: "points_encode P"
    and "length domain < 2 ^ 64" and "length domain' < 2 ^ 64"
    and "length ps = length ps'" and "length non = 32" and "length non' = 32"
    and "binding_wf q" and "binding_wf q'"
    and eq: "signed_bytes (point_bytes P) domain ps dl non q
           = signed_bytes (point_bytes P) domain' ps' dl' non' q'"
  shows "domain = domain' \<and> ps = ps' \<and> dl = dl' \<and> non = non' \<and> q = q'"
proof -
  let ?tail = "\<lambda>ps dl non q. concat (map (point_bytes P) ps) @ u64_be dl @ non @ quote_binding_bytes q"
  have "u64_be (word_of_nat (length domain)) @ domain @ ?tail ps dl non q
      = u64_be (word_of_nat (length domain')) @ domain' @ ?tail ps' dl' non' q'"
    using eq by (simp add: signed_bytes_def del: ascii_simps)
  then have d: "domain = domain'" and t: "?tail ps dl non q = ?tail ps' dl' non' q'"
    using length_prefixed_inj[OF assms(2,3)] by blast+
  have ps: "ps = ps'" and "u64_be dl @ non @ quote_binding_bytes q = u64_be dl' @ non' @ quote_binding_bytes q'"
    using t assms(4) length_concat_points[OF P]
    by (simp_all add: append_eq_fixed concat_points_inj[OF P])
  then have "dl = dl'" "non = non'" "quote_binding_bytes q = quote_binding_bytes q'"
    using assms(5,6) by (simp_all add: append_eq_fixed)
  with d ps quote_binding_bytes_inj[OF assms(7,8)] show ?thesis by simp
qed

end
