(* ===== verification/Venue.thy ===== *)
theory Venue
  imports Instructions
begin

text \<open>
  The settlement side of \<^verbatim>\<open>src/rust/zkpi/src/lib.rs\<close>: \<open>validate_settlement_committee\<close>, \<open>Venue\<close> with its
  verification and \<open>settle\<close>, and the key generation of the quorum. The set of spent nullifiers is
  the only state; \<open>settle\<close> returns the new venue.
\<close>

section \<open>The venue\<close>

record ('g, 'pk, 'pol) venue =
  ve_key :: "'g pedersen"
  ve_domain :: bytes
  ve_amount_ranges :: range_ctx
  ve_price_ranges :: range_ctx
  group_public :: 'pk
  spent :: "bytes32 set"
  max_horizon :: u64
  ve_require_threshold :: bool
  pq_policy :: "'pol option"

definition validate_settlement_committee ::
  "('s, 'g, 'sig, 'rp, 'pq) prims \<Rightarrow> ('sig, 'pq, 'pk, 'pol) quorum \<Rightarrow> 'pol \<Rightarrow> 'pk \<Rightarrow> string + unit" where
  "validate_settlement_committee P Q policy public =
     and_then (refuse_if (\<not> pol_validate Q policy) ''PQ committee is invalid'') (\<lambda>_.
     and_then (ok_or (pk_serialize Q public) ''FROST public package is invalid'') (\<lambda>raw.
       let binding = sha256 P raw
       in refuse_if
            (\<not> pol_for_settlement Q policy
             \<or> pol_classical_binding Q policy \<noteq> binding
             \<or> length (pol_members Q policy) \<noteq> length (verifying_shares Q public)
             \<or> list_ex (\<lambda>node. case identifier_of Q node of
                    None \<Rightarrow> True
                  | Some ident \<Rightarrow> ident \<notin> set (verifying_shares Q public))
                 (pol_members Q policy))
            ''PQ committee differs from the registered FROST committee''))"

definition venue_new :: "'g pedersen \<Rightarrow> bounds \<Rightarrow> 'pk \<Rightarrow> ('g, 'pk, 'pol) venue option" where
  "venue_new key b public =
     Option.bind (range_ctx_new (amount_bits b) 1) (\<lambda>ar.
     Option.bind (range_ctx_new (price_bits b) 1) (\<lambda>pr.
       Some \<lparr>ve_key = key, ve_domain = DEFAULT_DOMAIN, ve_amount_ranges = ar, ve_price_ranges = pr,
             group_public = public, spent = {}, max_horizon = bd_max_horizon b,
             ve_require_threshold = False, pq_policy = None\<rparr>))"

definition require_threshold_ranges :: "('g, 'pk, 'pol) venue \<Rightarrow> ('g, 'pk, 'pol) venue" where
  "require_threshold_ranges v = v\<lparr>ve_require_threshold := True\<rparr>"

definition require_pq_committee ::
  "('s, 'g, 'sig, 'rp, 'pq) prims \<Rightarrow> ('sig, 'pq, 'pk, 'pol) quorum \<Rightarrow> 'pol \<Rightarrow> ('g, 'pk, 'pol) venue
    \<Rightarrow> string + ('g, 'pk, 'pol) venue" where
  "require_pq_committee P Q policy v =
     and_then (validate_settlement_committee P Q policy (group_public v)) (\<lambda>_.
       Inr (v\<lparr>pq_policy := Some policy\<rparr>))"

definition verify_pq_approval_at ::
  "('sig, 'pq, 'pk, 'pol) quorum \<Rightarrow> ('g, 'pk, 'pol) venue \<Rightarrow> 'pq option \<Rightarrow> bytes \<Rightarrow> u64 option
    \<Rightarrow> string + unit" where
  "verify_pq_approval_at Q v approval message now =
     (case (pq_policy v, approval) of
        (Some policy, Some val) \<Rightarrow>
          (case now of
             Some t \<Rightarrow> refuse_if (\<not> pol_verify Q policy val message t) ''PQ quorum approval does not verify''
           | None \<Rightarrow> refuse_if (\<not> pol_verify_archived Q policy val message)
                       ''PQ quorum approval does not verify'')
      | (Some _, None) \<Rightarrow> Inl ''this venue requires the PQ quorum approval''
      | (None, Some _) \<Rightarrow> Inl ''a hybrid instruction requires an enrolled PQ committee''
      | (None, None) \<Rightarrow> Inr ())"

definition verify_pq_approval ::
  "('sig, 'pq, 'pk, 'pol) quorum \<Rightarrow> ('g, 'pk, 'pol) venue \<Rightarrow> 'pq option \<Rightarrow> bytes \<Rightarrow> u64
    \<Rightarrow> string + unit" where
  "verify_pq_approval Q v approval message now = verify_pq_approval_at Q v approval message (Some now)"

definition verify_authorization ::
  "('sig, 'pq, 'pk, 'pol) quorum \<Rightarrow> ('g, 'pk, 'pol) venue \<Rightarrow> bytes \<Rightarrow> 'sig \<Rightarrow> 'pq option \<Rightarrow> u64
    \<Rightarrow> string + unit" where
  "verify_authorization Q v message classical pq now =
     and_then (refuse_if (\<not> frost_verify Q (group_public v) message classical)
                 ''application classical authorization does not verify'') (\<lambda>_.
       verify_pq_approval Q v pq message now)"

text \<open>The range evidence, lines 735 to 789 of \<open>verify_at\<close>.\<close>

definition verify_ranges ::
  "('s::field, 'g::ab_group_add, 'sig, 'rp, 'pq) prims \<Rightarrow> ('g, 'pk, 'pol) venue
    \<Rightarrow> ('s, 'g, 'sig, 'rp, 'pq) instruction \<Rightarrow> string + unit" where
  "verify_ranges P v i =
     (case ranges i of
        Bulletproof amount price commitments \<Rightarrow>
          if ve_require_threshold v
          then Inl ''this venue requires range proofs produced by the MPC quorum''
          else if length commitments \<noteq> 2
          then Inl ''the range proof has the wrong number of commitments''
          else if \<not> range_verify P (ve_amount_ranges v) (transcript_new AMOUNT_RANGE_CONTEXT) amount
                      (take 1 commitments)
          then Inl ''the amount is outside the published bounds''
          else if \<not> range_verify P (ve_price_ranges v) (transcript_new PRICE_RANGE_CONTEXT) price
                      (take 1 (drop 1 commitments))
          then Inl ''the price is outside the published bounds''
          else refuse_if
                 (commitments ! 0 \<noteq> point_bytes P (amount_commitment i)
                  \<or> commitments ! 1 \<noteq> point_bytes P (price_commitment i))
                 ''the range proof does not cover this instruction''
      | Threshold amount price \<Rightarrow>
          if tr_bits amount \<noteq> rc_bits (ve_amount_ranges v)
             \<or> \<not> verify_threshold_range (curve P) (ve_key v) (amount_commitment i) amount
                   AMOUNT_RANGE_CONTEXT
          then Inl ''the amount is outside the published bounds''
          else refuse_if
                 (tr_bits price \<noteq> rc_bits (ve_price_ranges v)
                  \<or> \<not> verify_threshold_range (curve P) (ve_key v) (price_commitment i) price
                        PRICE_RANGE_CONTEXT)
                 ''the price is outside the published bounds'')"

definition verify_at ::
  "('s::field, 'g::ab_group_add, 'sig, 'rp, 'pq) prims \<Rightarrow> ('sig, 'pq, 'pk, 'pol) quorum
    \<Rightarrow> ('g, 'pk, 'pol) venue \<Rightarrow> ('s, 'g, 'sig, 'rp, 'pq) instruction \<Rightarrow> u64 \<Rightarrow> bool \<Rightarrow> string + unit" where
  "verify_at P Q v i now archived =
     and_then (refuse_if (deadline i > saturating_add now (max_horizon v))
       ''the deadline is further out than this venue will hold a nullifier for'') (\<lambda>_.
     and_then (refuse_if (now > deadline i) ''past the deadline'') (\<lambda>_.
     and_then (refuse_if (point_bytes P (payer_handle i) = point_bytes P (payee_handle i))
       ''the payer and the payee are the same handle'') (\<lambda>_.
     and_then (refuse_if (nullifier P i \<in> spent v) ''already settled'') (\<lambda>_.
     and_then (verify_ranges P v i) (\<lambda>_.
     and_then (refuse_if (\<not> frost_verify Q (group_public v) (digest_for P (ve_domain v) i) (signature i))
       ''the quorum signature does not verify'') (\<lambda>_.
       verify_pq_approval_at Q v (pq_approval i) (digest_for P (ve_domain v) i)
         (if \<not> archived then Some now else None)))))))"

definition verify ::
  "('s::field, 'g::ab_group_add, 'sig, 'rp, 'pq) prims \<Rightarrow> ('sig, 'pq, 'pk, 'pol) quorum
    \<Rightarrow> ('g, 'pk, 'pol) venue \<Rightarrow> ('s, 'g, 'sig, 'rp, 'pq) instruction \<Rightarrow> u64 \<Rightarrow> string + unit" where
  "verify P Q v i now = verify_at P Q v i now False"

definition verify_archived ::
  "('s::field, 'g::ab_group_add, 'sig, 'rp, 'pq) prims \<Rightarrow> ('sig, 'pq, 'pk, 'pol) quorum
    \<Rightarrow> ('g, 'pk, 'pol) venue \<Rightarrow> ('s, 'g, 'sig, 'rp, 'pq) instruction \<Rightarrow> string + unit" where
  "verify_archived P Q v i = verify_at P Q v i (deadline i) True"

definition settle ::
  "('s::field, 'g::ab_group_add, 'sig, 'rp, 'pq) prims \<Rightarrow> ('sig, 'pq, 'pk, 'pol) quorum
    \<Rightarrow> ('s, 'g, 'sig, 'rp, 'pq) instruction \<Rightarrow> u64 \<Rightarrow> ('g, 'pk, 'pol) venue
    \<Rightarrow> string + ('g, 'pk, 'pol) venue" where
  "settle P Q i now v =
     and_then (verify P Q v i now) (\<lambda>_. Inr (v\<lparr>spent := insert (nullifier P i) (spent v)\<rparr>))"

definition venue_spent :: "('g, 'pk, 'pol) venue \<Rightarrow> nat" where
  "venue_spent v = card (spent v)"

section \<open>What an accepted instruction satisfies\<close>

lemma saturating_window:
  "deadline i \<le> saturating_add now h \<Longrightarrow> unat (deadline i) \<le> unat now + unat (h :: u64)"
  by (simp add: word_le_nat_alt unat_saturating_add)

lemma verify_at_Inr:
  assumes "verify_at P Q v i now archived = Inr u"
  shows "deadline i \<le> saturating_add now (max_horizon v)" and "now \<le> deadline i"
    and "point_bytes P (payer_handle i) \<noteq> point_bytes P (payee_handle i)"
    and "nullifier P i \<notin> spent v" and "verify_ranges P v i = Inr ()"
    and "frost_verify Q (group_public v) (digest_for P (ve_domain v) i) (signature i)"
    and "verify_pq_approval_at Q v (pq_approval i) (digest_for P (ve_domain v) i)
           (if archived then None else Some now) = Inr ()"
  using assms by (auto simp: verify_at_def result_simps not_less)

lemma settle_Inr:
  assumes "settle P Q i now v = Inr v'"
  shows "verify P Q v i now = Inr ()" and "v' = v\<lparr>spent := insert (nullifier P i) (spent v)\<rparr>"
  using assms by (auto simp: settle_def result_simps)

text \<open>Outside the horizon the deadline alone refuses.\<close>

lemma verify_late:
  assumes "verify P Q v i now = Inr ()" and "unat now + unat (max_horizon v) < unat later"
  shows "verify P Q w i later = Inl ''past the deadline''"
proof -
  have "unat (deadline i) \<le> unat now + unat (max_horizon v)"
    using verify_at_Inr(1)[OF assms(1)[unfolded verify_def]] by (rule saturating_window)
  then have d: "deadline i < later" using assms(2) by (simp add: word_less_nat_alt)
  then have "deadline i \<le> saturating_add later (max_horizon w)"
    by (simp add: word_le_nat_alt word_less_nat_alt unat_saturating_add)
      (use unat_bound[of "deadline i"] in simp)
  with d show ?thesis by (simp add: verify_def verify_at_def refuse_if_def)
qed

text \<open>A policy without a matching approval, and an approval without a policy, are refused.\<close>

lemma pq_approval_needed:
  assumes "verify_pq_approval_at Q v approval message now = Inr u"
  shows "(pq_policy v = None \<longleftrightarrow> approval = None)"
  using assms by (auto simp: verify_pq_approval_at_def split: option.splits)

lemma threshold_ranges_checked:
  assumes "verify_ranges P v i = Inr ()" and "ranges i = Threshold a p"
  shows "tr_bits a = rc_bits (ve_amount_ranges v)" and "tr_bits p = rc_bits (ve_price_ranges v)"
    and "verify_threshold_range (curve P) (ve_key v) (amount_commitment i) a AMOUNT_RANGE_CONTEXT"
    and "verify_threshold_range (curve P) (ve_key v) (price_commitment i) p PRICE_RANGE_CONTEXT"
  using assms by (auto simp: verify_ranges_def result_simps split: if_splits)

lemma required_threshold:
  assumes "verify_ranges P v i = Inr ()" and "ve_require_threshold v"
  obtains a p where "ranges i = Threshold a p"
  using assms by (cases "ranges i") (auto simp: verify_ranges_def)

end
