(* ===== verification/Typed.thy ===== *)
theory Typed
  imports Venue Machines
begin

text \<open>
  \<^verbatim>\<open>src/rust/zkpi/src/typed.rs\<close>: the execution context a product instruction is signed with, its
  validation against the payment, the typed digest, and the venue operations \<open>verify_typed\<close> and
  \<open>settle_typed\<close>; and the venue as a machine whose accepted requests consume a nullifier.
\<close>

datatype operation_kind = Reserve | Consume | Release | Settle
datatype trade_direction = TakerBuys | TakerSells
datatype authorization_scope = Maker | Taker | Joint

fun operation_code :: "operation_kind \<Rightarrow> u8" where
  "operation_code Reserve = 1"
| "operation_code Consume = 2"
| "operation_code Release = 3"
| "operation_code Settle = 4"

definition operation_try_from :: "u8 \<Rightarrow> string + operation_kind" where
  "operation_try_from v =
     (if v = 1 then Inr Reserve else if v = 2 then Inr Consume else if v = 3 then Inr Release
      else if v = 4 then Inr Settle else Inl ''unknown typed zkPI operation'')"

fun direction_code :: "trade_direction \<Rightarrow> u8" where
  "direction_code TakerBuys = 1"
| "direction_code TakerSells = 2"

definition direction_try_from :: "u8 \<Rightarrow> string + trade_direction" where
  "direction_try_from v =
     (if v = 1 then Inr TakerBuys else if v = 2 then Inr TakerSells
      else Inl ''unknown typed zkPI direction'')"

fun scope_code :: "authorization_scope \<Rightarrow> u8" where
  "scope_code Maker = 1"
| "scope_code Taker = 2"
| "scope_code Joint = 3"

definition scope_try_from :: "u8 \<Rightarrow> string + authorization_scope" where
  "scope_try_from v =
     (if v = 1 then Inr Maker else if v = 2 then Inr Taker else if v = 3 then Inr Joint
      else Inl ''unknown typed zkPI authorization scope'')"

lemma operation_codes: "operation_try_from v = Inr x \<longleftrightarrow> v = operation_code x"
  by (cases x) (auto simp: operation_try_from_def)

lemma direction_codes: "direction_try_from v = Inr x \<longleftrightarrow> v = direction_code x"
  by (cases x) (auto simp: direction_try_from_def)

lemma scope_codes: "scope_try_from v = Inr x \<longleftrightarrow> v = scope_code x"
  by (cases x) (auto simp: scope_try_from_def)

lemma codes_inj [simp]:
  "operation_code x = operation_code y \<longleftrightarrow> x = y"
  "direction_code a = direction_code b \<longleftrightarrow> a = b"
  "scope_code s = scope_code t \<longleftrightarrow> s = t"
  using operation_codes direction_codes scope_codes by (metis sum.inject(2))+

record 'g execution_context =
  operation :: operation_kind
  scope :: authorization_scope
  direction :: trade_direction
  venue_id :: bytes32
  defmi_id :: bytes32
  maker_handle :: 'g
  taker_handle :: 'g
  reserve_handle :: 'g
  maker_reservation_id :: bytes32
  maker_reservation_sequence :: u64
  taker_reservation_id :: bytes32
  taker_reservation_sequence :: u64
  rfq_nullifier :: bytes32
  taker_mandate_digest :: bytes32
  maker_policy_digest :: bytes32
  maker_mandate_digest :: bytes32
  maker_reserve_receipt_digest :: bytes32
  taker_reserve_receipt_digest :: bytes32
  ctx_quote_proof_digest :: bytes32
  market_statement_digest :: bytes32
  before_state_root :: bytes32

definition nonzero :: "bytes32 \<Rightarrow> bool" where
  "nonzero val = list_ex (\<lambda>b. b \<noteq> 0) val"

section \<open>Validation\<close>

text \<open>The arms of the \<open>match\<close> on the operation.\<close>

definition validate_reserve ::
  "'g execution_context \<Rightarrow> ('s, 'g, 'sig, 'rp, 'pq) instruction \<Rightarrow> string + unit" where
  "validate_reserve c payment =
     and_then (case scope c of
         Maker \<Rightarrow> Inr (maker_handle c, maker_reservation_id c, taker_reservation_id c,
                    maker_policy_digest c, taker_mandate_digest c)
       | Taker \<Rightarrow> Inr (taker_handle c, taker_reservation_id c, maker_reservation_id c,
                    taker_mandate_digest c, maker_policy_digest c)
       | Joint \<Rightarrow> Inl ''a reserve belongs to exactly one trading party'')
       (\<lambda>(owner, own_id, other_id, authority, forbidden_authority).
     and_then (refuse_if (payer_handle payment \<noteq> owner \<or> payee_handle payment \<noteq> reserve_handle c)
       ''reserve payer/payee do not move from its owner into escrow'') (\<lambda>_.
     and_then (refuse_if
         (\<not> nonzero own_id \<or> nonzero other_id \<or> \<not> nonzero authority \<or> nonzero forbidden_authority
          \<or> nonzero (maker_reserve_receipt_digest c) \<or> nonzero (taker_reserve_receipt_digest c)
          \<or> nonzero (ctx_quote_proof_digest c) \<or> nonzero (market_statement_digest c))
       ''reserve context contains missing or future execution data'') (\<lambda>_.
     and_then (if scope c = Maker \<and> \<not> nonzero (maker_mandate_digest c)
               then Inl ''Maker reserve lacks its signed policy mandate''
               else if scope c = Taker \<and> nonzero (maker_mandate_digest c)
               then Inl ''Taker reserve contains an unrelated Maker mandate'' else Inr ()) (\<lambda>_.
     and_then (refuse_if (scope c = Maker \<and> nonzero (rfq_nullifier c))
       ''a Maker reserve cannot claim a later RFQ'') (\<lambda>_.
       refuse_if (scope c = Taker \<and> \<not> nonzero (rfq_nullifier c))
       ''a Taker reserve must bind its one-use RFQ'')))))"

definition validate_release ::
  "'g execution_context \<Rightarrow> ('s, 'g, 'sig, 'rp, 'pq) instruction \<Rightarrow> string + unit" where
  "validate_release c payment =
     and_then (case scope c of
         Maker \<Rightarrow> Inr (maker_handle c, maker_reservation_id c, taker_reservation_id c,
                    maker_reserve_receipt_digest c, taker_reserve_receipt_digest c)
       | Taker \<Rightarrow> Inr (taker_handle c, taker_reservation_id c, maker_reservation_id c,
                    taker_reserve_receipt_digest c, maker_reserve_receipt_digest c)
       | Joint \<Rightarrow> Inl ''a release belongs to exactly one trading party'')
       (\<lambda>(owner, own_id, other_id, receipt, other_receipt).
     and_then (refuse_if (payer_handle payment \<noteq> reserve_handle c \<or> payee_handle payment \<noteq> owner)
       ''release payer/payee do not return escrow to its owner'') (\<lambda>_.
       refuse_if (\<not> nonzero own_id \<or> nonzero other_id \<or> \<not> nonzero receipt \<or> nonzero other_receipt)
       ''release lacks its unique reservation receipt''))"

definition role_mapping ::
  "'g execution_context \<Rightarrow> ('s, 'g, 'sig, 'rp, 'pq) instruction \<Rightarrow> bool" where
  "role_mapping c payment =
     (case direction c of
        TakerBuys \<Rightarrow> payer_handle payment = taker_handle c \<and> payee_handle payment = maker_handle c
      | TakerSells \<Rightarrow> payer_handle payment = maker_handle c \<and> payee_handle payment = taker_handle c)"

definition settlement_evidence :: "'g execution_context \<Rightarrow> (bytes32 \<times> string) list" where
  "settlement_evidence c =
     [(maker_reservation_id c, ''settlement lacks the Maker reservation''),
      (taker_reservation_id c, ''settlement lacks the Taker reservation''),
      (rfq_nullifier c, ''settlement lacks the one-use RFQ''),
      (taker_mandate_digest c, ''settlement lacks the Taker mandate''),
      (maker_mandate_digest c, ''settlement lacks the Maker mandate''),
      (maker_policy_digest c, ''settlement lacks the Maker policy''),
      (maker_reserve_receipt_digest c, ''settlement lacks the Maker reserve receipt''),
      (taker_reserve_receipt_digest c, ''settlement lacks the Taker reserve receipt''),
      (ctx_quote_proof_digest c, ''settlement lacks the quote proof''),
      (market_statement_digest c, ''settlement lacks the reference-market statement'')]"

definition validate_settlement ::
  "'g execution_context \<Rightarrow> ('s, 'g, 'sig, 'rp, 'pq) instruction \<Rightarrow> string + unit" where
  "validate_settlement c payment =
     and_then (refuse_if (scope c \<noteq> Joint)
       ''settlement must jointly consume Maker and Taker authority'') (\<lambda>_.
     and_then (case quote_proof_digest payment of
         Some q \<Rightarrow> refuse_if (q \<noteq> ctx_quote_proof_digest c)
                      ''the payment zkPI and execution context name different quote proofs''
       | None \<Rightarrow> Inr ()) (\<lambda>_.
     and_then (refuse_if (\<not> role_mapping c payment)
       ''Maker/Taker roles do not match the payer/payee legs'') (\<lambda>_.
       try_fold (\<lambda>_ (val, message). refuse_if (\<not> nonzero val) message) () (settlement_evidence c))))"

definition validate_against ::
  "'g execution_context \<Rightarrow> ('s, 'g, 'sig, 'rp, 'pq) instruction \<Rightarrow> string + unit" where
  "validate_against c payment =
     and_then (refuse_if (maker_handle c = taker_handle c)
       ''Maker and Taker resolve to the same settlement handle'') (\<lambda>_.
     and_then (refuse_if (reserve_handle c = maker_handle c \<or> reserve_handle c = taker_handle c)
       ''the reserve handle must not be a trading-party handle'') (\<lambda>_.
     and_then (refuse_if
         (\<not> nonzero (before_state_root c) \<or> \<not> nonzero (venue_id c) \<or> \<not> nonzero (defmi_id c))
       ''typed zkPI lacks its venue, DeFMI, or prior state root'') (\<lambda>_.
       case operation c of
         Reserve \<Rightarrow> validate_reserve c payment
       | Release \<Rightarrow> validate_release c payment
       | Consume \<Rightarrow> validate_settlement c payment
       | Settle \<Rightarrow> validate_settlement c payment)))"

section \<open>The typed digest\<close>

record ('s, 'g, 'sig, 'rp, 'pq) typed_instruction =
  payment :: "('s, 'g, 'sig, 'rp, 'pq) instruction"
  ti_context :: "'g execution_context"
  authorization :: 'sig
  pq_authorization :: "'pq option"

text \<open>The context in the order it is hashed, and written by \<open>append_context\<close> of \<^verbatim>\<open>typed_wire.rs\<close>.\<close>

definition context_bytes :: "('g \<Rightarrow> bytes) \<Rightarrow> 'g execution_context \<Rightarrow> bytes" where
  "context_bytes pt c =
     [operation_code (operation c), scope_code (scope c), direction_code (direction c)]
       @ venue_id c @ defmi_id c @ pt (maker_handle c) @ pt (taker_handle c) @ pt (reserve_handle c)
       @ maker_reservation_id c @ u64_be (maker_reservation_sequence c)
       @ taker_reservation_id c @ u64_be (taker_reservation_sequence c)
       @ rfq_nullifier c @ taker_mandate_digest c @ maker_policy_digest c @ maker_mandate_digest c
       @ maker_reserve_receipt_digest c @ taker_reserve_receipt_digest c @ ctx_quote_proof_digest c
       @ market_statement_digest c @ before_state_root c"

definition typed_bytes ::
  "('s, 'g, 'sig, 'rp, 'pq) prims \<Rightarrow> bytes \<Rightarrow> ('s, 'g, 'sig, 'rp, 'pq) instruction
    \<Rightarrow> 'g execution_context \<Rightarrow> bytes" where
  "typed_bytes P domain pay c =
     ascii ''QOMM:ZKPI:TYPED:v1'' @ u64_be (word_of_nat (length domain)) @ domain
       @ digest_for P domain pay @ context_bytes (point_bytes P) c"

definition typed_digest_for ::
  "('s, 'g, 'sig, 'rp, 'pq) prims \<Rightarrow> bytes \<Rightarrow> ('s, 'g, 'sig, 'rp, 'pq) instruction
    \<Rightarrow> 'g execution_context \<Rightarrow> string + bytes" where
  "typed_digest_for P domain pay c =
     and_then (validate_against c pay) (\<lambda>_. Inr (sha512 P (typed_bytes P domain pay c)))"

section \<open>The venue\<close>

definition verify_typed ::
  "('s::field, 'g::ab_group_add, 'sig, 'rp, 'pq) prims \<Rightarrow> ('sig, 'pq, 'pk, 'pol) quorum
    \<Rightarrow> ('g, 'pk, 'pol) venue \<Rightarrow> ('s, 'g, 'sig, 'rp, 'pq) typed_instruction \<Rightarrow> u64 \<Rightarrow> string + unit" where
  "verify_typed P Q v t now =
     and_then (verify P Q v (payment t) now) (\<lambda>_.
     and_then (typed_digest_for P (ve_domain v) (payment t) (ti_context t)) (\<lambda>d.
     and_then (refuse_if (\<not> frost_verify Q (group_public v) d (authorization t))
       ''the typed zkPI authorization does not verify'') (\<lambda>_.
       verify_pq_approval Q v (pq_authorization t) d now)))"

definition settle_typed ::
  "('s::field, 'g::ab_group_add, 'sig, 'rp, 'pq) prims \<Rightarrow> ('sig, 'pq, 'pk, 'pol) quorum
    \<Rightarrow> ('s, 'g, 'sig, 'rp, 'pq) typed_instruction \<Rightarrow> u64 \<Rightarrow> ('g, 'pk, 'pol) venue
    \<Rightarrow> string + ('g, 'pk, 'pol) venue" where
  "settle_typed P Q t now v =
     and_then (verify_typed P Q v t now) (\<lambda>_.
       Inr (v\<lparr>spent := insert (nullifier P (payment t)) (spent v)\<rparr>))"

text \<open>A request to the venue with the time it is handled at.\<close>

datatype ('s, 'g, 'sig, 'rp, 'pq) venue_op =
  Settle_payment "('s, 'g, 'sig, 'rp, 'pq) instruction" u64
| Settle_typed "('s, 'g, 'sig, 'rp, 'pq) typed_instruction" u64

fun op_payment :: "('s, 'g, 'sig, 'rp, 'pq) venue_op \<Rightarrow> ('s, 'g, 'sig, 'rp, 'pq) instruction" where
  "op_payment (Settle_payment i now) = i"
| "op_payment (Settle_typed t now) = payment t"

fun op_time :: "('s, 'g, 'sig, 'rp, 'pq) venue_op \<Rightarrow> u64" where
  "op_time (Settle_payment i now) = now"
| "op_time (Settle_typed t now) = now"

fun venue_exec ::
  "('s::field, 'g::ab_group_add, 'sig, 'rp, 'pq) prims \<Rightarrow> ('sig, 'pq, 'pk, 'pol) quorum
    \<Rightarrow> ('s, 'g, 'sig, 'rp, 'pq) venue_op \<Rightarrow> ('g, 'pk, 'pol) venue \<Rightarrow> string + ('g, 'pk, 'pol) venue" where
  "venue_exec P Q (Settle_payment i now) v = settle P Q i now v"
| "venue_exec P Q (Settle_typed t now) v = settle_typed P Q t now v"

lemma settle_typed_Inr:
  assumes "settle_typed P Q t now v = Inr v'"
  shows "verify P Q v (payment t) now = Inr ()" and "validate_against (ti_context t) (payment t) = Inr ()"
    and "frost_verify Q (group_public v) (sha512 P (typed_bytes P (ve_domain v) (payment t) (ti_context t)))
           (authorization t)"
    and "v' = v\<lparr>spent := insert (nullifier P (payment t)) (spent v)\<rparr>"
  using assms by (auto simp: settle_typed_def verify_typed_def typed_digest_for_def result_simps)

lemma venue_exec_Inr:
  assumes "venue_exec P Q x v = Inr v'"
  shows "verify P Q v (op_payment x) (op_time x) = Inr ()"
    and "v' = v\<lparr>spent := insert (nullifier P (op_payment x)) (spent v)\<rparr>"
  using assms by (cases x; auto dest: settle_Inr settle_typed_Inr)+

lemma verify_fresh: "verify P Q v i now = Inr u \<Longrightarrow> nullifier P i \<notin> spent v"
  using verify_at_Inr(4) by (fastforce simp: verify_def)

interpretation venue: once_machine "venue_exec P Q" "\<lambda>_. True" "\<lambda>x. Some (nullifier P (op_payment x))" spent
  for P :: "('s::field, 'g::ab_group_add, 'sig, 'rp, 'pq) prims" and Q :: "('sig, 'pq, 'pk, 'pol) quorum"
  by unfold_locales (auto dest: venue_exec_Inr(2) verify_fresh[OF venue_exec_Inr(1)])

section \<open>What a validated context says\<close>

lemma evidence_present:
  "try_fold (\<lambda>_ (val, message). refuse_if (\<not> nonzero val) message) () es = Inr ()
     \<longleftrightarrow> list_all (\<lambda>(val, message). nonzero val) es"
  by (induction es) (auto simp: result_simps)

lemma validate_against_parties:
  assumes "validate_against c pay = Inr u"
  shows "maker_handle c \<noteq> taker_handle c" and "reserve_handle c \<noteq> maker_handle c"
    and "reserve_handle c \<noteq> taker_handle c"
  using assms by (auto simp: validate_against_def result_simps)

lemma validate_against_leg:
  assumes "validate_against c pay = Inr u"
  shows "operation c = Reserve \<Longrightarrow> validate_reserve c pay = Inr ()"
    and "operation c = Release \<Longrightarrow> validate_release c pay = Inr ()"
    and "operation c \<in> {Consume, Settle} \<Longrightarrow> validate_settlement c pay = Inr ()"
  using assms by (auto simp: validate_against_def result_simps)

lemma reserve_leg:
  assumes "validate_reserve c pay = Inr ()"
  shows "payee_handle pay = reserve_handle c" and "scope c \<noteq> Joint"
    and "payer_handle pay = (if scope c = Maker then maker_handle c else taker_handle c)"
  using assms by (cases "scope c"; auto simp: validate_reserve_def result_simps)+

lemma release_leg:
  assumes "validate_release c pay = Inr ()"
  shows "payer_handle pay = reserve_handle c" and "scope c \<noteq> Joint"
    and "payee_handle pay = (if scope c = Maker then maker_handle c else taker_handle c)"
  using assms by (cases "scope c"; auto simp: validate_release_def result_simps)+

lemma settlement_leg:
  assumes "validate_settlement c pay = Inr ()"
  shows "scope c = Joint" and "role_mapping c pay"
    and "list_all (\<lambda>(val, message). nonzero val) (settlement_evidence c)"
    and "quote_proof_digest pay = Some q \<Longrightarrow> q = ctx_quote_proof_digest c"
  using assms by (auto simp: validate_settlement_def result_simps evidence_present split: option.splits)

text \<open>The arrays of a context have their Rust lengths.\<close>

definition context_wf :: "'g execution_context \<Rightarrow> bool" where
  "context_wf c \<longleftrightarrow> list_all (\<lambda>x. length x = 32)
     [venue_id c, defmi_id c, maker_reservation_id c, taker_reservation_id c, rfq_nullifier c,
      taker_mandate_digest c, maker_policy_digest c, maker_mandate_digest c,
      maker_reserve_receipt_digest c, taker_reserve_receipt_digest c, ctx_quote_proof_digest c,
      market_statement_digest c, before_state_root c]"

lemma context_bytes_inj:
  assumes P: "points_encode P" and "context_wf c" and "context_wf d"
    and "context_bytes (point_bytes P) c = context_bytes (point_bytes P) d"
  shows "c = d"
  using assms(2-)
  by (intro execution_context.equality)
    (simp_all add: context_bytes_def context_wf_def append_eq_fixed points_encode_length[OF P]
      points_encode_inj[OF P])

end
