(* ===== verification/Readers.thy ===== *)
theory Readers
  imports Zkpi_Prelude
begin

text \<open>
  Readers of byte strings. A Rust \<open>Reader { bytes, at }\<close> is the slice that is left,
  \<open>bytes[at..]\<close>: \<open>take\<close> removes a prefix of it, and \<open>at == bytes.len()\<close> says that nothing is left.
  The locale \<open>prefix_codec\<close> is the contract of a field: its decoder reads back what its encoder
  wrote, whatever follows, and accepts nothing else; its lemmas lift that to repetitions of a field,
  and it is interpreted by the fields of the wire formats.
\<close>

type_synonym ('e, 'a) reader = "bytes \<Rightarrow> 'e + ('a \<times> bytes)"

definition read_then :: "('e, 'a) reader \<Rightarrow> ('a \<Rightarrow> ('e, 'b) reader) \<Rightarrow> ('e, 'b) reader" where
  "read_then p f r = and_then (p r) (\<lambda>(x, r'). f x r')"

definition read_pure :: "'a \<Rightarrow> ('e, 'a) reader" where
  "read_pure x r = Inr (x, r)"

definition read_lift :: "'e + 'a \<Rightarrow> ('e, 'a) reader" where
  "read_lift y r = and_then y (\<lambda>x. Inr (x, r))"

lemma read_then_Inr [result_simps]:
  "read_then p f r = Inr y \<longleftrightarrow> (\<exists>x r'. p r = Inr (x, r') \<and> f x r' = Inr y)"
  by (auto simp: read_then_def result_simps)

lemma read_pure_Inr [result_simps]: "read_pure x r = Inr (y, s) \<longleftrightarrow> y = x \<and> s = r"
  by (auto simp: read_pure_def)

lemma read_lift_Inr [result_simps]: "read_lift v r = Inr (y, s) \<longleftrightarrow> v = Inr y \<and> s = r"
  by (auto simp: read_lift_def result_simps)

lemma read_then_cong [fundef_cong]:
  assumes "r = s" and "p s = q s" and "\<And>x t. q s = Inr (x, t) \<Longrightarrow> f x t = g x t"
  shows "read_then p f r = read_then q g s"
  using assms by (cases "q s") (auto simp: read_then_def)

lemma read_pure_step [simp]: "read_pure x r = Inr (x, r)"
  by (simp add: read_pure_def)

lemma read_lift_step [simp]: "read_lift (Inr x) r = Inr (x, r)"
  by (simp add: read_lift_def)

fun read_many :: "nat \<Rightarrow> ('e, 'a) reader \<Rightarrow> ('e, 'a list) reader" where
  "read_many 0 p = read_pure []"
| "read_many (Suc n) p = read_then p (\<lambda>x. read_then (read_many n p) (\<lambda>xs. read_pure (x # xs)))"

text \<open>\<open>e\<close> makes the error from the number of bytes wanted and the number left.\<close>

definition take_bytes :: "(nat \<Rightarrow> nat \<Rightarrow> 'e) \<Rightarrow> nat \<Rightarrow> ('e, bytes) reader" where
  "take_bytes e n r = (if length r < n then Inl (e n (length r)) else Inr (take n r, drop n r))"

lemma take_bytes_Inr [result_simps]:
  "take_bytes e n r = Inr (x, s) \<longleftrightarrow> r = x @ s \<and> length x = n"
  by (auto simp: take_bytes_def)

lemma take_bytes_append [simp]: "length x = n \<Longrightarrow> take_bytes e n (x @ s) = Inr (x, s)"
  by (simp add: take_bytes_def)

lemma and_then_cong [fundef_cong]:
  assumes "r = s" and "\<And>x. s = Inr x \<Longrightarrow> f x = g x"
  shows "and_then r f = and_then s g"
  using assms by (cases s) simp_all

section \<open>Readers that do not look ahead\<close>

text \<open>What a steady reader accepts does not depend on what follows it.\<close>

locale steady_reader =
  fixes p :: "('e, 'a) reader"
  assumes steady: "p r = Inr (x, s) \<Longrightarrow> p (r @ t) = Inr (x, s @ t)"
begin

lemma whole_then_more: "p r = Inr (x, []) \<Longrightarrow> p (r @ t) = Inr (x, t)"
  using steady[of r x "[]"] by simp

end

named_theorems steady_intros

lemma steady_take [steady_intros]: "steady_reader (take_bytes e n)"
  by unfold_locales (auto simp: result_simps)

lemma steady_pure [steady_intros]: "steady_reader (read_pure x)"
  by unfold_locales simp

lemma steady_lift [steady_intros]: "steady_reader (read_lift v)"
  by unfold_locales (auto simp: result_simps)

lemma steady_then [steady_intros]:
  assumes "steady_reader p" and "\<And>x. steady_reader (f x)"
  shows "steady_reader (read_then p f)"
proof
  fix r x s t
  assume "read_then p f r = Inr (x, s)"
  then obtain y r' where "p r = Inr (y, r')" "f y r' = Inr (x, s)" by (auto simp: read_then_Inr)
  then have "p (r @ t) = Inr (y, r' @ t)" "f y (r' @ t) = Inr (x, s @ t)"
    using steady_reader.steady[OF assms(1)] steady_reader.steady[OF assms(2)] by blast+
  then show "read_then p f (r @ t) = Inr (x, s @ t)" by (simp add: read_then_def)
qed

lemma steady_if [steady_intros]:
  "steady_reader p \<Longrightarrow> steady_reader q \<Longrightarrow> steady_reader (if b then p else q)"
  by simp

lemma steady_many [steady_intros]: "steady_reader p \<Longrightarrow> steady_reader (read_many n p)"
  by (induction n) (simp_all add: steady_intros)

section \<open>The contract of a field\<close>

locale prefix_codec =
  fixes enc :: "'a \<Rightarrow> bytes" and dec :: "('e, 'a) reader" and wf :: "'a \<Rightarrow> bool"
  assumes reads_back: "wf x \<Longrightarrow> dec (enc x @ s) = Inr (x, s)"
    and canonical: "dec r = Inr (x, s) \<Longrightarrow> wf x \<and> r = enc x @ s"
begin

lemma unambiguous:
  assumes "wf x" and "wf y" and "enc x @ s = enc y @ t"
  shows "x = y \<and> s = t"
proof -
  have "Inr (x, s) = dec (enc x @ s)" using reads_back[OF assms(1)] by (rule sym)
  also have "\<dots> = Inr (y, t)" unfolding assms(3) by (rule reads_back[OF assms(2)])
  finally show ?thesis by blast
qed

lemma dec_iff: "dec r = Inr (x, s) \<longleftrightarrow> wf x \<and> r = enc x @ s"
  using reads_back canonical by blast

lemma many_back: "list_all wf xs \<Longrightarrow> read_many (length xs) dec (concat (map enc xs) @ s) = Inr (xs, s)"
  by (induction xs) (simp_all add: read_then_def reads_back)

lemma many_canonical:
  "read_many n dec r = Inr (xs, s) \<Longrightarrow> length xs = n \<and> list_all wf xs \<and> r = concat (map enc xs) @ s"
proof (induction n arbitrary: r xs)
  case 0
  then show ?case by simp
next
  case (Suc n)
  obtain x r' where x: "dec r = Inr (x, r')"
    and rest: "read_then (read_many n dec) (\<lambda>xs. read_pure (x # xs)) r' = Inr (xs, s)"
    using Suc.prems by (simp add: read_then_Inr del: read_pure_step) blast
  obtain ys where ys: "read_many n dec r' = Inr (ys, s)" and out: "xs = x # ys"
    using rest by (auto simp: read_then_Inr)
  show ?case using Suc.IH[OF ys] canonical[OF x] out by simp
qed

lemma many_iff:
  "read_many n dec r = Inr (xs, s) \<longleftrightarrow> length xs = n \<and> list_all wf xs \<and> r = concat (map enc xs) @ s"
  using many_back many_canonical by blast

end

text \<open>Two fields, one after the other.\<close>

lemma pair_codec:
  assumes "prefix_codec enc1 dec1 wf1" and "prefix_codec enc2 dec2 wf2"
  shows "prefix_codec (\<lambda>(x, y). enc1 x @ enc2 y)
           (read_then dec1 (\<lambda>x. read_then dec2 (\<lambda>y. read_pure (x, y)))) (\<lambda>(x, y). wf1 x \<and> wf2 y)"
proof -
  have i1: "dec1 r = Inr (x, s) \<longleftrightarrow> wf1 x \<and> r = enc1 x @ s" for r x s
    using prefix_codec.dec_iff[OF assms(1)] .
  have i2: "dec2 r = Inr (x, s) \<longleftrightarrow> wf2 x \<and> r = enc2 x @ s" for r x s
    using prefix_codec.dec_iff[OF assms(2)] .
  show ?thesis by unfold_locales (auto simp: result_simps i1 i2)
qed

section \<open>Integers\<close>

definition read_u16 :: "(nat \<Rightarrow> nat \<Rightarrow> 'e) \<Rightarrow> ('e, u16) reader" where
  "read_u16 e = read_then (take_bytes e 2) (\<lambda>b. read_pure (word_of_nat (from_be b)))"

definition read_u32 :: "(nat \<Rightarrow> nat \<Rightarrow> 'e) \<Rightarrow> ('e, u32) reader" where
  "read_u32 e = read_then (take_bytes e 4) (\<lambda>b. read_pure (word_of_nat (from_be b)))"

definition read_u64 :: "(nat \<Rightarrow> nat \<Rightarrow> 'e) \<Rightarrow> ('e, u64) reader" where
  "read_u64 e = read_then (take_bytes e 8) (\<lambda>b. read_pure (word_of_nat (from_be b)))"

lemma steady_ints [steady_intros]:
  "steady_reader (read_u16 e)" "steady_reader (read_u32 e)" "steady_reader (read_u64 e)"
  unfolding read_u16_def read_u32_def read_u64_def by (intro steady_intros)+

interpretation u16f: prefix_codec u16_be "read_u16 e" "\<lambda>_. True" for e
  by unfold_locales (auto simp: read_u16_def result_simps from_be_u16 u16_be_from)

interpretation u32f: prefix_codec u32_be "read_u32 e" "\<lambda>_. True" for e
  by unfold_locales (auto simp: read_u32_def result_simps from_be_u32 u32_be_from)

interpretation u64f: prefix_codec u64_be "read_u64 e" "\<lambda>_. True" for e
  by unfold_locales (auto simp: read_u64_def result_simps from_be_u64 u64_be_from)

interpretation fixed: prefix_codec "\<lambda>x. x" "take_bytes e n" "\<lambda>x. length x = n" for e n
  by unfold_locales (auto simp: result_simps)

end
