(* ===== verification/Wire.thy ===== *)
theory Wire
  imports Instructions Readers
begin

text \<open>
  \<^verbatim>\<open>src/rust/zkpi/src/wire.rs\<close>: the bytes of an instruction. \<open>encode\<close> returns \<open>None\<close> where the
  source panics; \<open>decode\<close> returns the source's errors. A hybrid container holds a classical body,
  which \<open>decode\<close> reads by calling itself; the recursion ends because the body is shorter.
\<close>

section \<open>Constants and errors\<close>

definition MAGIC :: bytes where "MAGIC = ascii ''QOMMZKPI''"
definition LEGACY_VERSION :: u16 where "LEGACY_VERSION = 1"
definition VERSION :: u16 where "VERSION = 2"
definition HYBRID_VERSION :: u16 where "HYBRID_VERSION = 3"

datatype wire_error =
  NotAnInstruction
| UnknownVersion u16
| Truncated (wanted: nat) (had: nat) (at_field: string)
| NotAPoint string
| BadScalar string
| BadSignature
| Trailing nat

section \<open>The reader\<close>

definition take_field :: "nat \<Rightarrow> string \<Rightarrow> (wire_error, bytes) reader" where
  "take_field n what = take_bytes (\<lambda>w h. Truncated w h what) n"

definition point_field ::
  "('s, 'g, 'sig, 'rp, 'pq) prims \<Rightarrow> string \<Rightarrow> (wire_error, 'g) reader" where
  "point_field P what =
     read_then (take_field 32 what) (\<lambda>b. read_lift (ok_or (decompress P b) (NotAPoint what)))"

definition scalar_field ::
  "('s, 'g, 'sig, 'rp, 'pq) prims \<Rightarrow> string \<Rightarrow> (wire_error, 's) reader" where
  "scalar_field P what =
     read_then (take_field 32 what) (\<lambda>b. read_lift (ok_or (from_canonical_bytes P b) (BadScalar what)))"

definition u64_field :: "string \<Rightarrow> (wire_error, u64) reader" where
  "u64_field what = read_u64 (\<lambda>w h. Truncated w h what)"

definition u32_field :: "string \<Rightarrow> (wire_error, u32) reader" where
  "u32_field what = read_u32 (\<lambda>w h. Truncated w h what)"

definition u16_field :: "string \<Rightarrow> (wire_error, u16) reader" where
  "u16_field what = read_u16 (\<lambda>w h. Truncated w h what)"

text \<open>The check \<open>r.at != bytes.len()\<close> at the end of every format.\<close>

definition nothing_left :: "(nat \<Rightarrow> 'e) \<Rightarrow> ('e, unit) reader" where
  "nothing_left e r = (if r \<noteq> [] then Inl (e (length r)) else Inr ((), r))"

section \<open>Threshold range proofs\<close>

definition bit_entry_bytes ::
  "('s, 'g, 'sig, 'rp, 'pq) prims \<Rightarrow> 'g \<times> ('s, 'g) product_proof \<Rightarrow> bytes" where
  "bit_entry_bytes P = (\<lambda>(c, q).
     point_bytes P c @ point_bytes P (pp_t_factor q) @ point_bytes P (pp_t_product q)
       @ scalar_to_bytes P (pp_z_b q) @ scalar_to_bytes P (pp_z_rb q) @ scalar_to_bytes P (pp_z_s q))"

definition linkage_bytes :: "('s, 'g, 'sig, 'rp, 'pq) prims \<Rightarrow> ('s, 'g) opening_proof \<Rightarrow> bytes" where
  "linkage_bytes P l =
     point_bytes P (op_t l) @ scalar_to_bytes P (op_z_value l) @ scalar_to_bytes P (op_z_blinding l)"

definition encode_threshold_range ::
  "('s, 'g, 'sig, 'rp, 'pq) prims \<Rightarrow> ('s, 'g) threshold_range_proof \<Rightarrow> bytes option" where
  "encode_threshold_range P p =
     (if tr_bits p < 2 ^ 16
      then Some (u16_be (word_of_nat (tr_bits p))
             @ concat (map (bit_entry_bytes P) (zip (tr_bit_commitments p) (tr_bit_proofs p)))
             @ linkage_bytes P (tr_linkage p))
      else None)"

definition bit_entry_field ::
  "('s, 'g, 'sig, 'rp, 'pq) prims \<Rightarrow> (wire_error, 'g \<times> ('s, 'g) product_proof) reader" where
  "bit_entry_field P =
     read_then (point_field P ''threshold bit commitment'') (\<lambda>c.
     read_then (point_field P ''threshold bit factor nonce'') (\<lambda>tf.
     read_then (point_field P ''threshold bit product nonce'') (\<lambda>tp.
     read_then (scalar_field P ''threshold bit value response'') (\<lambda>zb.
     read_then (scalar_field P ''threshold bit blinding response'') (\<lambda>zr.
     read_then (scalar_field P ''threshold bit relation response'') (\<lambda>zs.
       read_pure (c, \<lparr>pp_t_factor = tf, pp_t_product = tp, pp_z_b = zb, pp_z_rb = zr, pp_z_s = zs\<rparr>)))))))"

definition linkage_field ::
  "('s, 'g, 'sig, 'rp, 'pq) prims \<Rightarrow> (wire_error, ('s, 'g) opening_proof) reader" where
  "linkage_field P =
     read_then (point_field P ''threshold range linkage nonce'') (\<lambda>t.
     read_then (scalar_field P ''threshold range linkage value response'') (\<lambda>zv.
     read_then (scalar_field P ''threshold range linkage blinding response'') (\<lambda>zb.
       read_pure \<lparr>op_t = t, op_z_value = zv, op_z_blinding = zb\<rparr>)))"

definition decode_threshold_range ::
  "('s, 'g, 'sig, 'rp, 'pq) prims \<Rightarrow> bytes \<Rightarrow> wire_error + ('s, 'g) threshold_range_proof" where
  "decode_threshold_range P raw =
     and_then (read_then (u16_field ''threshold range width'') (\<lambda>w.
       let bits = unat w in
       read_then (read_many bits (bit_entry_field P)) (\<lambda>entries.
       read_then (linkage_field P) (\<lambda>linkage.
       read_then (nothing_left Trailing) (\<lambda>_.
         read_pure \<lparr>tr_bit_commitments = map fst entries, tr_bit_proofs = map snd entries,
                    tr_linkage = linkage, tr_bits = bits\<rparr>)))) raw)
       (\<lambda>(p, _). Inr p)"

section \<open>Encoding\<close>

text \<open>A length and the bytes, \<open>(bytes.len() as u32).to_be_bytes()\<close> first.\<close>

definition length_prefixed :: "bytes \<Rightarrow> bytes" where
  "length_prefixed b = u32_be (word_of_nat (length b)) @ b"

definition ranges_bytes ::
  "('s, 'g, 'sig, 'rp, 'pq) prims \<Rightarrow> ('s, 'g, 'rp) range_evidence \<Rightarrow> bytes option" where
  "ranges_bytes P e =
     (case e of
        Bulletproof amount price commitments \<Rightarrow>
          Some (u16_be (word_of_nat (length commitments)) @ concat commitments
            @ length_prefixed (rp_to_bytes P amount) @ length_prefixed (rp_to_bytes P price))
      | Threshold amount price \<Rightarrow>
          Option.bind (encode_threshold_range P amount) (\<lambda>a.
          Option.bind (encode_threshold_range P price) (\<lambda>p.
            Some (length_prefixed a @ length_prefixed p))))"

definition instruction_version :: "('s, 'g, 'sig, 'rp, 'pq) instruction \<Rightarrow> u16 option" where
  "instruction_version i =
     (case (ranges i, quote_binding i) of
        (Bulletproof _ _ _, LegacyPackedKey _) \<Rightarrow> Some LEGACY_VERSION
      | (Threshold _ _, ProofDigest _) \<Rightarrow> Some VERSION
      | _ \<Rightarrow> None)"

definition binding_field_bytes :: "quote_binding \<Rightarrow> bytes" where
  "binding_field_bytes q = (case q of LegacyPackedKey v \<Rightarrow> u64_be v | ProofDigest v \<Rightarrow> v)"

definition encode_classical ::
  "('s, 'g, 'sig, 'rp, 'pq) prims \<Rightarrow> ('s, 'g, 'sig, 'rp, 'pq) instruction \<Rightarrow> bytes option" where
  "encode_classical P i =
     Option.bind (instruction_version i) (\<lambda>version.
     Option.bind (sig_serialize P (signature i)) (\<lambda>sg.
     Option.bind (ranges_bytes P (ranges i)) (\<lambda>rs.
       Some (MAGIC @ u16_be version
         @ concat (map (point_bytes P)
             [amount_commitment i, price_commitment i, asset_commitment i, payer_handle i, payee_handle i])
         @ u64_be (deadline i) @ nonce i @ binding_field_bytes (quote_binding i) @ sg @ rs))))"

definition encode ::
  "('s, 'g, 'sig, 'rp, 'pq) prims \<Rightarrow> ('s, 'g, 'sig, 'rp, 'pq) instruction \<Rightarrow> bytes option" where
  "encode P i =
     Option.bind (encode_classical P i) (\<lambda>classical.
       case pq_approval i of
         None \<Rightarrow> Some classical
       | Some approval \<Rightarrow>
           Option.bind (pq_encode P approval) (\<lambda>pq.
             Some (MAGIC @ u16_be HYBRID_VERSION @ length_prefixed classical @ length_prefixed pq)))"

section \<open>Decoding\<close>

text \<open>A length, that many bytes, and the decoder of those bytes.\<close>

definition sized_field :: "string \<Rightarrow> string \<Rightarrow> (bytes \<Rightarrow> wire_error + 'a) \<Rightarrow> (wire_error, 'a) reader" where
  "sized_field len_name name dec =
     read_then (u32_field len_name) (\<lambda>n.
     read_then (take_field (unat n) name) (\<lambda>raw. read_lift (dec raw)))"

definition rp_field ::
  "('s, 'g, 'sig, 'rp, 'pq) prims \<Rightarrow> string \<Rightarrow> (wire_error, 'rp) reader" where
  "rp_field P what = sized_field what what (\<lambda>raw. ok_or (rp_from_bytes P raw) (NotAPoint what))"

definition legacy_ranges_field ::
  "('s, 'g, 'sig, 'rp, 'pq) prims \<Rightarrow> (wire_error, ('s, 'g, 'rp) range_evidence) reader" where
  "legacy_ranges_field P =
     read_then (u16_field ''range commitment count'') (\<lambda>count.
     read_then (read_many (unat count) (take_field 32 ''range commitment'')) (\<lambda>commitments.
     read_then (rp_field P ''amount range proof'') (\<lambda>amount.
     read_then (rp_field P ''price range proof'') (\<lambda>price.
       read_pure (Bulletproof amount price commitments)))))"

definition threshold_ranges_field ::
  "('s, 'g, 'sig, 'rp, 'pq) prims \<Rightarrow> (wire_error, ('s, 'g, 'rp) range_evidence) reader" where
  "threshold_ranges_field P =
     read_then (sized_field ''threshold amount range proof'' ''threshold amount range proof''
                  (decode_threshold_range P)) (\<lambda>amount.
     read_then (sized_field ''threshold price range proof'' ''threshold price range proof''
                  (decode_threshold_range P)) (\<lambda>price.
       read_pure (Threshold amount price)))"

definition binding_field :: "u16 \<Rightarrow> (wire_error, quote_binding) reader" where
  "binding_field version =
     (if version = LEGACY_VERSION
      then read_then (u64_field ''quote key'') (\<lambda>k. read_pure (LegacyPackedKey k))
      else read_then (take_field 32 ''quote proof digest'') (\<lambda>d. read_pure (ProofDigest d)))"

text \<open>The fields of a classical body after its version, lines 320 to 378.\<close>

definition classical_fields ::
  "('s, 'g, 'sig, 'rp, 'pq) prims \<Rightarrow> u16 \<Rightarrow> (wire_error, ('s, 'g, 'sig, 'rp, 'pq) instruction) reader" where
  "classical_fields P version =
     read_then (point_field P ''amount commitment'') (\<lambda>amount.
     read_then (point_field P ''price commitment'') (\<lambda>price.
     read_then (point_field P ''asset commitment'') (\<lambda>asset.
     read_then (point_field P ''payer handle'') (\<lambda>payer.
     read_then (point_field P ''payee handle'') (\<lambda>payee.
     read_then (u64_field ''deadline'') (\<lambda>dl.
     read_then (take_field 32 ''nonce'') (\<lambda>non.
     read_then (binding_field version) (\<lambda>q.
     read_then (take_field 64 ''signature'') (\<lambda>raw.
     read_then (read_lift (ok_or (sig_deserialize P raw) BadSignature)) (\<lambda>sg.
     read_then (if version = LEGACY_VERSION then legacy_ranges_field P else threshold_ranges_field P) (\<lambda>rs.
       read_pure \<lparr>amount_commitment = amount, price_commitment = price, asset_commitment = asset,
                  ranges = rs, payer_handle = payer, payee_handle = payee, deadline = dl, nonce = non,
                  quote_binding = q, signature = sg, pq_approval = None\<rparr>)))))))))))"

text \<open>\<open>body.get(8..10)\<close>.\<close>

definition get_range :: "nat \<Rightarrow> nat \<Rightarrow> bytes \<Rightarrow> bytes option" where
  "get_range i j b = (if i \<le> j \<and> j \<le> length b then Some (take (j - i) (drop i b)) else None)"

function (sequential) decode ::
  "('s, 'g, 'sig, 'rp, 'pq) prims \<Rightarrow> bytes \<Rightarrow> wire_error + ('s, 'g, 'sig, 'rp, 'pq) instruction" where
  "decode P b =
     and_then (take_field 8 ''magic'' b) (\<lambda>(m, r).
     and_then (refuse_if (m \<noteq> MAGIC) NotAnInstruction) (\<lambda>_.
     and_then (u16_field ''version'' r) (\<lambda>(version, r).
     if version = HYBRID_VERSION
     then
       and_then (u32_field ''classical instruction length'' r) (\<lambda>(len, r).
       and_then (refuse_if (2 ^ 20 < unat len) BadSignature) (\<lambda>_.
       and_then (take_field (unat len) ''classical instruction'' r) (\<lambda>(body, r).
       and_then (ok_or (get_range 8 10 body) BadSignature) (\<lambda>inner_version.
       and_then (refuse_if (inner_version \<noteq> u16_be LEGACY_VERSION \<and> inner_version \<noteq> u16_be VERSION)
                  BadSignature) (\<lambda>_.
       and_then (decode P body) (\<lambda>i.
       and_then (sized_field ''PQ approval length'' ''PQ approval''
                  (\<lambda>raw. ok_or (pq_decode P raw) BadSignature) r) (\<lambda>(approval, r).
       and_then (nothing_left Trailing r) (\<lambda>_.
         Inr (i\<lparr>pq_approval := Some approval\<rparr>)))))))))
     else
       and_then (refuse_if (version \<noteq> LEGACY_VERSION \<and> version \<noteq> VERSION) (UnknownVersion version)) (\<lambda>_.
       and_then (classical_fields P version r) (\<lambda>(i, r).
       and_then (nothing_left Trailing r) (\<lambda>_. Inr i))))))"
  by pat_completeness auto
termination
  by (relation "measure (\<lambda>(P, b). length b)")
    (auto simp: take_field_def u16_field_def u32_field_def result_simps u16f.dec_iff u32f.dec_iff)

declare decode.simps [simp del]

definition fingerprint :: "('s, 'g, 'sig, 'rp, 'pq) prims \<Rightarrow> bytes \<Rightarrow> bytes" where
  "fingerprint P b = sha256 P (ascii ''QOMM:ZKPI:WIRE:v1'' @ b)"

end
