(* ===== verification/Wire_Codec.thy ===== *)
theory Wire_Codec
  imports Wire
begin

text \<open>
  The wire format of instructions is a codec: \<open>decode\<close> reads back what \<open>encode\<close> wrote, accepts no
  other bytes for a version 2 body, and refuses every extension of an accepted message. The
  documented behaviour of the encodings it is built from enters as \<open>codecs_round_trip\<close> and
  \<open>codecs_canonical\<close>.
\<close>

definition codecs_round_trip :: "('s, 'g, 'sig, 'rp, 'pq) prims \<Rightarrow> bool" where
  "codecs_round_trip P \<longleftrightarrow>
     points_encode P
     \<and> (\<forall>x. length (scalar_to_bytes P x) = 32 \<and> from_canonical_bytes P (scalar_to_bytes P x) = Some x)
     \<and> (\<forall>g b. sig_serialize P g = Some b \<longrightarrow> length b = 64 \<and> sig_deserialize P b = Some g)
     \<and> (\<forall>q. rp_from_bytes P (rp_to_bytes P q) = Some q)
     \<and> (\<forall>a b. pq_encode P a = Some b \<longrightarrow> pq_decode P b = Some a)"

definition codecs_canonical :: "('s, 'g, 'sig, 'rp, 'pq) prims \<Rightarrow> bool" where
  "codecs_canonical P \<longleftrightarrow>
     (\<forall>b p. length b = 32 \<longrightarrow> decompress P b = Some p \<longrightarrow> point_bytes P p = b)
     \<and> (\<forall>b x. length b = 32 \<longrightarrow> from_canonical_bytes P b = Some x \<longrightarrow> scalar_to_bytes P x = b)
     \<and> (\<forall>b g. length b = 64 \<longrightarrow> sig_deserialize P b = Some g \<longrightarrow> sig_serialize P g = Some b)
     \<and> (\<forall>b a. pq_decode P b = Some a \<longrightarrow> pq_encode P a = Some b)"

section \<open>Fields\<close>

named_theorems wire_fields

lemma take_field_Inr [wire_fields]:
  "take_field n what r = Inr (x, s) \<longleftrightarrow> r = x @ s \<and> length x = n"
  by (simp add: take_field_def result_simps)

lemma int_fields_Inr [wire_fields]:
  "u64_field what r = Inr (a, s) \<longleftrightarrow> r = u64_be a @ s"
  "u32_field what r = Inr (b, s) \<longleftrightarrow> r = u32_be b @ s"
  "u16_field what r = Inr (c, s) \<longleftrightarrow> r = u16_be c @ s"
  by (simp_all add: u64_field_def u32_field_def u16_field_def u64f.dec_iff u32f.dec_iff u16f.dec_iff)

lemma nothing_left_Inr [wire_fields]: "nothing_left e r = Inr (u, s) \<longleftrightarrow> r = [] \<and> s = []"
  by (auto simp: nothing_left_def)

lemma point_field_back:
  "codecs_round_trip P \<Longrightarrow> point_field P what (point_bytes P p @ s) = Inr (p, s)"
  by (simp add: point_field_def read_then_def take_field_def codecs_round_trip_def points_encode_def)

lemma scalar_field_back:
  "codecs_round_trip P \<Longrightarrow> scalar_field P what (scalar_to_bytes P x @ s) = Inr (x, s)"
  by (simp add: scalar_field_def read_then_def take_field_def codecs_round_trip_def)

lemma point_field_canonical:
  "codecs_canonical P \<Longrightarrow> point_field P what r = Inr (p, s) \<Longrightarrow> r = point_bytes P p @ s"
  by (auto simp: point_field_def read_then_Inr take_field_Inr read_lift_Inr ok_or_eq_Inr codecs_canonical_def)

lemma scalar_field_canonical:
  "codecs_canonical P \<Longrightarrow> scalar_field P what r = Inr (x, s) \<Longrightarrow> r = scalar_to_bytes P x @ s"
  by (auto simp: scalar_field_def read_then_Inr take_field_Inr read_lift_Inr ok_or_eq_Inr codecs_canonical_def)

text \<open>With both laws the readers of points and scalars are codecs.\<close>

lemma group_codecs:
  assumes "codecs_round_trip P" and "codecs_canonical P"
  shows "prefix_codec (point_bytes P) (point_field P what) (\<lambda>_. True)"
    and "prefix_codec (scalar_to_bytes P) (scalar_field P what) (\<lambda>_. True)"
  by (unfold_locales; simp add: point_field_back scalar_field_back assms(1)
      point_field_canonical[OF assms(2)] scalar_field_canonical[OF assms(2)])+

lemma bit_entry_back:
  assumes "codecs_round_trip P"
  shows "bit_entry_field P (bit_entry_bytes P e @ s) = Inr (e, s)"
  by (cases e)
    (simp add: bit_entry_field_def bit_entry_bytes_def read_then_def point_field_back[OF assms]
      scalar_field_back[OF assms])

lemma linkage_back:
  assumes "codecs_round_trip P"
  shows "linkage_field P (linkage_bytes P l @ s) = Inr (l, s)"
  by (simp add: linkage_field_def linkage_bytes_def read_then_def point_field_back[OF assms]
      scalar_field_back[OF assms])

lemma bit_entry_canonical:
  assumes "codecs_canonical P" and "bit_entry_field P r = Inr (e, s)"
  shows "r = bit_entry_bytes P e @ s"
  using assms(2)
  by (auto simp: bit_entry_field_def bit_entry_bytes_def read_then_Inr
      dest!: point_field_canonical[OF assms(1)] scalar_field_canonical[OF assms(1)])

lemma linkage_canonical:
  assumes "codecs_canonical P" and "linkage_field P r = Inr (l, s)"
  shows "r = linkage_bytes P l @ s"
  using assms(2)
  by (auto simp: linkage_field_def linkage_bytes_def read_then_Inr
      dest!: point_field_canonical[OF assms(1)] scalar_field_canonical[OF assms(1)])

lemma bit_entry_codec:
  "codecs_round_trip P \<Longrightarrow> codecs_canonical P
    \<Longrightarrow> prefix_codec (bit_entry_bytes P) (bit_entry_field P) (\<lambda>_. True)"
  by unfold_locales (auto simp: bit_entry_back dest: bit_entry_canonical)

text \<open>Repetition needs only one direction each.\<close>

lemma read_many_back:
  assumes "\<And>x s. x \<in> set xs \<Longrightarrow> dec (enc x @ s) = Inr (x, s)"
  shows "read_many (length xs) dec (concat (map enc xs) @ s) = Inr (xs, s)"
  using assms by (induction xs) (simp_all add: read_then_def)

lemma read_many_canonical:
  assumes "\<And>r x s. dec r = Inr (x, s) \<Longrightarrow> r = enc x @ s"
  shows "read_many n dec r = Inr (xs, s) \<Longrightarrow> length xs = n \<and> r = concat (map enc xs) @ s"
proof (induction n arbitrary: r xs)
  case (Suc n)
  then obtain x r' ys where "dec r = Inr (x, r')" "read_many n dec r' = Inr (ys, s)" "xs = x # ys"
    by (auto simp: read_then_Inr)
  then show ?case using Suc.IH assms by fastforce
qed simp

section \<open>Threshold range proofs\<close>

definition range_shape :: "('s, 'g) threshold_range_proof \<Rightarrow> bool" where
  "range_shape p \<longleftrightarrow> length (tr_bit_commitments p) = tr_bits p \<and> length (tr_bit_proofs p) = tr_bits p"

lemma verified_range_shape:
  "verify_threshold_range Z key C p ctx \<Longrightarrow> range_shape p"
  by (auto simp: verify_threshold_range_def range_shape_def split: if_splits)

lemma threshold_range_back:
  assumes "codecs_round_trip P" and "range_shape p" and "encode_threshold_range P p = Some raw"
  shows "decode_threshold_range P raw = Inr p"
proof -
  let ?es = "zip (tr_bit_commitments p) (tr_bit_proofs p)"
  have bits: "tr_bits p < 2 ^ 16" and raw: "raw = u16_be (word_of_nat (tr_bits p))
      @ concat (map (bit_entry_bytes P) ?es) @ linkage_bytes P (tr_linkage p)"
    using assms(3) by (auto simp: encode_threshold_range_def split: if_splits)
  have "unat (word_of_nat (tr_bits p) :: u16) = tr_bits p"
    using bits by (simp add: unat_of_nat take_bit_nat_eq_self)
  moreover have "read_many (tr_bits p) (bit_entry_field P)
      (concat (map (bit_entry_bytes P) ?es) @ linkage_bytes P (tr_linkage p))
      = Inr (?es, linkage_bytes P (tr_linkage p))"
    using read_many_back[of ?es "bit_entry_field P" "bit_entry_bytes P"] bit_entry_back[OF assms(1)] assms(2)
    by (simp add: range_shape_def)
  moreover have "linkage_field P (linkage_bytes P (tr_linkage p)) = Inr (tr_linkage p, [])"
    using linkage_back[OF assms(1), of _ "[]"] by simp
  moreover have "u16_field w (u16_be (word_of_nat (tr_bits p)) @ s) = Inr (word_of_nat (tr_bits p), s)" for w s
    by (simp add: int_fields_Inr)
  ultimately show ?thesis
    using assms(2) by (simp add: raw decode_threshold_range_def read_then_def nothing_left_def range_shape_def Let_def)
qed

lemma threshold_range_canonical:
  assumes "codecs_canonical P" and "decode_threshold_range P raw = Inr p"
  shows "encode_threshold_range P p = Some raw" and "range_shape p"
proof -
  obtain w es l r s where w: "raw = u16_be w @ r"
    and es: "read_many (unat w) (bit_entry_field P) r = Inr (es, s)"
    and l: "linkage_field P s = Inr (l, [])"
    and p: "p = \<lparr>tr_bit_commitments = map fst es, tr_bit_proofs = map snd es, tr_linkage = l, tr_bits = unat w\<rparr>"
    using assms(2) by (auto simp: decode_threshold_range_def result_simps wire_fields Let_def)
  have many: "length es = unat w" "r = concat (map (bit_entry_bytes P) es) @ s"
    using read_many_canonical[OF bit_entry_canonical[OF assms(1)] es] by auto
  have "unat w < 2 ^ 16" using unat_bound[of w] by simp
  then show "encode_threshold_range P p = Some raw" "range_shape p"
    using w many linkage_canonical[OF assms(1) l]
    by (simp_all add: p encode_threshold_range_def range_shape_def zip_map_fst_snd)
qed

lemma bit_entry_length:
  "codecs_round_trip P \<Longrightarrow> length (bit_entry_bytes P e) = 192"
  by (cases e) (simp add: bit_entry_bytes_def codecs_round_trip_def points_encode_def)

lemma threshold_range_length:
  assumes "codecs_round_trip P" and "range_shape p" and "encode_threshold_range P p = Some raw"
  shows "length raw = threshold_range_encoded_len p" and "length raw < 2 ^ 32"
proof -
  have "length (concat (map (bit_entry_bytes P) es)) = 192 * length es" for es
    by (induction es) (simp_all add: bit_entry_length[OF assms(1)])
  moreover have "length (linkage_bytes P l) = 96" for l
    using assms(1) by (simp add: linkage_bytes_def codecs_round_trip_def points_encode_def)
  ultimately show len: "length raw = threshold_range_encoded_len p"
    using assms(2,3)
    by (auto simp: encode_threshold_range_def threshold_range_encoded_len_def range_shape_def split: if_splits)
  have "tr_bits p < 65536" using assms(3) by (simp add: encode_threshold_range_def split: if_splits)
  then show "length raw < 2 ^ 32"
    using len assms(2) by (simp add: threshold_range_encoded_len_def range_shape_def)
qed

section \<open>Bodies\<close>

lemma sized_back:
  assumes "length raw < 2 ^ 32" and "dec raw = Inr x"
  shows "sized_field m n dec (length_prefixed raw @ s) = Inr (x, s)"
proof -
  have "unat (word_of_nat (length raw) :: u32) = length raw"
    using assms(1) by (simp add: unat_of_nat take_bit_nat_eq_self)
  moreover have "u32_field m (u32_be (word_of_nat (length raw)) @ raw @ s) = Inr (word_of_nat (length raw), raw @ s)"
    by (simp add: int_fields_Inr)
  ultimately show ?thesis
    using assms(2) by (simp add: sized_field_def length_prefixed_def read_then_def take_field_def)
qed

lemma sized_canonical:
  assumes "sized_field m n dec r = Inr (x, s)"
  obtains raw where "r = length_prefixed raw @ s" and "dec raw = Inr x"
  using assms by (auto simp: sized_field_def result_simps wire_fields length_prefixed_def)

text \<open>What the types and the \<open>u16\<close> and \<open>u32\<close> lengths of the format can hold.\<close>

definition ranges_fit ::
  "('s, 'g, 'sig, 'rp, 'pq) prims \<Rightarrow> ('s, 'g, 'rp) range_evidence \<Rightarrow> bool" where
  "ranges_fit P e =
     (case e of
        Bulletproof amount price commitments \<Rightarrow>
          length commitments < 2 ^ 16 \<and> list_all (\<lambda>c. length c = 32) commitments
          \<and> length (rp_to_bytes P amount) < 2 ^ 32 \<and> length (rp_to_bytes P price) < 2 ^ 32
      | Threshold amount price \<Rightarrow> range_shape amount \<and> range_shape price)"

lemma threshold_ranges_back:
  assumes "codecs_round_trip P" and "ranges_fit P (Threshold a p)" and "ranges_bytes P (Threshold a p) = Some b"
  shows "threshold_ranges_field P b = Inr (Threshold a p, [])"
proof -
  obtain x y where x: "encode_threshold_range P a = Some x" and y: "encode_threshold_range P p = Some y"
    and b: "b = length_prefixed x @ length_prefixed y"
    using assms(3) by (auto simp: ranges_bytes_def bind_eq_Some_conv)
  have "decode_threshold_range P x = Inr a" "length x < 2 ^ 32"
    "decode_threshold_range P y = Inr p" "length y < 2 ^ 32"
    using assms(2) threshold_range_back[OF assms(1) _ x] threshold_range_length(2)[OF assms(1) _ x]
      threshold_range_back[OF assms(1) _ y] threshold_range_length(2)[OF assms(1) _ y]
    by (auto simp: ranges_fit_def)
  then show ?thesis
    using sized_back[of y _ p _ _ "[]"] by (simp add: b threshold_ranges_field_def read_then_def sized_back)
qed

lemma legacy_ranges_back:
  assumes "codecs_round_trip P" and "ranges_fit P (Bulletproof a p cs)"
    and "ranges_bytes P (Bulletproof a p cs) = Some b"
  shows "legacy_ranges_field P b = Inr (Bulletproof a p cs, [])"
proof -
  let ?t = "length_prefixed (rp_to_bytes P a) @ length_prefixed (rp_to_bytes P p)"
  have b: "b = u16_be (word_of_nat (length cs)) @ concat cs @ ?t"
    using assms(3) by (simp add: ranges_bytes_def)
  have n: "unat (word_of_nat (length cs) :: u16) = length cs"
    using assms(2) by (simp add: ranges_fit_def unat_of_nat take_bit_nat_eq_self)
  have "read_many (length cs) (take_field 32 w) (concat (map (\<lambda>x. x) cs) @ ?t) = Inr (cs, ?t)" for w
    by (rule read_many_back) (use assms(2) in \<open>auto simp: ranges_fit_def take_field_def list_all_iff\<close>)
  moreover have "rp_field P w (length_prefixed (rp_to_bytes P q) @ s) = Inr (q, s)"
    if "length (rp_to_bytes P q) < 2 ^ 32" for q w s
    using that assms(1) by (simp add: rp_field_def sized_back codecs_round_trip_def)
  note this[of a] this[of p _ "[]"]
  moreover have "u16_field w (u16_be (word_of_nat (length cs)) @ s) = Inr (word_of_nat (length cs), s)" for w s
    by (simp add: int_fields_Inr)
  ultimately show ?thesis
    using assms(2) by (simp add: b n legacy_ranges_field_def read_then_def ranges_fit_def)
qed

section \<open>Containers\<close>

lemma magic_length [simp]: "length MAGIC = 8"
  by (simp add: MAGIC_def)

lemma versions_differ:
  "LEGACY_VERSION \<noteq> VERSION" "LEGACY_VERSION \<noteq> HYBRID_VERSION" "VERSION \<noteq> HYBRID_VERSION"
  by (simp_all add: LEGACY_VERSION_def VERSION_def HYBRID_VERSION_def)

lemma field_steps:
  "length x = n \<Longrightarrow> take_field n what (x @ s) = Inr (x, s)"
  "u64_field what (u64_be a @ s) = Inr (a, s)"
  "u32_field what (u32_be b @ s) = Inr (b, s)"
  "u16_field what (u16_be c @ s) = Inr (c, s)"
  by (simp_all add: take_field_Inr int_fields_Inr)

lemma decode_classical:
  assumes "version = LEGACY_VERSION \<or> version = VERSION"
  shows "decode P (MAGIC @ u16_be version @ r)
    = and_then (classical_fields P version r) (\<lambda>(i, r). and_then (nothing_left Trailing r) (\<lambda>_. Inr i))"
  using assms versions_differ by (subst decode.simps) (auto simp: field_steps)

lemma decode_hybrid:
  assumes "length body \<le> 2 ^ 20" and "get_range 8 10 body = Some v"
    and "v = u16_be LEGACY_VERSION \<or> v = u16_be VERSION"
  shows "decode P (MAGIC @ u16_be HYBRID_VERSION @ length_prefixed body @ r)
    = and_then (decode P body) (\<lambda>i.
      and_then (sized_field ''PQ approval length'' ''PQ approval''
                  (\<lambda>raw. ok_or (pq_decode P raw) BadSignature) r) (\<lambda>(approval, r).
      and_then (nothing_left Trailing r) (\<lambda>_. Inr (i\<lparr>pq_approval := Some approval\<rparr>))))"
proof -
  have "unat (word_of_nat (length body) :: u32) = length body"
    using assms(1) by (simp add: unat_of_nat take_bit_nat_eq_self)
  then show ?thesis
    using assms by (subst decode.simps) (auto simp: field_steps length_prefixed_def refuse_if_def)
qed

lemma decode_Inr_cases:
  assumes "decode P b = Inr i"
  obtains (classical) version r where "b = MAGIC @ u16_be version @ r"
      and "version = LEGACY_VERSION \<or> version = VERSION" and "classical_fields P version r = Inr (i, [])"
  | (hybrid) body j raw a v where "b = MAGIC @ u16_be HYBRID_VERSION @ length_prefixed body @ length_prefixed raw"
      and "length body \<le> 2 ^ 20" and "get_range 8 10 body = Some v"
      and "v = u16_be LEGACY_VERSION \<or> v = u16_be VERSION"
      and "decode P body = Inr j" and "pq_decode P raw = Some a" and "i = j\<lparr>pq_approval := Some a\<rparr>"
proof -
  obtain version r where b: "b = MAGIC @ u16_be version @ r"
    using assms by (subst (asm) decode.simps) (auto simp: result_simps wire_fields)
  show thesis
  proof (cases "version = HYBRID_VERSION")
    case True
    obtain len body s v j a where r: "r = u32_be len @ body @ s" and len: "unat len \<le> 2 ^ 20" "length body = unat len"
      and v: "get_range 8 10 body = Some v" "v = u16_be LEGACY_VERSION \<or> v = u16_be VERSION"
      and j: "decode P body = Inr j" "i = j\<lparr>pq_approval := Some a\<rparr>"
      and tail: "sized_field ''PQ approval length'' ''PQ approval''
        (\<lambda>raw. ok_or (pq_decode P raw) BadSignature) s = Inr (a, [])"
      using assms b True by (subst (asm) decode.simps) (auto simp: result_simps wire_fields field_steps)
    obtain raw where raw: "s = length_prefixed raw" "pq_decode P raw = Some a"
      using sized_canonical[OF tail] by (auto simp: result_simps)
    have "word_of_nat (length body) = len" unfolding len(2) by simp
    then have "b = MAGIC @ u16_be HYBRID_VERSION @ length_prefixed body @ length_prefixed raw"
      by (simp add: b True r raw(1) length_prefixed_def)
    moreover have "length body \<le> 2 ^ 20" using len by linarith
    ultimately show thesis by (rule hybrid[OF _ _ v j(1) raw(2) j(2)])
  next
    case False
    have "version = LEGACY_VERSION \<or> version = VERSION"
      using assms b False by (subst (asm) decode.simps) (auto simp: result_simps field_steps)
    moreover have "classical_fields P version r = Inr (i, [])"
      using assms unfolding b decode_classical[OF calculation] by (auto simp: result_simps wire_fields)
    ultimately show thesis using classical b by blast
  qed
qed

section \<open>Round trip\<close>

definition instruction_fits ::
  "('s, 'g, 'sig, 'rp, 'pq) prims \<Rightarrow> ('s, 'g, 'sig, 'rp, 'pq) instruction \<Rightarrow> bool" where
  "instruction_fits P i \<longleftrightarrow> length (nonce i) = 32 \<and> binding_wf (quote_binding i) \<and> ranges_fit P (ranges i)"

lemma encode_classical_Some:
  assumes "encode_classical P i = Some b"
  obtains version sg rs where "instruction_version i = Some version"
    and "sig_serialize P (signature i) = Some sg" and "ranges_bytes P (ranges i) = Some rs"
    and "b = MAGIC @ u16_be version @ point_bytes P (amount_commitment i)
      @ point_bytes P (price_commitment i) @ point_bytes P (asset_commitment i)
      @ point_bytes P (payer_handle i) @ point_bytes P (payee_handle i)
      @ u64_be (deadline i) @ nonce i @ binding_field_bytes (quote_binding i) @ sg @ rs"
  using assms by (auto simp: encode_classical_def bind_eq_Some_conv)

lemma version_cases:
  assumes "instruction_version i = Some version"
  obtains (legacy) a p cs k where "ranges i = Bulletproof a p cs" "quote_binding i = LegacyPackedKey k"
      "version = LEGACY_VERSION"
  | (threshold) a p d where "ranges i = Threshold a p" "quote_binding i = ProofDigest d" "version = VERSION"
  using assms by (cases "ranges i"; cases "quote_binding i") (auto simp: instruction_version_def)

lemma binding_back:
  assumes "instruction_fits P i" and "instruction_version i = Some version"
  shows "binding_field version (binding_field_bytes (quote_binding i) @ s) = Inr (quote_binding i, s)"
  using assms(2)
proof (cases rule: version_cases)
  case legacy
  then show ?thesis by (simp add: binding_field_def binding_field_bytes_def read_then_def field_steps)
next
  case threshold
  then show ?thesis
    using assms(1) versions_differ
    by (auto simp: binding_field_def binding_field_bytes_def read_then_def field_steps instruction_fits_def)
qed

lemma ranges_back:
  assumes P: "codecs_round_trip P" and "instruction_fits P i"
    and "instruction_version i = Some version" and "ranges_bytes P (ranges i) = Some rs"
  shows "(if version = LEGACY_VERSION then legacy_ranges_field P else threshold_ranges_field P) rs
           = Inr (ranges i, [])"
  using assms(3)
proof (cases rule: version_cases)
  case (legacy a p cs k)
  then show ?thesis
    using assms(2,4) legacy_ranges_back[OF P, of a p cs] by (simp add: instruction_fits_def)
next
  case (threshold a p d)
  then show ?thesis
    using assms(2,4) threshold_ranges_back[OF P, of a p] versions_differ
    by (auto simp: instruction_fits_def)
qed

lemma classical_back:
  assumes P: "codecs_round_trip P" and fits: "instruction_fits P i" and "encode_classical P i = Some b"
  shows "decode P b = Inr (i\<lparr>pq_approval := None\<rparr>)"
  using assms(3)
proof (cases rule: encode_classical_Some)
  case (1 version sg rs)
  have v: "version = LEGACY_VERSION \<or> version = VERSION" using 1(1) by (cases rule: version_cases) auto
  have sg: "length sg = 64" "sig_deserialize P sg = Some (signature i)"
    using P 1(2) by (auto simp: codecs_round_trip_def)
  have "nonce i @ s = nonce i @ s" "length (nonce i) = 32" for s using fits by (auto simp: instruction_fits_def)
  then show ?thesis
    unfolding 1(4) decode_classical[OF v]
    using binding_back[OF fits 1(1)] ranges_back[OF P fits 1(1,3)] sg
    by (simp add: classical_fields_def read_then_def point_field_back[OF P] field_steps nothing_left_def)
qed

lemma classical_inner_version:
  assumes "encode_classical P i = Some b"
  obtains v where "get_range 8 10 b = Some v" and "v = u16_be LEGACY_VERSION \<or> v = u16_be VERSION"
  using assms
proof (cases rule: encode_classical_Some)
  case (1 version sg rs)
  have "get_range 8 10 b = Some (u16_be version)" by (simp add: get_range_def 1(4))
  moreover have "version = LEGACY_VERSION \<or> version = VERSION" using 1(1) by (cases rule: version_cases) auto
  ultimately show ?thesis using that by auto
qed

lemma encode_back:
  assumes P: "codecs_round_trip P" and fits: "instruction_fits P i" and "encode P i = Some b"
    and small: "\<And>c a q. encode_classical P i = Some c \<Longrightarrow> pq_approval i = Some a \<Longrightarrow> pq_encode P a = Some q
      \<Longrightarrow> length c \<le> 2 ^ 20 \<and> length q < 2 ^ 32"
  shows "decode P b = Inr i"
proof -
  obtain c where c: "encode_classical P i = Some c" using assms(3) by (auto simp: encode_def bind_eq_Some_conv)
  note rt = classical_back[OF P fits c]
  show ?thesis
  proof (cases "pq_approval i")
    case None
    then show ?thesis using assms(3) rt c by (simp add: encode_def)
  next
    case (Some a)
    obtain q where q: "pq_encode P a = Some q"
      and b: "b = MAGIC @ u16_be HYBRID_VERSION @ length_prefixed c @ length_prefixed q"
      using assms(3) c Some by (auto simp: encode_def bind_eq_Some_conv)
    note sizes = small[OF c Some q]
    obtain v where "get_range 8 10 c = Some v" "v = u16_be LEGACY_VERSION \<or> v = u16_be VERSION"
      using classical_inner_version[OF c] by blast
    moreover have "pq_decode P q = Some a" using P q by (simp add: codecs_round_trip_def)
    ultimately show ?thesis
      using sizes rt Some sized_back[of q _ a _ _ "[]"]
      by (simp add: b decode_hybrid nothing_left_def)
  qed
qed

section \<open>Canonical bodies\<close>

text \<open>The bytes of version 2 fields are determined by what was read.\<close>

lemma threshold_ranges_canonical:
  assumes "codecs_canonical P" and "threshold_ranges_field P r = Inr (e, s)"
  obtains b where "ranges_bytes P e = Some b" and "r = b @ s" and "is_threshold e"
proof -
  obtain a p r' where a: "sized_field ''threshold amount range proof'' ''threshold amount range proof''
      (decode_threshold_range P) r = Inr (a, r')"
    and p: "sized_field ''threshold price range proof'' ''threshold price range proof''
      (decode_threshold_range P) r' = Inr (p, s)" and e: "e = Threshold a p"
    using assms(2) by (auto simp: threshold_ranges_field_def read_then_Inr)
  obtain x where x: "r = length_prefixed x @ r'" "decode_threshold_range P x = Inr a"
    using sized_canonical[OF a] .
  obtain y where y: "r' = length_prefixed y @ s" "decode_threshold_range P y = Inr p"
    using sized_canonical[OF p] .
  have "ranges_bytes P e = Some (length_prefixed x @ length_prefixed y)"
    using threshold_range_canonical(1)[OF assms(1)] x(2) y(2) by (simp add: ranges_bytes_def e)
  then show thesis using that x(1) y(1) by (simp add: e is_threshold_def)
qed

lemma classical_fields_canonical:
  assumes C: "codecs_canonical P" and "classical_fields P VERSION r = Inr (i, s)"
  shows "\<exists>b. encode_classical P i = Some b \<and> MAGIC @ u16_be VERSION @ r = b @ s" and "pq_approval i = None"
proof -
  obtain q raw rs t u where q: "length q = 32" and raw: "length raw = 64"
    and sg: "sig_deserialize P raw = Some (signature i)"
    and rs: "threshold_ranges_field P t = Inr (ranges i, s)"
    and b: "quote_binding i = ProofDigest q" and n: "pq_approval i = None"
    and r: "r = point_bytes P (amount_commitment i) @ point_bytes P (price_commitment i)
      @ point_bytes P (asset_commitment i) @ point_bytes P (payer_handle i) @ point_bytes P (payee_handle i)
      @ u64_be (deadline i) @ nonce i @ q @ raw @ t"
    using assms(2) versions_differ(1)
    by (auto simp: classical_fields_def binding_field_def read_then_Inr read_lift_Inr ok_or_eq_Inr wire_fields
        dest!: point_field_canonical[OF C])
  obtain x where "ranges_bytes P (ranges i) = Some x" "t = x @ s" "is_threshold (ranges i)"
    using threshold_ranges_canonical[OF C rs] .
  moreover have "sig_serialize P (signature i) = Some raw" using C raw sg by (simp add: codecs_canonical_def)
  moreover have "instruction_version i = Some VERSION"
    using calculation(3) b by (cases "ranges i") (auto simp: instruction_version_def is_threshold_def)
  ultimately show "\<exists>b. encode_classical P i = Some b \<and> MAGIC @ u16_be VERSION @ r = b @ s"
    by (simp add: encode_classical_def r binding_field_bytes_def b)
  show "pq_approval i = None" by (rule n)
qed

lemma classical_fields_binding:
  assumes "classical_fields P version r = Inr (i, s)"
  shows "version = LEGACY_VERSION \<longleftrightarrow> (\<exists>k. quote_binding i = LegacyPackedKey k)"
  using assms by (auto simp: classical_fields_def binding_field_def read_then_Inr split: if_splits)

lemma canonical_classical:
  assumes C: "codecs_canonical P" and "version = LEGACY_VERSION \<or> version = VERSION"
    and "classical_fields P version r = Inr (i, [])" and "quote_binding i = ProofDigest d"
  shows "encode_classical P i = Some (MAGIC @ u16_be version @ r)" and "pq_approval i = None"
proof -
  have "version = VERSION" using assms(2,4) classical_fields_binding[OF assms(3)] by auto
  then show "encode_classical P i = Some (MAGIC @ u16_be version @ r)" "pq_approval i = None"
    using classical_fields_canonical[OF C] assms(3) by fastforce+
qed

lemma inner_classical:
  assumes "decode P body = Inr j" and "get_range 8 10 body = Some v"
    and "v = u16_be LEGACY_VERSION \<or> v = u16_be VERSION"
  obtains version r where "body = MAGIC @ u16_be version @ r"
    and "version = LEGACY_VERSION \<or> version = VERSION" and "classical_fields P version r = Inr (j, [])"
  using assms(1)
proof (cases rule: decode_Inr_cases)
  case (hybrid inner k raw a w)
  then have "v = u16_be HYBRID_VERSION" using assms(2) by (simp add: get_range_def split: if_splits)
  then show ?thesis using assms(3) versions_differ by simp
qed (rule that)

lemma decode_canonical:
  assumes C: "codecs_canonical P" and "decode P b = Inr i" and "quote_binding i = ProofDigest d"
  shows "encode P i = Some b"
  using assms(2)
proof (cases rule: decode_Inr_cases)
  case (classical version r)
  then show ?thesis using canonical_classical[OF C classical(2,3) assms(3)] by (simp add: encode_def)
next
  case (hybrid body j raw a v)
  have "quote_binding j = ProofDigest d" using assms(3) hybrid(7) by simp
  with inner_classical[OF hybrid(5,3,4)] have "encode_classical P j = Some body"
    using canonical_classical(1)[OF C] by metis
  then have "encode_classical P i = Some body"
    by (simp add: hybrid(7) encode_classical_def instruction_version_def)
  moreover have "pq_encode P a = Some raw" using C hybrid(6) by (simp add: codecs_canonical_def)
  ultimately show ?thesis by (simp add: encode_def hybrid(1,7))
qed

section \<open>Extensions are refused\<close>

lemma steady_fields [steady_intros]:
  "steady_reader (take_field n what)" "steady_reader (u64_field what)" "steady_reader (u32_field what)"
  "steady_reader (u16_field what)" "steady_reader (point_field P what)"
  "steady_reader (sized_field what what' dec)"
  unfolding take_field_def u64_field_def u32_field_def u16_field_def point_field_def sized_field_def
  by (intro steady_intros)+

interpretation body: steady_reader "classical_fields P version" for P version
  unfolding classical_fields_def binding_field_def legacy_ranges_field_def threshold_ranges_field_def
    rp_field_def take_field_def
  by (intro steady_intros)

interpretation sized: steady_reader "sized_field what what' dec" for what what' dec
  by (rule steady_fields)

lemma decode_extended:
  assumes "decode P b = Inr i" and "e \<noteq> []"
  shows "decode P (b @ e) = Inl (Trailing (length e))"
  using assms(1)
proof (cases rule: decode_Inr_cases)
  case (classical version r)
  then show ?thesis
    using assms(2) body.whole_then_more[OF classical(3), of e]
    by (simp add: decode_classical nothing_left_def)
next
  case (hybrid body j raw a v)
  obtain a' where "sized_field ''PQ approval length'' ''PQ approval''
      (\<lambda>raw. ok_or (pq_decode P raw) BadSignature) (length_prefixed raw) = Inr (a', [])"
    using assms(1)[unfolded hybrid(1) decode_hybrid[OF hybrid(2-4)] hybrid(5)]
    by (auto simp: result_simps wire_fields)
  from sized.whole_then_more[OF this, of e] show ?thesis
    using assms(2) hybrid(5) decode_hybrid[OF hybrid(2-4), of P "length_prefixed raw @ e"]
    by (simp add: hybrid(1) nothing_left_def)
qed

end
