(* ===== verification/Typed_Wire.thy ===== *)
theory Typed_Wire
  imports Typed Wire_Codec
begin

text \<open>
  \<^verbatim>\<open>src/rust/zkpi/src/typed_wire.rs\<close>: the bytes of an execution context and of a typed instruction,
  which carries a base payment in the format of \<^verbatim>\<open>wire.rs\<close>.
\<close>

definition TYPED_MAGIC :: bytes where "TYPED_MAGIC = ascii ''QOMMTZPI''"
definition TYPED_VERSION :: u16 where "TYPED_VERSION = 1"
definition TYPED_HYBRID_VERSION :: u16 where "TYPED_HYBRID_VERSION = 2"
definition CONTEXT_MAGIC :: bytes where "CONTEXT_MAGIC = ascii ''QOMMCTX1''"
definition CONTEXT_VERSION :: u16 where "CONTEXT_VERSION = 1"
definition MAX_BASE_BYTES :: nat where "MAX_BASE_BYTES = 1048576"

datatype typed_error =
  WrongMagic
| UnknownTypedVersion u16
| TruncatedField string
| OversizedBase
| InvalidBase
| InvalidPoint string
| InvalidOperation
| InvalidScope
| InvalidDirection
| InvalidSignature
| InvalidContext
| TypedTrailing nat

section \<open>The reader\<close>

definition typed_take :: "nat \<Rightarrow> string \<Rightarrow> (typed_error, bytes) reader" where
  "typed_take n name = take_bytes (\<lambda>_ _. TruncatedField name) n"

definition typed_id :: "string \<Rightarrow> (typed_error, bytes32) reader" where
  "typed_id name = typed_take 32 name"

definition typed_point ::
  "('s, 'g, 'sig, 'rp, 'pq) prims \<Rightarrow> string \<Rightarrow> (typed_error, 'g) reader" where
  "typed_point P name =
     read_then (typed_id name) (\<lambda>b. read_lift (ok_or (decompress P b) (InvalidPoint name)))"

definition typed_u64 :: "string \<Rightarrow> (typed_error, u64) reader" where
  "typed_u64 name = read_u64 (\<lambda>_ _. TruncatedField name)"

definition typed_u32 :: "string \<Rightarrow> (typed_error, u32) reader" where
  "typed_u32 name = read_u32 (\<lambda>_ _. TruncatedField name)"

definition typed_u16 :: "string \<Rightarrow> (typed_error, u16) reader" where
  "typed_u16 name = read_u16 (\<lambda>_ _. TruncatedField name)"

text \<open>One byte that names a constructor.\<close>

definition typed_tag :: "string \<Rightarrow> typed_error \<Rightarrow> (u8 \<Rightarrow> string + 'a) \<Rightarrow> (typed_error, 'a) reader" where
  "typed_tag name e from_code =
     read_then (typed_take 1 name) (\<lambda>b. read_lift (map_err (\<lambda>_. e) (from_code (hd b))))"

section \<open>Contexts\<close>

definition read_context ::
  "('s, 'g, 'sig, 'rp, 'pq) prims \<Rightarrow> (typed_error, 'g execution_context) reader" where
  "read_context P =
     read_then (typed_tag ''operation'' InvalidOperation operation_try_from) (\<lambda>opn.
     read_then (typed_tag ''scope'' InvalidScope scope_try_from) (\<lambda>sco.
     read_then (typed_tag ''direction'' InvalidDirection direction_try_from) (\<lambda>dir.
     read_then (typed_id ''venue id'') (\<lambda>vid.
     read_then (typed_id ''DeFMI id'') (\<lambda>did.
     read_then (typed_point P ''maker handle'') (\<lambda>mh.
     read_then (typed_point P ''taker handle'') (\<lambda>th.
     read_then (typed_point P ''reserve handle'') (\<lambda>rh.
     read_then (typed_id ''Maker reservation id'') (\<lambda>mri.
     read_then (typed_u64 ''Maker reservation sequence'') (\<lambda>mrs.
     read_then (typed_id ''Taker reservation id'') (\<lambda>tri.
     read_then (typed_u64 ''Taker reservation sequence'') (\<lambda>trs.
     read_then (typed_id ''RFQ nullifier'') (\<lambda>rfq.
     read_then (typed_id ''Taker mandate digest'') (\<lambda>tmd.
     read_then (typed_id ''Maker policy digest'') (\<lambda>mpd.
     read_then (typed_id ''Maker mandate digest'') (\<lambda>mmd.
     read_then (typed_id ''Maker reserve receipt digest'') (\<lambda>mrr.
     read_then (typed_id ''Taker reserve receipt digest'') (\<lambda>trr.
     read_then (typed_id ''quote proof digest'') (\<lambda>qpd.
     read_then (typed_id ''market statement digest'') (\<lambda>msd.
     read_then (typed_id ''before state root'') (\<lambda>bsr.
       read_pure \<lparr>operation = opn, scope = sco, direction = dir, venue_id = vid, defmi_id = did,
         maker_handle = mh, taker_handle = th, reserve_handle = rh,
         maker_reservation_id = mri, maker_reservation_sequence = mrs,
         taker_reservation_id = tri, taker_reservation_sequence = trs,
         rfq_nullifier = rfq, taker_mandate_digest = tmd, maker_policy_digest = mpd,
         maker_mandate_digest = mmd, maker_reserve_receipt_digest = mrr,
         taker_reserve_receipt_digest = trr, ctx_quote_proof_digest = qpd,
         market_statement_digest = msd, before_state_root = bsr\<rparr>)))))))))))))))))))))"

definition append_context :: "('s, 'g, 'sig, 'rp, 'pq) prims \<Rightarrow> bytes \<Rightarrow> 'g execution_context \<Rightarrow> bytes" where
  "append_context P out c = out @ context_bytes (point_bytes P) c"

definition encode_context :: "('s, 'g, 'sig, 'rp, 'pq) prims \<Rightarrow> 'g execution_context \<Rightarrow> bytes" where
  "encode_context P c = append_context P (CONTEXT_MAGIC @ u16_be CONTEXT_VERSION) c"

definition decode_context ::
  "('s, 'g, 'sig, 'rp, 'pq) prims \<Rightarrow> bytes \<Rightarrow> ('s, 'g, 'sig, 'rp, 'pq) instruction
    \<Rightarrow> typed_error + 'g execution_context" where
  "decode_context P b pay =
     and_then (read_then (typed_take 8 ''context magic'') (\<lambda>m.
       read_then (read_lift (refuse_if (m \<noteq> CONTEXT_MAGIC) WrongMagic)) (\<lambda>_.
       read_then (typed_u16 ''context version'') (\<lambda>version.
       read_then (read_lift (refuse_if (version \<noteq> CONTEXT_VERSION) (UnknownTypedVersion version))) (\<lambda>_.
       read_then (read_context P) (\<lambda>c.
       read_then (nothing_left TypedTrailing) (\<lambda>_.
       read_then (read_lift (map_err (\<lambda>_. InvalidContext) (validate_against c pay))) (\<lambda>_.
         read_pure c))))))) b)
       (\<lambda>(c, _). Inr c)"

section \<open>Typed instructions\<close>

definition typed_encode ::
  "('s, 'g, 'sig, 'rp, 'pq) prims \<Rightarrow> ('s, 'g, 'sig, 'rp, 'pq) typed_instruction \<Rightarrow> bytes option" where
  "typed_encode P t =
     Option.bind (encode P (payment t)) (\<lambda>base.
     Option.bind (sig_serialize P (authorization t)) (\<lambda>sg.
       let version = (if pq_authorization t \<noteq> None then TYPED_HYBRID_VERSION else TYPED_VERSION);
           out = append_context P (TYPED_MAGIC @ u16_be version @ length_prefixed base) (ti_context t) @ sg
       in case pq_authorization t of
            Some approval \<Rightarrow>
              Option.bind (pq_encode P approval) (\<lambda>b. Some (out @ length_prefixed b))
          | None \<Rightarrow> Some out))"

definition typed_decode ::
  "('s, 'g, 'sig, 'rp, 'pq) prims \<Rightarrow> bytes \<Rightarrow> typed_error + ('s, 'g, 'sig, 'rp, 'pq) typed_instruction" where
  "typed_decode P b =
     and_then (read_then (typed_take 8 ''magic'') (\<lambda>m.
       read_then (read_lift (refuse_if (m \<noteq> TYPED_MAGIC) WrongMagic)) (\<lambda>_.
       read_then (typed_u16 ''version'') (\<lambda>version.
       read_then (read_lift (refuse_if (version \<noteq> TYPED_VERSION \<and> version \<noteq> TYPED_HYBRID_VERSION)
                    (UnknownTypedVersion version))) (\<lambda>_.
       read_then (typed_u32 ''base length'') (\<lambda>len.
       read_then (read_lift (refuse_if (MAX_BASE_BYTES < unat len) OversizedBase)) (\<lambda>_.
       read_then (typed_take (unat len) ''base instruction'') (\<lambda>raw.
       read_then (read_lift (map_err (\<lambda>_. InvalidBase) (decode P raw))) (\<lambda>pay.
       read_then (read_context P) (\<lambda>c.
       read_then (typed_take 64 ''authorization'') (\<lambda>raw_sg.
       read_then (read_lift (ok_or (sig_deserialize P raw_sg) InvalidSignature)) (\<lambda>sg.
       read_then
         (if version = TYPED_HYBRID_VERSION
          then read_then (read_lift (refuse_if (pq_approval pay = None) InvalidBase)) (\<lambda>_.
               read_then (typed_u32 ''PQ authorization length'') (\<lambda>n.
               read_then (typed_take (unat n) ''PQ authorization'') (\<lambda>raw_pq.
               read_then (read_lift (ok_or (pq_decode P raw_pq) InvalidSignature)) (\<lambda>a.
                 read_pure (Some a)))))
          else read_then (read_lift (refuse_if (pq_approval pay \<noteq> None) InvalidBase)) (\<lambda>_.
                 read_pure None)) (\<lambda>pq.
       read_then (nothing_left TypedTrailing) (\<lambda>_.
       read_then (read_lift (map_err (\<lambda>_. InvalidContext) (validate_against c pay))) (\<lambda>_.
         read_pure \<lparr>payment = pay, ti_context = c, authorization = sg, pq_authorization = pq\<rparr>)))))))))))))) b)
       (\<lambda>(t, _). Inr t)"

section \<open>Reading contexts\<close>

named_theorems typed_fields

lemma typed_steps [typed_fields]:
  "length x = n \<Longrightarrow> typed_take n what (x @ s) = Inr (x, s)"
  "length x = 32 \<Longrightarrow> typed_id what (x @ s) = Inr (x, s)"
  "typed_u64 what (u64_be a @ s) = Inr (a, s)"
  "typed_u32 what (u32_be b @ s) = Inr (b, s)"
  "typed_u16 what (u16_be c @ s) = Inr (c, s)"
  by (simp_all add: typed_take_def typed_id_def typed_u64_def typed_u32_def typed_u16_def
      u64f.dec_iff u32f.dec_iff u16f.dec_iff)

lemma typed_point_step [typed_fields]:
  "codecs_round_trip P \<Longrightarrow> typed_point P what (point_bytes P p @ s) = Inr (p, s)"
  by (simp add: typed_point_def read_then_def typed_steps codecs_round_trip_def points_encode_def)

lemma typed_tag_steps [typed_fields]:
  "typed_tag what e operation_try_from (operation_code x # s) = Inr (x, s)"
  "typed_tag what e scope_try_from (scope_code y # s) = Inr (y, s)"
  "typed_tag what e direction_try_from (direction_code z # s) = Inr (z, s)"
proof -
  have tag: "typed_tag what e from_code (v # s) = Inr (x, s)" if "from_code v = Inr x" for from_code v x
    using that typed_steps(1)[of "[v]" 1 what s] by (simp add: typed_tag_def read_then_def)
  show "typed_tag what e operation_try_from (operation_code x # s) = Inr (x, s)"
    and "typed_tag what e scope_try_from (scope_code y # s) = Inr (y, s)"
    and "typed_tag what e direction_try_from (direction_code z # s) = Inr (z, s)"
    by (rule tag, simp add: operation_codes scope_codes direction_codes)+
qed

lemma read_context_back:
  assumes "codecs_round_trip P" and "context_wf c"
  shows "read_context P (context_bytes (point_bytes P) c @ s) = Inr (c, s)"
  using assms(2)
  by (simp add: read_context_def context_bytes_def context_wf_def read_then_def typed_fields assms(1))

lemma typed_inv:
  "typed_take n what r = Inr (x, s) \<longleftrightarrow> r = x @ s \<and> length x = n"
  "typed_id what r = Inr (x, s) \<longleftrightarrow> r = x @ s \<and> length x = 32"
  "typed_u64 what r = Inr (a, s) \<longleftrightarrow> r = u64_be a @ s"
  "typed_u32 what r = Inr (b, s) \<longleftrightarrow> r = u32_be b @ s"
  "typed_u16 what r = Inr (c, s) \<longleftrightarrow> r = u16_be c @ s"
  by (simp_all add: typed_take_def typed_id_def typed_u64_def typed_u32_def typed_u16_def
      u64f.dec_iff u32f.dec_iff u16f.dec_iff take_bytes_Inr)

lemma typed_point_canonical:
  "codecs_canonical P \<Longrightarrow> typed_point P what r = Inr (p, s) \<Longrightarrow> r = point_bytes P p @ s"
  by (auto simp: typed_point_def read_then_Inr typed_inv read_lift_Inr ok_or_eq_Inr codecs_canonical_def)

lemma typed_tag_inv:
  "typed_tag what e operation_try_from r = Inr (x, s) \<longleftrightarrow> r = operation_code x # s"
  "typed_tag what e scope_try_from r = Inr (y, s) \<longleftrightarrow> r = scope_code y # s"
  "typed_tag what e direction_try_from r = Inr (z, s) \<longleftrightarrow> r = direction_code z # s"
  by (auto simp: typed_tag_steps) (auto simp: typed_tag_def read_then_Inr typed_inv read_lift_Inr
      map_err_eq_Inr operation_codes scope_codes direction_codes length_Suc_conv)

lemma read_context_canonical:
  assumes "codecs_canonical P" and "read_context P r = Inr (c, s)"
  shows "r = context_bytes (point_bytes P) c @ s" and "context_wf c"
  using assms(2)
  by (auto simp: read_context_def read_then_Inr typed_inv typed_tag_inv context_bytes_def context_wf_def
      dest!: typed_point_canonical[OF assms(1)])

lemma context_length:
  "points_encode P \<Longrightarrow> context_wf c \<Longrightarrow> length (context_bytes (point_bytes P) c) = 531"
  by (simp add: context_bytes_def context_wf_def points_encode_length)

section \<open>Reading typed instructions\<close>

lemma typed_magic_length [simp]: "length TYPED_MAGIC = 8" "length CONTEXT_MAGIC = 8"
  by (simp_all add: TYPED_MAGIC_def CONTEXT_MAGIC_def)

lemma context_back:
  assumes "codecs_round_trip P" and "context_wf c" and "validate_against c pay = Inr ()"
  shows "decode_context P (encode_context P c) pay = Inr c"
  using assms read_context_back[OF assms(1,2), of "[]"]
  by (simp add: decode_context_def encode_context_def append_context_def read_then_def typed_fields
      nothing_left_def)

lemma context_canonical:
  assumes "codecs_canonical P" and "decode_context P b pay = Inr c"
  shows "b = encode_context P c" and "validate_against c pay = Inr ()"
  using assms(2)
  by (auto simp: decode_context_def encode_context_def append_context_def result_simps typed_inv wire_fields
      dest!: read_context_canonical(1)[OF assms(1)])

definition typed_pq_bytes ::
  "('s, 'g, 'sig, 'rp, 'pq) prims \<Rightarrow> ('s, 'g, 'sig, 'rp, 'pq) typed_instruction \<Rightarrow> bytes option" where
  "typed_pq_bytes P t =
     (case pq_authorization t of None \<Rightarrow> Some [] | Some a \<Rightarrow> map_option length_prefixed (pq_encode P a))"

lemma typed_encode_alt:
  "typed_encode P t =
     Option.bind (encode P (payment t)) (\<lambda>base.
     Option.bind (sig_serialize P (authorization t)) (\<lambda>sg.
     Option.bind (typed_pq_bytes P t) (\<lambda>pq.
       Some (TYPED_MAGIC @ u16_be (if pq_authorization t \<noteq> None then TYPED_HYBRID_VERSION else TYPED_VERSION)
         @ length_prefixed base @ context_bytes (point_bytes P) (ti_context t) @ sg @ pq))))"
  by (auto simp: typed_encode_def typed_pq_bytes_def append_context_def Let_def map_option_case
      split: option.splits Option.bind_splits)

lemma typed_versions_differ: "TYPED_VERSION \<noteq> TYPED_HYBRID_VERSION"
  by (simp add: TYPED_VERSION_def TYPED_HYBRID_VERSION_def)

text \<open>The approval that ends a hybrid message.\<close>

definition typed_pq_field ::
  "('s, 'g, 'sig, 'rp, 'pq) prims \<Rightarrow> bool \<Rightarrow> ('s, 'g, 'sig, 'rp, 'pq) instruction
    \<Rightarrow> (typed_error, 'pq option) reader" where
  "typed_pq_field P hybrid pay =
     (if hybrid
      then read_then (read_lift (refuse_if (pq_approval pay = None) InvalidBase)) (\<lambda>_.
           read_then (typed_u32 ''PQ authorization length'') (\<lambda>n.
           read_then (typed_take (unat n) ''PQ authorization'') (\<lambda>raw_pq.
           read_then (read_lift (ok_or (pq_decode P raw_pq) InvalidSignature)) (\<lambda>a.
             read_pure (Some a)))))
      else read_then (read_lift (refuse_if (pq_approval pay \<noteq> None) InvalidBase)) (\<lambda>_.
             read_pure None))"

lemma typed_pq_back:
  assumes "codecs_round_trip P" and "typed_pq_bytes P t = Some b"
    and "pq_authorization t = None \<longleftrightarrow> pq_approval (payment t) = None"
    and "\<And>a q. pq_authorization t = Some a \<Longrightarrow> pq_encode P a = Some q \<Longrightarrow> length q < 2 ^ 32"
  shows "typed_pq_field P (pq_authorization t \<noteq> None) (payment t) b = Inr (pq_authorization t, [])"
proof (cases "pq_authorization t")
  case None
  then show ?thesis using assms(2,3) by (simp add: typed_pq_field_def typed_pq_bytes_def read_then_def)
next
  case (Some a)
  then obtain q where q: "pq_encode P a = Some q" "b = length_prefixed q"
    using assms(2) by (auto simp: typed_pq_bytes_def)
  have "pq_decode P q = Some a" using q(1) assms(1) by (simp add: codecs_round_trip_def)
  moreover have "unat (word_of_nat (length q) :: u32) = length q"
    using assms(4)[OF Some q(1)] by (simp add: unat_of_nat take_bit_nat_eq_self)
  ultimately show ?thesis
    using Some assms(3) typed_steps(1)[of q "length q" _ "[]"]
    by (auto simp: typed_pq_field_def read_then_def q(2) length_prefixed_def typed_fields)
qed

lemma typed_pq_canonical:
  assumes "codecs_canonical P" and "typed_pq_field P hybrid (payment t) r = Inr (pq_authorization t, s)"
  shows "hybrid \<longleftrightarrow> pq_authorization t \<noteq> None" and "\<exists>b. typed_pq_bytes P t = Some b \<and> r = b @ s"
proof -
  have "(hybrid \<longleftrightarrow> pq_authorization t \<noteq> None) \<and> (\<exists>b. typed_pq_bytes P t = Some b \<and> r = b @ s)"
  proof (cases hybrid)
    case True
    obtain n raw a where r: "r = u32_be n @ raw @ s" "length raw = unat n"
      and a: "pq_decode P raw = Some a" "Some a = pq_authorization t"
      using assms(2) True by (auto simp: typed_pq_field_def result_simps typed_inv)
    have "pq_encode P a = Some raw" using a(1) assms(1) by (simp add: codecs_canonical_def)
    then show ?thesis using True r a(2)[symmetric] by (simp add: typed_pq_bytes_def length_prefixed_def)
  next
    case False
    then show ?thesis using assms(2) by (auto simp: typed_pq_field_def result_simps typed_pq_bytes_def)
  qed
  then show "hybrid \<longleftrightarrow> pq_authorization t \<noteq> None" and "\<exists>b. typed_pq_bytes P t = Some b \<and> r = b @ s" by auto
qed

lemma typed_back:
  assumes P: "codecs_round_trip P" and base: "encode P (payment t) = Some base"
    and "decode P base = Inr (payment t)" and "length base \<le> MAX_BASE_BYTES"
    and "context_wf (ti_context t)" and "validate_against (ti_context t) (payment t) = Inr ()"
    and "typed_encode P t = Some b" and "pq_authorization t = None \<longleftrightarrow> pq_approval (payment t) = None"
    and "\<And>a q. pq_authorization t = Some a \<Longrightarrow> pq_encode P a = Some q \<Longrightarrow> length q < 2 ^ 32"
  shows "typed_decode P b = Inr t"
proof -
  define v where "v = (if pq_authorization t \<noteq> None then TYPED_HYBRID_VERSION else TYPED_VERSION)"
  have v: "v = TYPED_HYBRID_VERSION \<longleftrightarrow> pq_authorization t \<noteq> None"
    "(v \<noteq> TYPED_VERSION \<and> v \<noteq> TYPED_HYBRID_VERSION) = False"
    using typed_versions_differ by (auto simp: v_def)
  obtain sg pq where sg: "sig_serialize P (authorization t) = Some sg" and pq: "typed_pq_bytes P t = Some pq"
    and b: "b = TYPED_MAGIC @ u16_be v @ length_prefixed base
        @ context_bytes (point_bytes P) (ti_context t) @ sg @ pq"
    using assms(7) base by (auto simp: typed_encode_alt bind_eq_Some_conv v_def)
  have len: "unat (word_of_nat (length base) :: u32) = length base"
    using assms(4) by (simp add: MAX_BASE_BYTES_def unat_of_nat take_bit_nat_eq_self)
  have sg': "length sg = 64" "sig_deserialize P sg = Some (authorization t)"
    using P sg by (auto simp: codecs_round_trip_def)
  have pq': "typed_pq_field P (v = TYPED_HYBRID_VERSION) (payment t) pq = Inr (pq_authorization t, [])"
    unfolding v(1) by (rule typed_pq_back[OF P pq assms(8)]) (rule assms(9))
  show ?thesis
    using assms(3,4,6) sg' pq' unfolding typed_decode_def typed_pq_field_def[symmetric] v(2) b
    by (simp add: read_then_def typed_fields length_prefixed_def
        len read_context_back[OF P assms(5)] nothing_left_def v(2) del: de_Morgan_conj)
qed

lemma typed_canonical:
  assumes C: "codecs_canonical P" and "typed_decode P b = Inr t"
    and "quote_binding (payment t) = ProofDigest d"
  shows "typed_encode P t = Some b" and "validate_against (ti_context t) (payment t) = Inr ()"
    and "pq_authorization t = None \<longleftrightarrow> pq_approval (payment t) = None"
proof -
  obtain version len raw r raw_sg u where v: "version = TYPED_VERSION \<or> version = TYPED_HYBRID_VERSION"
    and b: "b = TYPED_MAGIC @ u16_be version @ u32_be len @ raw @ r" and len: "length raw = unat len"
    and pay: "decode P raw = Inr (payment t)"
    and ctx: "read_context P r = Inr (ti_context t, raw_sg @ u)" and l64: "length raw_sg = 64"
    and sg: "sig_deserialize P raw_sg = Some (authorization t)"
    and pq: "typed_pq_field P (version = TYPED_HYBRID_VERSION) (payment t) u = Inr (pq_authorization t, [])"
    and valid: "validate_against (ti_context t) (payment t) = Inr ()"
    using assms(2) unfolding typed_decode_def typed_pq_field_def[symmetric]
    by (auto simp: result_simps typed_inv wire_fields)
  obtain x where x: "typed_pq_bytes P t = Some x" "u = x" using typed_pq_canonical(2)[OF C pq] by auto
  have "word_of_nat (length raw) = len" unfolding len by simp
  moreover have "encode P (payment t) = Some raw" by (rule decode_canonical[OF C pay assms(3)])
  moreover have "sig_serialize P (authorization t) = Some raw_sg" using C sg l64 by (simp add: codecs_canonical_def)
  moreover have "version = (if pq_authorization t \<noteq> None then TYPED_HYBRID_VERSION else TYPED_VERSION)"
    using v typed_pq_canonical(1)[OF C pq] by auto
  ultimately show "typed_encode P t = Some b"
    using x read_context_canonical(1)[OF C ctx] by (simp add: typed_encode_alt b length_prefixed_def)
  show "validate_against (ti_context t) (payment t) = Inr ()" by (rule valid)
  show "pq_authorization t = None \<longleftrightarrow> pq_approval (payment t) = None"
    using pq by (auto simp: typed_pq_field_def result_simps split: if_splits)
qed

interpretation ctx: steady_reader "read_context P" for P
  unfolding read_context_def typed_tag_def typed_point_def typed_id_def typed_take_def typed_u64_def
  by (intro steady_intros)

lemma context_codec:
  assumes "codecs_round_trip P" and "codecs_canonical P"
  shows "prefix_codec (context_bytes (point_bytes P)) (read_context P) context_wf"
  by unfold_locales (auto simp: read_context_back assms(1) dest: read_context_canonical[OF assms(2)])

end
