(* ===== verification/Cross_Domain.thy ===== *)
theory Cross_Domain
  imports Typed
begin

text \<open>
  \<^verbatim>\<open>src/rust/zkpi/src/cross_domain_dvp.rs\<close>: a delivery-versus-payment instruction over two ledgers,
  its validation, its digest, and the digests each ledger is given.
\<close>

datatype dvp_side = Cash | Securities
datatype dvp_event = Prepared | Claimed

fun side_code :: "dvp_side \<Rightarrow> u8" where
  "side_code Cash = 1"
| "side_code Securities = 2"

fun event_code :: "dvp_event \<Rightarrow> u8" where
  "event_code Prepared = 1"
| "event_code Claimed = 2"

record dvp_rail =
  network_id :: u32
  chain_id :: bytes32
  rail_defmi_id :: bytes32
  local_leg_id :: bytes32
  rail_asset_commitment :: bytes32
  rail_amount_commitment :: bytes32
  source_handle_commitment :: bytes32
  escrow_handle_commitment :: bytes32
  destination_handle_commitment :: bytes32
  reserve_transfer_digest :: bytes32
  claim_transfer_digest :: bytes32
  refund_transfer_digest :: bytes32

definition rail_values :: "dvp_rail \<Rightarrow> bytes32 list" where
  "rail_values r =
     [chain_id r, rail_defmi_id r, local_leg_id r, rail_asset_commitment r, rail_amount_commitment r,
      source_handle_commitment r, escrow_handle_commitment r, destination_handle_commitment r,
      reserve_transfer_digest r, claim_transfer_digest r, refund_transfer_digest r]"

text \<open>What \<open>append_to\<close> feeds the hasher.\<close>

definition rail_bytes :: "dvp_rail \<Rightarrow> bytes" where
  "rail_bytes r = u32_be (network_id r) @ concat (rail_values r)"

definition rail_validate :: "dvp_rail \<Rightarrow> string + unit" where
  "rail_validate r =
     and_then (try_fold (\<lambda>_ val. refuse_if (val = zero32)
         ''cross-domain DvP rail contains a zero commitment'') () (rail_values r)) (\<lambda>_.
       refuse_if (source_handle_commitment r = escrow_handle_commitment r
           \<or> escrow_handle_commitment r = destination_handle_commitment r)
         ''cross-domain DvP rail does not move through distinct escrow'')"

record cross_domain_dvp_body =
  dvp_venue_id :: bytes32
  dvp_direction :: trade_direction
  dvp_rfq_nullifier :: bytes32
  dvp_quote_proof_digest :: bytes32
  dvp_market_statement_digest :: bytes32
  dvp_price_commitment :: bytes32
  relation_proof_digest :: bytes32
  cash :: dvp_rail
  securities :: dvp_rail
  arm_deadline :: u64
  claim_deadline :: u64
  refund_after :: u64
  release_condition :: bytes32
  private_pair_nonce :: bytes32

definition body_values :: "cross_domain_dvp_body \<Rightarrow> bytes32 list" where
  "body_values d =
     [dvp_venue_id d, dvp_rfq_nullifier d, dvp_quote_proof_digest d, dvp_market_statement_digest d,
      dvp_price_commitment d, relation_proof_digest d, release_condition d, private_pair_nonce d]"

definition dvp_validate :: "cross_domain_dvp_body \<Rightarrow> string + unit" where
  "dvp_validate d =
     and_then (rail_validate (cash d)) (\<lambda>_.
     and_then (rail_validate (securities d)) (\<lambda>_.
     and_then (try_fold (\<lambda>_ val. refuse_if (val = zero32)
         ''cross-domain DvP instruction contains a zero commitment'') () (body_values d)) (\<lambda>_.
     and_then (refuse_if
         (network_id (cash d) = network_id (securities d) \<and> chain_id (cash d) = chain_id (securities d)
          \<and> rail_defmi_id (cash d) = rail_defmi_id (securities d))
         ''cross-domain DvP requires two different DeFMI deployments'') (\<lambda>_.
     and_then (refuse_if (local_leg_id (cash d) = local_leg_id (securities d))
         ''cross-domain DvP legs must use different public identifiers'') (\<lambda>_.
       refuse_if (\<not> (arm_deadline d < claim_deadline d \<and> claim_deadline d < refund_after d))
         ''cross-domain DvP deadlines must satisfy arm < claim < refund'')))))"

definition dvp_bytes :: "cross_domain_dvp_body \<Rightarrow> bytes" where
  "dvp_bytes d =
     ascii ''QOMM:ZKPI:CROSS-DOMAIN-DVP:v1'' @ dvp_venue_id d @ [direction_code (dvp_direction d)]
       @ dvp_rfq_nullifier d @ dvp_quote_proof_digest d @ dvp_market_statement_digest d
       @ dvp_price_commitment d @ relation_proof_digest d @ rail_bytes (cash d) @ rail_bytes (securities d)
       @ u64_be (arm_deadline d) @ u64_be (claim_deadline d) @ u64_be (refund_after d)
       @ release_condition d @ private_pair_nonce d"

definition dvp_digest :: "('s, 'g, 'sig, 'rp, 'pq) prims \<Rightarrow> cross_domain_dvp_body \<Rightarrow> string + bytes" where
  "dvp_digest P d = and_then (dvp_validate d) (\<lambda>_. Inr (sha512 P (dvp_bytes d)))"

fun rail_of :: "cross_domain_dvp_body \<Rightarrow> dvp_side \<Rightarrow> dvp_rail" where
  "rail_of d Cash = cash d"
| "rail_of d Securities = securities d"

definition projection_bytes :: "bytes \<Rightarrow> dvp_side \<Rightarrow> dvp_rail \<Rightarrow> bytes" where
  "projection_bytes h side rail =
     ascii ''QOMM:ZKPI:CROSS-DOMAIN-PROJECTION:v1'' @ [side_code side] @ h
       @ u32_be (network_id rail) @ chain_id rail @ rail_defmi_id rail @ local_leg_id rail"

definition projection_digest ::
  "('s, 'g, 'sig, 'rp, 'pq) prims \<Rightarrow> cross_domain_dvp_body \<Rightarrow> dvp_side \<Rightarrow> string + bytes" where
  "projection_digest P d side =
     and_then (dvp_digest P d) (\<lambda>h. Inr (sha256 P (projection_bytes h side (rail_of d side))))"

definition relation_bytes :: "bytes \<Rightarrow> dvp_side \<Rightarrow> bytes \<Rightarrow> bytes" where
  "relation_bytes h side relation =
     ascii ''QOMM:ZKPI:CROSS-DOMAIN-RELATION:v1'' @ [side_code side] @ h @ relation"

definition relation_projection ::
  "('s, 'g, 'sig, 'rp, 'pq) prims \<Rightarrow> cross_domain_dvp_body \<Rightarrow> dvp_side \<Rightarrow> string + bytes" where
  "relation_projection P d side =
     and_then (projection_digest P d side) (\<lambda>h.
       Inr (sha256 P (relation_bytes h side (relation_proof_digest d))))"

definition event_bytes :: "bytes \<Rightarrow> dvp_side \<Rightarrow> dvp_event \<Rightarrow> dvp_rail \<Rightarrow> dvp_rail \<Rightarrow> bytes" where
  "event_bytes h destination event source target =
     ascii ''QOMM:ZKPI:CROSS-DOMAIN-EVENT:v1'' @ [side_code destination, event_code event] @ h
       @ local_leg_id source @ local_leg_id target @ u32_be (network_id target) @ chain_id target
       @ rail_defmi_id target"

fun event_rails :: "cross_domain_dvp_body \<Rightarrow> dvp_side \<Rightarrow> dvp_rail \<times> dvp_rail" where
  "event_rails d Cash = (securities d, cash d)"
| "event_rails d Securities = (cash d, securities d)"

definition event_binding ::
  "('s, 'g, 'sig, 'rp, 'pq) prims \<Rightarrow> cross_domain_dvp_body \<Rightarrow> dvp_side \<Rightarrow> dvp_event \<Rightarrow> string + bytes" where
  "event_binding P d destination event =
     (let (source, target) = event_rails d destination
      in and_then (dvp_digest P d) (\<lambda>h. Inr (sha256 P (event_bytes h destination event source target))))"

record 'sig cross_domain_dvp_instruction =
  dvp_body :: cross_domain_dvp_body
  dvp_authorization :: 'sig

definition dvp_verify ::
  "('s, 'g, 'sig, 'rp, 'pq) prims \<Rightarrow> ('sig, 'pq, 'pk, 'pol) quorum \<Rightarrow> 'pk
    \<Rightarrow> 'sig cross_domain_dvp_instruction \<Rightarrow> string + unit" where
  "dvp_verify P Q public x =
     and_then (dvp_digest P (dvp_body x)) (\<lambda>h.
       refuse_if (\<not> frost_verify Q public h (dvp_authorization x))
         ''cross-domain DvP zkPI authorization does not verify'')"

section \<open>What the digests bind\<close>

definition rail_wf :: "dvp_rail \<Rightarrow> bool" where
  "rail_wf r \<longleftrightarrow> list_all (\<lambda>x. length x = 32) (rail_values r)"

definition dvp_wf :: "cross_domain_dvp_body \<Rightarrow> bool" where
  "dvp_wf d \<longleftrightarrow> list_all (\<lambda>x. length x = 32) (body_values d) \<and> rail_wf (cash d) \<and> rail_wf (securities d)"

lemma rail_bytes_length: "rail_wf r \<Longrightarrow> length (rail_bytes r) = 356"
  by (simp add: rail_bytes_def rail_wf_def rail_values_def)

lemma rail_bytes_inj:
  assumes "rail_wf r" and "rail_wf r'" and "rail_bytes r = rail_bytes r'"
  shows "r = r'"
  using assms
  by (intro dvp_rail.equality) (simp_all add: rail_bytes_def rail_wf_def rail_values_def append_eq_fixed)

lemma dvp_bytes_inj:
  assumes "dvp_wf d" and "dvp_wf d'" and "dvp_bytes d = dvp_bytes d'"
  shows "d = d'"
proof -
  have r: "rail_wf (cash d)" "rail_wf (securities d)" "rail_wf (cash d')" "rail_wf (securities d')"
    using assms(1,2) by (simp_all add: dvp_wf_def)
  show ?thesis
    using assms rail_bytes_inj[OF r(1,3)] rail_bytes_inj[OF r(2,4)]
    by (intro cross_domain_dvp_body.equality)
      (simp_all add: dvp_bytes_def dvp_wf_def body_values_def append_eq_fixed rail_bytes_length)
qed

lemma dvp_validate_Inr:
  assumes "dvp_validate d = Inr u"
  shows "rail_validate (cash d) = Inr ()" and "rail_validate (securities d) = Inr ()"
    and "local_leg_id (cash d) \<noteq> local_leg_id (securities d)"
    and "arm_deadline d < claim_deadline d" and "claim_deadline d < refund_after d"
  using assms by (auto simp: dvp_validate_def result_simps)

lemma side_code_inj [simp]: "side_code a = side_code b \<longleftrightarrow> a = b"
  by (cases a; cases b) simp_all

lemma event_code_inj [simp]: "event_code a = event_code b \<longleftrightarrow> a = b"
  by (cases a; cases b) simp_all

lemma projection_bytes_side:
  "projection_bytes h side r = projection_bytes h' side' r' \<Longrightarrow> side = side'"
  by (simp add: projection_bytes_def append_eq_fixed del: ascii_simps)

lemma event_bytes_inj:
  "event_bytes h side e s t = event_bytes h' side' e' s' t' \<Longrightarrow> side = side' \<and> e = e'"
  by (simp add: event_bytes_def append_eq_fixed del: ascii_simps)

lemma projection_digest_Inr:
  "projection_digest P d side = Inr h \<longleftrightarrow>
     dvp_validate d = Inr () \<and> h = sha256 P (projection_bytes (sha512 P (dvp_bytes d)) side (rail_of d side))"
  by (auto simp: projection_digest_def dvp_digest_def result_simps)

lemma event_binding_Inr:
  "event_binding P d side e = Inr h \<longleftrightarrow>
     dvp_validate d = Inr () \<and> h = sha256 P (event_bytes (sha512 P (dvp_bytes d)) side e
       (fst (event_rails d side)) (snd (event_rails d side)))"
  by (auto simp: event_binding_def dvp_digest_def result_simps Let_def split: prod.splits)

end
