(* ===== verification/Handles.thy ===== *)
theory Handles
  imports Instructions
begin

text \<open>
  \<^verbatim>\<open>src/rust/zkpi/src/handles.rs\<close>: one seed gives a firm a handle at every venue. The secret of a
  handle is the hash of the seed and the venue's name, which is length-prefixed.
\<close>

definition HANDLE_DOMAIN :: bytes where
  "HANDLE_DOMAIN = ascii ''QOMM:ZKPI:HANDLE:v1''"

record firm_identity =
  seed :: bytes32

record ('s, 'g) handle =
  hd_point :: 'g
  hd_secret :: 's

definition from_seed :: "bytes32 \<Rightarrow> firm_identity" where
  "from_seed sd = \<lparr>seed = sd\<rparr>"

text \<open>\<open>Identity::new\<close>, with the 32 bytes drawn from the generator as argument.\<close>

definition identity_new :: "bytes32 \<Rightarrow> firm_identity" where
  "identity_new drawn = \<lparr>seed = drawn\<rparr>"

definition handle_bytes :: "firm_identity \<Rightarrow> bytes \<Rightarrow> bytes" where
  "handle_bytes f ven = HANDLE_DOMAIN @ seed f @ u64_be (word_of_nat (length ven)) @ ven"

definition handle_at :: "('s, 'g, 'sig, 'rp, 'pq) prims \<Rightarrow> firm_identity \<Rightarrow> bytes \<Rightarrow> ('s, 'g) handle" where
  "handle_at P f ven =
     (let secret = wide_scalar (curve P) (sha512 P (handle_bytes f ven))
      in \<lparr>hd_point = smul (curve P) secret (basepoint (curve P)), hd_secret = secret\<rparr>)"

definition account :: "('s, 'g, 'sig, 'rp, 'pq) prims \<Rightarrow> ('s, 'g) handle \<Rightarrow> bytes" where
  "account P h = point_bytes P (hd_point h)"

lemma handle_bytes_inj:
  assumes "length (seed f) = 32" and "length (seed f') = 32"
    and "length ven < 2 ^ 64" and "length ven' < 2 ^ 64"
    and "handle_bytes f ven = handle_bytes f' ven'"
  shows "f = f' \<and> ven = ven'"
proof -
  have "seed f = seed f'"
    and "u64_be (word_of_nat (length ven)) @ ven @ [] = u64_be (word_of_nat (length ven')) @ ven' @ []"
    using assms(1,2,5) by (simp_all add: handle_bytes_def append_eq_fixed)
  with length_prefixed_inj[OF assms(3,4)] show ?thesis by auto
qed

text \<open>Two accounts coincide only if the handles coincide, or an exhibited pair collides.\<close>

lemma account_binds:
  assumes P: "points_encode P"
    and "length (seed f) = 32" and "length (seed f') = 32"
    and "length ven < 2 ^ 64" and "length ven' < 2 ^ 64"
    and "account P (handle_at P f ven) = account P (handle_at P f' ven')"
  shows "(f = f' \<and> ven = ven')
    \<or> collides (\<lambda>b. point_bytes P (smul (curve P) (wide_scalar (curve P) (sha512 P b)) (basepoint (curve P))))
        (handle_bytes f ven) (handle_bytes f' ven')"
  using assms(6) handle_bytes_inj[OF assms(2-5)]
  by (auto simp: collides_def account_def handle_at_def Let_def)

end
