(* ===== verification/Zkpi_Demo.thy ===== *)
theory Zkpi_Demo
  imports Typed_Wire Cross_Domain Handles
begin

text \<open>
  Concrete parameters on which the hypotheses of the payment theorems hold: a codec in which every
  encoded value is a flag, and a venue over the rationals with an all-zero range proof, which
  answers every challenge.
\<close>

section \<open>Flags as codecs\<close>

definition flag :: "nat \<Rightarrow> bool \<Rightarrow> bytes" where
  "flag n b = replicate n (if b then 1 else 0)"

definition unflag :: "nat \<Rightarrow> bytes \<Rightarrow> bool option" where
  "unflag n bs = (if bs = flag n False then Some False else if bs = flag n True then Some True else None)"

lemma flag_length [simp]: "length (flag n b) = n"
  by (simp add: flag_def)

lemma unflag_flag [simp]: "0 < n \<Longrightarrow> unflag n (flag n b) = Some b"
  by (cases b) (auto simp: unflag_def flag_def)

lemma unflag_canonical: "unflag n bs = Some b \<Longrightarrow> flag n b = bs"
  by (auto simp: unflag_def split: if_splits)

text \<open>Three points, so that maker, taker and escrow differ.\<close>

datatype trio = One | Two | Three

definition trio_code :: "nat \<Rightarrow> trio \<Rightarrow> bytes" where
  "trio_code n x = replicate n (case x of One \<Rightarrow> 1 | Two \<Rightarrow> 2 | Three \<Rightarrow> 3)"

definition trio_decode :: "nat \<Rightarrow> bytes \<Rightarrow> trio option" where
  "trio_decode n bs =
     (if bs = trio_code n One then Some One else if bs = trio_code n Two then Some Two
      else if bs = trio_code n Three then Some Three else None)"

lemma trio_code_length [simp]: "length (trio_code n x) = n"
  by (simp add: trio_code_def)

lemma trio_decode_code [simp]: "0 < n \<Longrightarrow> trio_decode n (trio_code n x) = Some x"
  by (cases x) (auto simp: trio_decode_def trio_code_def)

lemma trio_canonical: "trio_decode n bs = Some x \<Longrightarrow> trio_code n x = bs"
  by (auto simp: trio_decode_def split: if_splits)

definition flag_curve :: "(bool, trio) zk" where
  "flag_curve = \<lparr>smul = (\<lambda>b x. if b then x else Three), compress = trio_code 32, merlin = (\<lambda>_ _ _. []),
     wide_scalar = (\<lambda>_. True), hash_point = (\<lambda>_. One), basepoint = One, bp_value_gen = One,
     bp_blinding_gen = Two\<rparr>"

definition flag_prims :: "(bool, trio, bool, bool, bool) prims" where
  "flag_prims = \<lparr>curve = flag_curve, decompress = trio_decode 32, scalar_to_bytes = flag 32,
     from_canonical_bytes = unflag 32, sig_serialize = (\<lambda>b. Some (flag 64 b)), sig_deserialize = unflag 64,
     rp_to_bytes = flag 1, rp_from_bytes = unflag 1,
     rp_prove_multiple = (\<lambda>_ _ _ _ _ _. None), rp_verify_multiple = (\<lambda>_ _ _ _ _. False),
     pq_encode = (\<lambda>b. Some (flag 1 b)), pq_decode = unflag 1,
     sha256 = (\<lambda>_. replicate 32 0), sha512 = (\<lambda>_. replicate 64 0)\<rparr>"

lemma flag_curve_simps [simp]: "compress flag_curve = trio_code 32"
  by (simp add: flag_curve_def)

lemma flag_prims_simps [simp]:
  "curve flag_prims = flag_curve" "decompress flag_prims = trio_decode 32" "scalar_to_bytes flag_prims = flag 32"
  "from_canonical_bytes flag_prims = unflag 32" "sig_serialize flag_prims b = Some (flag 64 b)"
  "sig_deserialize flag_prims = unflag 64" "rp_to_bytes flag_prims = flag 1" "rp_from_bytes flag_prims = unflag 1"
  "pq_encode flag_prims b = Some (flag 1 b)" "pq_decode flag_prims = unflag 1"
  "sha256 flag_prims x = replicate 32 0" "sha512 flag_prims x = replicate 64 0"
  by (simp_all add: flag_prims_def)

lemma flag_points: "points_encode flag_prims"
  by (simp add: points_encode_def)

lemma flag_round_trip: "codecs_round_trip flag_prims"
  by (auto simp: codecs_round_trip_def flag_points)

lemma flag_canonical: "codecs_canonical flag_prims"
  by (auto simp: codecs_canonical_def unflag_canonical trio_canonical)

text \<open>A hybrid instruction with one-bit range proofs.\<close>

definition flag_range :: "(bool, trio) threshold_range_proof" where
  "flag_range = \<lparr>tr_bit_commitments = [One],
     tr_bit_proofs = [\<lparr>pp_t_factor = Two, pp_t_product = Three, pp_z_b = True, pp_z_rb = False, pp_z_s = True\<rparr>],
     tr_linkage = \<lparr>op_t = One, op_z_value = False, op_z_blinding = True\<rparr>, tr_bits = 1\<rparr>"

definition flag_instruction :: "(bool, trio, bool, bool, bool) instruction" where
  "flag_instruction = \<lparr>amount_commitment = One, price_commitment = Two, asset_commitment = Three,
     ranges = Threshold flag_range flag_range, payer_handle = One, payee_handle = Two,
     deadline = 77, nonce = flag 32 True, quote_binding = ProofDigest (flag 32 True), signature = True,
     pq_approval = Some True\<rparr>"

lemma flag_fits: "instruction_fits flag_prims flag_instruction"
  by (simp add: instruction_fits_def flag_instruction_def ranges_fit_def range_shape_def flag_range_def)

definition flag_range_bytes :: bytes where
  "flag_range_bytes = u16_be 1 @ trio_code 32 One @ trio_code 32 Two @ trio_code 32 Three @ flag 32 True @ flag 32 False
     @ flag 32 True @ trio_code 32 One @ flag 32 False @ flag 32 True"

definition flag_body :: bytes where
  "flag_body = MAGIC @ u16_be VERSION @ trio_code 32 One @ trio_code 32 Two @ trio_code 32 Three @ trio_code 32 One
     @ trio_code 32 Two @ u64_be 77 @ flag 32 True @ flag 32 True @ flag 64 True
     @ length_prefixed flag_range_bytes @ length_prefixed flag_range_bytes"

definition flag_bytes :: bytes where
  "flag_bytes = MAGIC @ u16_be HYBRID_VERSION @ length_prefixed flag_body @ length_prefixed (flag 1 True)"

lemma flag_encode_classical: "encode_classical flag_prims flag_instruction = Some flag_body"
  by (simp add: encode_classical_def flag_instruction_def instruction_version_def ranges_bytes_def
      encode_threshold_range_def flag_range_def bit_entry_bytes_def linkage_bytes_def
      binding_field_bytes_def flag_body_def flag_range_bytes_def)

lemma flag_encode: "encode flag_prims flag_instruction = Some flag_bytes"
  by (simp add: encode_def flag_encode_classical flag_bytes_def) (simp add: flag_instruction_def)

lemma flag_body_length: "length flag_body = 894"
  by (simp add: flag_body_def flag_range_bytes_def length_prefixed_def)

lemma flag_decode: "decode flag_prims flag_bytes = Inr flag_instruction"
  by (rule encode_back[OF flag_round_trip flag_fits flag_encode])
    (auto simp: flag_encode_classical flag_body_length)

text \<open>A joint settlement in which the taker pays the maker.\<close>

definition flag_context :: "trio execution_context" where
  "flag_context = \<lparr>operation = Settle, scope = Joint, direction = TakerBuys, venue_id = flag 32 True,
     defmi_id = flag 32 True, maker_handle = Two, taker_handle = One, reserve_handle = Three,
     maker_reservation_id = flag 32 True, maker_reservation_sequence = 1,
     taker_reservation_id = flag 32 True, taker_reservation_sequence = 2, rfq_nullifier = flag 32 True,
     taker_mandate_digest = flag 32 True, maker_policy_digest = flag 32 True,
     maker_mandate_digest = flag 32 True, maker_reserve_receipt_digest = flag 32 True,
     taker_reserve_receipt_digest = flag 32 True, ctx_quote_proof_digest = flag 32 True,
     market_statement_digest = flag 32 True, before_state_root = flag 32 True\<rparr>"

definition flag_typed :: "(bool, trio, bool, bool, bool) typed_instruction" where
  "flag_typed = \<lparr>payment = flag_instruction, ti_context = flag_context, authorization = True,
     pq_authorization = Some False\<rparr>"

lemma nonzero_flag [simp]: "0 < n \<Longrightarrow> nonzero (flag n True)"
  by (auto simp: nonzero_def flag_def list_ex_iff)

lemma flag_context_valid: "validate_against flag_context flag_instruction = Inr ()"
  by (simp add: validate_against_def flag_context_def validate_settlement_def quote_proof_digest_def
      role_mapping_def evidence_present settlement_evidence_def) (simp add: flag_instruction_def)

lemma flag_context_wf: "context_wf flag_context"
  by (simp add: context_wf_def flag_context_def)

definition flag_typed_bytes :: bytes where
  "flag_typed_bytes = TYPED_MAGIC @ u16_be TYPED_HYBRID_VERSION @ length_prefixed flag_bytes
     @ context_bytes (trio_code 32) flag_context @ flag 64 True @ length_prefixed (flag 1 False)"

lemma flag_typed_encode: "typed_encode flag_prims flag_typed = Some flag_typed_bytes"
  by (simp add: typed_encode_alt flag_typed_def flag_encode typed_pq_bytes_def flag_typed_bytes_def)

lemma flag_bytes_length: "length flag_bytes = 913"
  by (simp add: flag_bytes_def length_prefixed_def flag_body_length)

lemma flag_hybrid: "pq_approval flag_instruction \<noteq> None"
  by (simp add: flag_instruction_def)

lemma flag_typed_decode: "typed_decode flag_prims flag_typed_bytes = Inr flag_typed"
proof (rule typed_back[OF flag_round_trip _ _ _ _ _ flag_typed_encode])
  show "encode flag_prims (payment flag_typed) = Some flag_bytes" by (simp add: flag_typed_def flag_encode)
  show "decode flag_prims flag_bytes = Inr (payment flag_typed)" by (simp add: flag_typed_def flag_decode)
qed (auto simp: flag_typed_def flag_bytes_length MAX_BASE_BYTES_def flag_context_wf flag_context_valid flag_hybrid)

section \<open>A venue over the rationals\<close>

definition rat_curve :: "rat \<Rightarrow> (rat, rat) zk" where
  "rat_curve c = \<lparr>smul = (*), compress = (\<lambda>p. flag 32 (p = 0)), merlin = (\<lambda>_ _ _. []), wide_scalar = (\<lambda>_. c),
     hash_point = (\<lambda>_. 1), basepoint = 1, bp_value_gen = 1, bp_blinding_gen = 2\<rparr>"

definition rat_prims :: "rat \<Rightarrow> (rat, rat, bool, bool, bool) prims" where
  "rat_prims c = \<lparr>curve = rat_curve c, decompress = (\<lambda>_. None), scalar_to_bytes = (\<lambda>_. []),
     from_canonical_bytes = (\<lambda>_. None), sig_serialize = (\<lambda>b. Some (flag 64 b)), sig_deserialize = unflag 64,
     rp_to_bytes = flag 1, rp_from_bytes = unflag 1,
     rp_prove_multiple = (\<lambda>_ _ _ _ _ _. None), rp_verify_multiple = (\<lambda>_ _ _ _ _. False),
     pq_encode = (\<lambda>b. Some (flag 1 b)), pq_decode = unflag 1, sha256 = take 32, sha512 = take 64\<rparr>"

definition rat_quorum :: "(bool, bool, bool, unit) quorum" where
  "rat_quorum = \<lparr>frost_verify = (\<lambda>pk m sg. sg = pk), pk_serialize = (\<lambda>_. Some []), verifying_shares = (\<lambda>_. [[1], [2]]),
     identifier_of = (\<lambda>n. if n = 1 then Some [1] else if n = 2 then Some [2] else None), pol_validate = (\<lambda>_. True),
     pol_for_settlement = (\<lambda>_. True), pol_classical_binding = (\<lambda>_. []), pol_members = (\<lambda>_. [1, 2]),
     pol_verify = (\<lambda>_ _ _ _. True), pol_verify_archived = (\<lambda>_ _ _. True)\<rparr>"

lemma rat_simps [simp]:
  "curve (rat_prims c) = rat_curve c" "smul (rat_curve c) = (*)" "compress (rat_curve c) p = flag 32 (p = 0)"
  "frost_verify rat_quorum pk m sg \<longleftrightarrow> sg = pk"
  by (simp_all add: rat_prims_def rat_curve_def rat_quorum_def)

lemma rat_lawful: "lawful (rat_curve c)"
  by (simp add: lawful_def rat_curve_def algebra_simps)

definition rat_key :: "rat pedersen" where
  "rat_key = \<lparr>gen_g = 1, gen_h = 2\<rparr>"

definition small_bounds :: bounds where
  "small_bounds = \<lparr>amount_bits = 8, price_bits = 8, bd_max_horizon = 100\<rparr>"

definition zero_range :: "(rat, rat) threshold_range_proof" where
  "zero_range = \<lparr>tr_bit_commitments = replicate 8 0,
     tr_bit_proofs = replicate 8 \<lparr>pp_t_factor = 0, pp_t_product = 0, pp_z_b = 0, pp_z_rb = 0, pp_z_s = 0\<rparr>,
     tr_linkage = \<lparr>op_t = 0, op_z_value = 0, op_z_blinding = 0\<rparr>, tr_bits = 8\<rparr>"

lemma list_all_enumerate_replicate:
  "list_all f (enumerate 0 (replicate n x)) \<longleftrightarrow> (\<forall>i < n. f (i, x))"
  by (auto simp: list_all_iff in_set_enumerate_eq)

lemma zero_range_verifies: "verify_threshold_range (rat_curve c) rat_key 0 zero_range context"
proof -
  have "weighted_sum (rat_curve c) (replicate 8 0) = 0"
    by (simp add: weighted_sum_def numeral_eq_Suc)
  then show ?thesis
    by (simp add: verify_threshold_range_def zero_range_def verify_square_bit_def bit_context_def
        verify_product_iff[OF rat_lawful] product_holds_def rat_lawful commit_def
        verify_zero_opening_iff[OF rat_lawful] zero_holds_def list_all_enumerate_replicate zip_replicate)
qed

end
