(* ===== verification/Zkpi_Properties.thy ===== *)
theory Zkpi_Properties
  imports Zkpi_Demo
begin

text \<open>
  The properties of payment instructions: what a venue accepts, how often, and until when; what the
  quorum's signatures bind; and that the wire formats neither lose nor admit anything.
\<close>

section \<open>Settlement\<close>

lemma venue_run_spent:
  "spent (run_ops (venue_exec P Q) xs v)
     = spent v \<union> (\<lambda>x. nullifier P (op_payment x)) ` set (accepted_ops (venue_exec P Q) xs v)"
proof (induction xs arbitrary: v)
  case (Cons x xs)
  show ?case
  proof (cases rule: step_or_stay_cases[of "venue_exec P Q" x v])
    case (refused e)
    then show ?thesis using Cons.IH[of v] by simp
  next
    case (accepted w)
    then show ?thesis using Cons.IH[of w] venue_exec_Inr(2)[OF accepted(1)] by simp
  qed
qed simp

text \<open>C9: a venue spends every nullifier once. Over any sequence of plain and typed settlement requests,
  the accepted ones have pairwise different nullifiers, none of them spent before, and afterwards
  exactly theirs have been added to the spent set.\<close>

theorem nullifiers_spent_once:
  "distinct (map (\<lambda>x. nullifier P (op_payment x)) (accepted_ops (venue_exec P Q) xs v))
   \<and> (\<lambda>x. nullifier P (op_payment x)) ` set (accepted_ops (venue_exec P Q) xs v) \<inter> spent v = {}
   \<and> spent (run_ops (venue_exec P Q) xs v)
       = spent v \<union> (\<lambda>x. nullifier P (op_payment x)) ` set (accepted_ops (venue_exec P Q) xs v)"
proof (intro conjI)
  show "distinct (map (\<lambda>x. nullifier P (op_payment x)) (accepted_ops (venue_exec P Q) xs v))"
    using venue.accepted_once[OF TrueI, of P Q xs v] by (simp add: map_filter_def comp_def)
  show "(\<lambda>x. nullifier P (op_payment x)) ` set (accepted_ops (venue_exec P Q) xs v) \<inter> spent v = {}"
    using venue.accepted_fresh[OF TrueI, of _ P Q xs v] by auto
qed (rule venue_run_spent)

text \<open>C10: what the issuer builds, the venue settles, once. A partial instruction made from threshold
  ranges within the bounds, sealed with a signature that verifies over its digest, is settled by a
  venue with the same key and bounds, also one that requires threshold ranges, whenever the deadline
  lies ahead and within the horizon; settling it again is refused.\<close>

theorem issued_instruction_settles:
  assumes "from_threshold_ranges P key b amount_c price_c asset_c amount_range price_range payer payee dl non qd
             = Inr p"
    and "venue_new key b pk = Some v" and "frost_verify Q pk (partial_digest_for P DEFAULT_DOMAIN p) sg"
    and "now \<le> dl" and "unat dl \<le> unat now + unat (bd_max_horizon b)"
  shows "(case settle P Q (sealed p sg) now (require_threshold_ranges v) of
            Inl _ \<Rightarrow> False
          | Inr w \<Rightarrow> spent w = {nullifier P (sealed p sg :: (_, _, _, _, 'q) instruction)}
                    \<and> settle P Q (sealed p sg) now w = Inl ''already settled'')"
proof -
  have ranges: "tr_bits amount_range = amount_bits b" "tr_bits price_range = price_bits b"
    "verify_threshold_range (curve P) key amount_c amount_range AMOUNT_RANGE_CONTEXT"
    "verify_threshold_range (curve P) key price_c price_range PRICE_RANGE_CONTEXT"
    "point_bytes P payer \<noteq> point_bytes P payee"
    using assms(1) by (auto simp: from_threshold_ranges_def split: if_splits)
  have p: "p = \<lparr>pi_amount_commitment = amount_c, pi_price_commitment = price_c, pi_asset_commitment = asset_c,
      pi_ranges = Threshold amount_range price_range, pi_payer_handle = payer, pi_payee_handle = payee,
      pi_deadline = dl, pi_nonce = non, pi_quote_binding = ProofDigest qd\<rparr>"
    using assms(1) by (auto simp: from_threshold_ranges_def split: if_splits)
  have v: "ve_key v = key" "ve_domain v = DEFAULT_DOMAIN" "rc_bits (ve_amount_ranges v) = amount_bits b"
    "rc_bits (ve_price_ranges v) = price_bits b" "group_public v = pk" "spent v = {}"
    "max_horizon v = bd_max_horizon b" "pq_policy v = None"
    using assms(2) by (auto simp: venue_new_def range_ctx_new_def bind_eq_Some_conv split: if_splits)
  have "\<not> saturating_add now (bd_max_horizon b) < dl"
    using assms(5) unat_bound[of dl] by (simp add: word_less_nat_alt unat_saturating_add)
  then show ?thesis
    using ranges v assms(3,4) sealed_digest(1)[where p = p and sg = sg and domain = DEFAULT_DOMAIN and P = P]
    by (simp add: settle_def verify_def verify_at_def verify_ranges_def verify_pq_approval_at_def
        require_threshold_ranges_def sealed_def p refuse_if_def)
qed

lemma rat_partial:
  "\<exists>p. from_threshold_ranges (rat_prims 3) rat_key small_bounds 0 0 5 zero_range zero_range 0 1 150
        (flag 32 True) (flag 32 True) = Inr p"
  by (simp add: from_threshold_ranges_def zero_range_verifies small_bounds_def)
    (simp add: zero_range_def flag_def)

theorem issued_instruction_settles_witness:
  "\<exists>p v. case settle (rat_prims 3) rat_quorum (sealed p True) 100 (require_threshold_ranges v) of
      Inl _ \<Rightarrow> False
    | Inr w \<Rightarrow> spent w = {nullifier (rat_prims 3) (sealed p True)}
              \<and> settle (rat_prims 3) rat_quorum (sealed p True) 100 w = Inl ''already settled''"
proof -
  obtain p where p: "from_threshold_ranges (rat_prims 3) rat_key small_bounds 0 0 5 zero_range zero_range 0 1 150
      (flag 32 True) (flag 32 True) = Inr p" using rat_partial by blast
  obtain v :: "(rat, bool, unit) venue" where v: "venue_new rat_key small_bounds True = Some v"
    by (simp add: venue_new_def range_ctx_new_def small_bounds_def)
  show ?thesis
    by (intro exI, rule issued_instruction_settles[OF p v]) (simp_all add: small_bounds_def)
qed

text \<open>C11: a nullifier need not be kept longer than the horizon. After an instruction was accepted at
  \<open>now\<close>, it is past its deadline for every venue state at every time beyond \<open>now\<close> plus the horizon, so
  dropping its nullifier then cannot let it settle again.\<close>

theorem nullifier_may_be_dropped:
  assumes "venue_exec P Q x v = Inr w" and "unat (op_time x) + unat (max_horizon v) < unat later"
  shows "verify P Q u (op_payment x) later = Inl ''past the deadline''"
  by (rule verify_late[OF venue_exec_Inr(1)[OF assms(1)] assms(2)])

definition rat_instruction :: "(rat, rat, bool, bool, bool) instruction" where
  "rat_instruction = \<lparr>amount_commitment = 0, price_commitment = 0, asset_commitment = 5,
     ranges = Threshold zero_range zero_range, payer_handle = 0, payee_handle = 1, deadline = 150,
     nonce = flag 32 True, quote_binding = ProofDigest (flag 32 True), signature = True, pq_approval = None\<rparr>"

definition rat_venue :: "(rat, bool, unit) venue" where
  "rat_venue = \<lparr>ve_key = rat_key, ve_domain = DEFAULT_DOMAIN, ve_amount_ranges = \<lparr>rc_gens = (8, 1), rc_bits = 8\<rparr>,
     ve_price_ranges = \<lparr>rc_gens = (8, 1), rc_bits = 8\<rparr>, group_public = True, spent = {}, max_horizon = 100,
     ve_require_threshold = True, pq_policy = None\<rparr>"

lemma flag_differ: "flag 32 True \<noteq> flag 32 False"
  by (simp add: flag_def)

lemma rat_verifies: "verify (rat_prims c) rat_quorum rat_venue rat_instruction 100 = Inr ()"
  using flag_differ zero_range_verifies
  by (simp add: verify_def verify_at_def rat_venue_def rat_instruction_def verify_ranges_def
      verify_pq_approval_at_def refuse_if_def word_less_nat_alt unat_saturating_add)
    (simp add: zero_range_def)

lemma rat_settles:
  "settle (rat_prims c) rat_quorum rat_instruction 100 rat_venue
     = Inr (rat_venue\<lparr>spent := insert (nullifier (rat_prims c) rat_instruction) (spent rat_venue)\<rparr>)"
  by (simp add: settle_def rat_verifies)

theorem nullifier_may_be_dropped_witness:
  "verify (rat_prims 3) rat_quorum rat_venue rat_instruction 201 = Inl ''past the deadline''"
  using nullifier_may_be_dropped[of "rat_prims 3" rat_quorum "Settle_payment rat_instruction 100" rat_venue]
    rat_settles
  by (simp add: rat_venue_def)

text \<open>\<open>verify_archived\<close> refuses what this venue settled: the record of an instruction that \<open>settle\<close>
  accepted is answered with \<open>already settled\<close> by the same venue afterwards, whatever its signatures.\<close>

lemma archived_record_refused:
  assumes "settle P Q i now v = Inr w"
  shows "verify_archived P Q w i = Inl ''already settled''"
proof -
  note ok = verify_at_Inr[OF settle_Inr(1)[OF assms, unfolded verify_def]]
  have "\<not> saturating_add (deadline i) (max_horizon w) < deadline i"
    using unat_bound[of "deadline i"] by (simp add: word_less_nat_alt unat_saturating_add)
  then show ?thesis
    using ok(3) settle_Inr(2)[OF assms] by (simp add: verify_archived_def verify_at_def refuse_if_def)
qed

lemma archived_record_refused_witness:
  "verify_archived (rat_prims 3) rat_quorum
     (rat_venue\<lparr>spent := insert (nullifier (rat_prims 3) rat_instruction) (spent rat_venue)\<rparr>) rat_instruction
   = Inl ''already settled''"
  by (rule archived_record_refused[OF rat_settles])

section \<open>Hidden values\<close>

text \<open>A second acceptance of rewound proofs: equal first moves, different challenges.\<close>

definition rewound ::
  "('s::field, 'g::ab_group_add) zk \<Rightarrow> ('s, 'g) zk \<Rightarrow> bytes \<Rightarrow> 'g \<Rightarrow> ('s, 'g) threshold_range_proof
    \<Rightarrow> ('s, 'g) threshold_range_proof \<Rightarrow> bool" where
  "rewound Z Z' context C p q \<longleftrightarrow>
     threshold_first_moves q = threshold_first_moves p
     \<and> list_all (\<lambda>i. square_challenge Z context p i \<noteq> square_challenge Z' context q i) [0..<tr_bits p]
     \<and> threshold_link_challenge Z context C p \<noteq> threshold_link_challenge Z' context C q"

definition opens_below ::
  "('s::field, 'g::ab_group_add) zk \<Rightarrow> 'g pedersen \<Rightarrow> 'g \<Rightarrow> nat \<Rightarrow> nat \<times> 's \<Rightarrow> bool" where
  "opens_below Z key C b = (\<lambda>(n, r). n < 2 ^ b \<and> C = commit Z key (of_nat n) r)"

text \<open>The scalars that could betray the generators, one for each bit.\<close>

definition candidate_dlogs ::
  "('s::field, 'g) zk \<Rightarrow> ('s, 'g) zk \<Rightarrow> bytes \<Rightarrow> ('s, 'g) threshold_range_proof
    \<Rightarrow> ('s, 'g) threshold_range_proof \<Rightarrow> 's list" where
  "candidate_dlogs Z Z' context p q = map (extracted_dlog Z Z' context p q) [0..<tr_bits p]"

definition betrays :: "('s, 'g) zk \<Rightarrow> 'g pedersen \<Rightarrow> 's list \<Rightarrow> bool" where
  "betrays Z key xs = list_ex (\<lambda>x. gen_g key = smul Z x (gen_h key)) xs"

lemma rewound_extract:
  assumes "lawful Z" and "lawful Z'" and "smul Z' = smul Z"
    and "verify_threshold_range Z key C p context" and "verify_threshold_range Z' key C q context"
    and "rewound Z Z' context C p q"
  shows "opens_below Z key C (tr_bits p) (threshold_witness Z Z' context C p q)
    \<or> betrays Z key (candidate_dlogs Z Z' context p q)"
  using threshold_extract[OF assms(1-5)] assms(6)
  by (auto simp: rewound_def opens_below_def list_all_iff betrays_def candidate_dlogs_def list_ex_iff)

text \<open>C12: a venue settles threshold payments only within its bounds. If the same payment is accepted
  for rewound range proofs, then explicit functions of the two transcripts open the amount
  commitment to a number below the amount bound and the price commitment to one below the price
  bound, or one of the candidates is the discrete logarithm between the generators.\<close>

theorem settled_values_in_bounds:
  assumes "lawful (curve P)" and "lawful (curve P')" and "smul (curve P') = smul (curve P)"
    and "verify P Q v i now = Inr ()" and "verify P' Q' v i' now' = Inr ()"
    and "ranges i = Threshold a p" and "ranges i' = Threshold a' p'"
    and "amount_commitment i' = amount_commitment i" and "price_commitment i' = price_commitment i"
    and "rewound (curve P) (curve P') AMOUNT_RANGE_CONTEXT (amount_commitment i) a a'"
    and "rewound (curve P) (curve P') PRICE_RANGE_CONTEXT (price_commitment i) p p'"
  shows "opens_below (curve P) (ve_key v) (amount_commitment i) (rc_bits (ve_amount_ranges v))
           (threshold_witness (curve P) (curve P') AMOUNT_RANGE_CONTEXT (amount_commitment i) a a')
         \<and> opens_below (curve P) (ve_key v) (price_commitment i) (rc_bits (ve_price_ranges v))
           (threshold_witness (curve P) (curve P') PRICE_RANGE_CONTEXT (price_commitment i) p p')
       \<or> betrays (curve P) (ve_key v)
           (candidate_dlogs (curve P) (curve P') AMOUNT_RANGE_CONTEXT a a'
            @ candidate_dlogs (curve P) (curve P') PRICE_RANGE_CONTEXT p p')"
proof -
  note r = threshold_ranges_checked[OF verify_at_Inr(5)[OF assms(4)[unfolded verify_def]] assms(6)]
  note r' = threshold_ranges_checked[OF verify_at_Inr(5)[OF assms(5)[unfolded verify_def]] assms(7)]
  show ?thesis
    using rewound_extract[OF assms(1-3) r(3) r'(3)[unfolded assms(8)] assms(10)]
      rewound_extract[OF assms(1-3) r(4) r'(4)[unfolded assms(9)] assms(11)] r(1,2)
    by (auto simp: betrays_def)
qed

lemma rat_challenge [simp]: "challenge_scalar (rat_curve c) l T = (c, T @ [Drawn l 64])"
  by (simp add: challenge_scalar_def rat_curve_def)

lemma rat_rewound: "rewound (rat_curve 3) (rat_curve 5) context 0 zero_range zero_range"
  by (simp add: rewound_def list_all_iff square_challenge_def bit_context_def product_challenge_def
      threshold_link_challenge_def zero_challenge_def opening_challenge_def zero_range_def Let_def)

theorem settled_values_in_bounds_witness:
  "opens_below (rat_curve 3) rat_key 0 8
      (threshold_witness (rat_curve 3) (rat_curve 5) AMOUNT_RANGE_CONTEXT 0 zero_range zero_range)
    \<and> opens_below (rat_curve 3) rat_key 0 8
      (threshold_witness (rat_curve 3) (rat_curve 5) PRICE_RANGE_CONTEXT 0 zero_range zero_range)
   \<or> betrays (rat_curve 3) rat_key
      (candidate_dlogs (rat_curve 3) (rat_curve 5) AMOUNT_RANGE_CONTEXT zero_range zero_range
       @ candidate_dlogs (rat_curve 3) (rat_curve 5) PRICE_RANGE_CONTEXT zero_range zero_range)"
  using settled_values_in_bounds[of "rat_prims 3" "rat_prims 5" rat_quorum rat_venue rat_instruction 100
      rat_quorum rat_instruction 100 zero_range zero_range zero_range zero_range]
    rat_lawful rat_verifies rat_rewound
  by (simp add: rat_venue_def) (simp add: rat_instruction_def)

section \<open>Signatures\<close>

text \<open>C13: the quorum's signature is for one payment at one venue. Equal digests come from equal domains,
  commitments, handles, deadline, nonce and quote binding, or the two hashed messages collide.\<close>

theorem digest_binds_fields:
  assumes "points_encode P" and "length domain < 2 ^ 64" and "length domain' < 2 ^ 64"
    and "length (nonce i) = 32" and "length (nonce i') = 32"
    and "binding_wf (quote_binding i)" and "binding_wf (quote_binding i')"
    and "digest_for P domain i = digest_for P domain' i'"
  shows "domain = domain' \<and> amount_commitment i = amount_commitment i' \<and> price_commitment i = price_commitment i'
         \<and> asset_commitment i = asset_commitment i' \<and> payer_handle i = payer_handle i'
         \<and> payee_handle i = payee_handle i' \<and> deadline i = deadline i' \<and> nonce i = nonce i'
         \<and> quote_binding i = quote_binding i'
       \<or> collides (sha512 P)
           (signed_bytes (point_bytes P) domain [amount_commitment i, price_commitment i, asset_commitment i,
              payer_handle i, payee_handle i] (deadline i) (nonce i) (quote_binding i))
           (signed_bytes (point_bytes P) domain' [amount_commitment i', price_commitment i', asset_commitment i',
              payer_handle i', payee_handle i'] (deadline i') (nonce i') (quote_binding i'))"
    (is "_ \<or> collides _ ?m ?m'")
proof (cases "?m = ?m'")
  case True
  then show ?thesis using signed_bytes_inj[OF assms(1-3) _ assms(4-7) True] by simp
next
  case False
  then show ?thesis using assms(8) by (simp add: collides_def digest_for_def)
qed

theorem digest_binds_fields_witness:
  "ascii ''rail A'' = ascii ''rail B''
   \<or> collides (sha512 flag_prims)
       (signed_bytes (trio_code 32) (ascii ''rail A'') [One, Two, Three, One, Two] 77 (flag 32 True)
          (ProofDigest (flag 32 True)))
       (signed_bytes (trio_code 32) (ascii ''rail B'') [One, Two, Three, One, Two] 77 (flag 32 True)
          (ProofDigest (flag 32 True)))"
  using digest_binds_fields[OF flag_points, of "ascii ''rail A''" "ascii ''rail B''" flag_instruction
      flag_instruction]
  by (auto simp: flag_instruction_def digest_for_def simp del: ascii_simps)

lemma typed_digest_Inr:
  "typed_digest_for P domain pay c = Inr h \<longleftrightarrow>
     validate_against c pay = Inr () \<and> h = sha512 P (typed_bytes P domain pay c)"
  by (auto simp: typed_digest_for_def result_simps)

lemma typed_bytes_inj:
  assumes P: "points_encode P" and "\<And>b. length (sha512 P b) = 64"
    and "length domain < 2 ^ 64" and "length domain' < 2 ^ 64" and "context_wf c" and "context_wf c'"
    and "typed_bytes P domain pay c = typed_bytes P domain' pay' c'"
  shows "domain = domain' \<and> digest_for P domain pay = digest_for P domain' pay' \<and> c = c'"
proof -
  have "u64_be (word_of_nat (length domain)) @ domain @ digest_for P domain pay @ context_bytes (point_bytes P) c
      = u64_be (word_of_nat (length domain')) @ domain' @ digest_for P domain' pay'
          @ context_bytes (point_bytes P) c'"
    using assms(7) by (simp add: typed_bytes_def del: ascii_simps)
  then have "domain = domain'" and "digest_for P domain pay @ context_bytes (point_bytes P) c
      = digest_for P domain' pay' @ context_bytes (point_bytes P) c'"
    using length_prefixed_inj[OF assms(3,4)] by blast+
  then show ?thesis
    using context_bytes_inj[OF P assms(5,6)] by (simp add: append_eq_fixed digest_for_def assms(2))
qed

text \<open>The typed authorization is for one context and one payment digest, at one venue: equal typed
  digests come from equal domains, equal contexts and equal payment digests, or the two hashed
  messages collide.\<close>

lemma typed_digest_binds:
  assumes "points_encode P" and "\<And>b. length (sha512 P b) = 64"
    and "length domain < 2 ^ 64" and "length domain' < 2 ^ 64" and "context_wf c" and "context_wf c'"
    and "typed_digest_for P domain pay c = Inr h" and "typed_digest_for P domain' pay' c' = Inr h"
  shows "domain = domain' \<and> c = c' \<and> digest_for P domain pay = digest_for P domain' pay'
    \<or> collides (sha512 P) (typed_bytes P domain pay c) (typed_bytes P domain' pay' c')"
  using typed_bytes_inj[OF assms(1-6)] assms(7,8) by (auto simp: typed_digest_Inr collides_def)

lemma typed_digest_binds_witness:
  "ascii ''a'' = ascii ''b''
   \<or> collides (sha512 flag_prims) (typed_bytes flag_prims (ascii ''a'') flag_instruction flag_context)
       (typed_bytes flag_prims (ascii ''b'') flag_instruction flag_context)"
  using typed_digest_binds[OF flag_points, of "ascii ''a''" "ascii ''b''" flag_context flag_context
      flag_instruction "replicate 64 0" flag_instruction] flag_context_wf flag_context_valid
  by (auto simp: typed_digest_Inr simp del: ascii_simps)

section \<open>Roles\<close>

text \<open>a typed settlement moves value only along the leg its context names. The three parties are
  distinct; a reserve moves from its owner into escrow and a release back, for one named party; a
  settlement is joint, runs between taker and maker in the traded direction, names the quote
  proof the payment was signed with, and carries all ten pieces of evidence.\<close>

lemma typed_settlement_legs:
  assumes "settle_typed P Q t now v = Inr w" and "c = ti_context t" and "i = payment t"
  shows "distinct [maker_handle c, taker_handle c, reserve_handle c]
    \<and> (case operation c of
         Reserve \<Rightarrow> scope c \<noteq> Joint \<and> payee_handle i = reserve_handle c
           \<and> payer_handle i = (if scope c = Maker then maker_handle c else taker_handle c)
       | Release \<Rightarrow> scope c \<noteq> Joint \<and> payer_handle i = reserve_handle c
           \<and> payee_handle i = (if scope c = Maker then maker_handle c else taker_handle c)
       | _ \<Rightarrow> scope c = Joint
           \<and> (payer_handle i, payee_handle i)
               = (case direction c of TakerBuys \<Rightarrow> (taker_handle c, maker_handle c)
                                    | TakerSells \<Rightarrow> (maker_handle c, taker_handle c))
           \<and> quote_proof_digest i \<in> {None, Some (ctx_quote_proof_digest c)}
           \<and> list_all (\<lambda>(val, message). nonzero val) (settlement_evidence c))"
proof -
  note valid = settle_typed_Inr(2)[OF assms(1), folded assms(2,3)]
  note leg = validate_against_leg[OF valid]
  have settled: "scope c = Joint
           \<and> (payer_handle i, payee_handle i)
               = (case direction c of TakerBuys \<Rightarrow> (taker_handle c, maker_handle c)
                                    | TakerSells \<Rightarrow> (maker_handle c, taker_handle c))
           \<and> quote_proof_digest i \<in> {None, Some (ctx_quote_proof_digest c)}
           \<and> list_all (\<lambda>(val, message). nonzero val) (settlement_evidence c)"
    if "operation c \<in> {Consume, Settle}"
    using settlement_leg[OF leg(3)[OF that]]
    by (cases "quote_proof_digest i") (auto simp: role_mapping_def split: trade_direction.splits)
  show ?thesis
    using validate_against_parties[OF valid] reserve_leg[OF leg(1)] release_leg[OF leg(2)] settled
    by (auto split: operation_kind.split)
qed

definition rat_context :: "rat execution_context" where
  "rat_context = \<lparr>operation = Reserve, scope = Taker, direction = TakerBuys, venue_id = flag 32 True,
     defmi_id = flag 32 True, maker_handle = 7, taker_handle = 0, reserve_handle = 1,
     maker_reservation_id = flag 32 False, maker_reservation_sequence = 1,
     taker_reservation_id = flag 32 True, taker_reservation_sequence = 2, rfq_nullifier = flag 32 True,
     taker_mandate_digest = flag 32 True, maker_policy_digest = flag 32 False,
     maker_mandate_digest = flag 32 False, maker_reserve_receipt_digest = flag 32 False,
     taker_reserve_receipt_digest = flag 32 False, ctx_quote_proof_digest = flag 32 False,
     market_statement_digest = flag 32 False, before_state_root = flag 32 True\<rparr>"

definition rat_typed :: "(rat, rat, bool, bool, bool) typed_instruction" where
  "rat_typed = \<lparr>payment = rat_instruction, ti_context = rat_context, authorization = True,
     pq_authorization = None\<rparr>"

lemma rat_typed_fields: "ti_context rat_typed = rat_context" "payment rat_typed = rat_instruction"
  by (simp_all add: rat_typed_def)

lemma rat_context_role: "operation rat_context = Reserve" "scope rat_context = Taker"
  by (simp_all add: rat_context_def)

lemma nonzero_clear [simp]: "\<not> nonzero (flag n False)"
  by (simp add: nonzero_def flag_def list_ex_iff)

lemma rat_context_valid: "validate_against rat_context rat_instruction = Inr ()"
  by (simp add: validate_against_def validate_reserve_def rat_context_def rat_instruction_def)

lemma rat_settles_typed: "\<exists>w. settle_typed (rat_prims 3) rat_quorum rat_typed 100 rat_venue = Inr w"
  using rat_verifies[of 3] rat_context_valid
  by (simp add: settle_typed_def verify_typed_def rat_typed_def typed_digest_for_def verify_pq_approval_def
      verify_pq_approval_at_def) (simp add: rat_venue_def)

lemma typed_settlement_legs_witness:
  "scope rat_context \<noteq> Joint \<and> payee_handle rat_instruction = reserve_handle rat_context
    \<and> payer_handle rat_instruction = taker_handle rat_context"
proof -
  obtain w where w: "settle_typed (rat_prims 3) rat_quorum rat_typed 100 rat_venue = Inr w"
    using rat_settles_typed by blast
  show ?thesis
    using typed_settlement_legs[OF w rat_typed_fields[symmetric]] by (simp add: rat_context_role)
qed

section \<open>The committee\<close>

lemma injective_cover:
  assumes "distinct xs" and "length xs = length ys" and "inj_on f (set xs)" and "f ` set xs \<subseteq> set ys"
  shows "f ` set xs = set ys"
proof (rule card_subset_eq[OF finite_set assms(4)])
  have "card (f ` set xs) = length xs" using assms(1,3) by (simp add: card_image distinct_card)
  moreover have "card (f ` set xs) \<le> card (set ys)" using assms(4) by (simp add: card_mono)
  ultimately show "card (f ` set xs) = card (set ys)"
    using assms(2) card_length[of ys] by linarith
qed

lemma require_pq_committee_Inr:
  assumes "require_pq_committee P Q policy v = Inr w"
  shows "pol_validate Q policy"
    and "length (pol_members Q policy) = length (verifying_shares Q (group_public v))"
    and "n \<in> set (pol_members Q policy)
      \<Longrightarrow> \<exists>x. identifier_of Q n = Some x \<and> x \<in> set (verifying_shares Q (group_public v))"
    and "pq_policy w = Some policy"
  using assms
  by (auto simp: require_pq_committee_def validate_settlement_committee_def result_simps Let_def
      list_ex_iff split: option.splits)

text \<open>an enrolled post-quantum committee is the FROST committee. If \<open>require_pq_committee\<close> accepts a
  policy, then the identifiers of its members are exactly the holders of verifying shares, provided
  validated policies name each node once and different node numbers have different identifiers;
  and from then on the venue refuses every instruction without an approval.\<close>

lemma enrolled_committee_matches:
  assumes "require_pq_committee P Q policy v = Inr w"
    and "\<And>pol. pol_validate Q pol \<Longrightarrow> distinct (pol_members Q pol)"
    and "\<And>m n x. identifier_of Q m = Some x \<Longrightarrow> identifier_of Q n = Some x \<Longrightarrow> m = n"
  shows "identifier_of Q ` set (pol_members Q policy) = Some ` set (verifying_shares Q (group_public v))
    \<and> (pq_approval i = None \<longrightarrow> \<not> is_ok (verify P Q w i now))"
proof (intro conjI impI)
  note checks = require_pq_committee_Inr[OF assms(1)]
  let ?f = "\<lambda>n. the (identifier_of Q n)"
  have f: "identifier_of Q n = Some (?f n)" "?f n \<in> set (verifying_shares Q (group_public v))"
    if "n \<in> set (pol_members Q policy)" for n
    using checks(3)[OF that] by auto
  have "inj_on ?f (set (pol_members Q policy))"
    by (rule inj_onI) (metis f(1) assms(3))
  then have "?f ` set (pol_members Q policy) = set (verifying_shares Q (group_public v))"
    by (rule injective_cover[OF assms(2)[OF checks(1)] checks(2)]) (auto intro: f(2))
  moreover have "identifier_of Q ` set (pol_members Q policy) = Some ` ?f ` set (pol_members Q policy)"
    unfolding image_image by (rule image_cong[OF refl f(1)])
  ultimately show "identifier_of Q ` set (pol_members Q policy)
      = Some ` set (verifying_shares Q (group_public v))" by simp
  assume none: "pq_approval i = None"
  show "\<not> is_ok (verify P Q w i now)"
  proof
    assume "is_ok (verify P Q w i now)"
    then obtain u where "verify_at P Q w i now False = Inr u" by (auto simp: is_ok_iff verify_def)
    from pq_approval_needed[OF verify_at_Inr(7)[OF this]] show False using none checks(4) by simp
  qed
qed

lemma enrolled_committee_matches_witness:
  "identifier_of rat_quorum ` set (pol_members rat_quorum ())
     = Some ` set (verifying_shares rat_quorum (group_public rat_venue))"
proof (rule conjunct1[OF enrolled_committee_matches])
  show "require_pq_committee (rat_prims 3) rat_quorum () rat_venue = Inr (rat_venue\<lparr>pq_policy := Some ()\<rparr>)"
    by (simp add: require_pq_committee_def validate_settlement_committee_def rat_quorum_def rat_prims_def)
  show "distinct (pol_members rat_quorum pol)" for pol by (simp add: rat_quorum_def)
  show "m = n" if "identifier_of rat_quorum m = Some x" "identifier_of rat_quorum n = Some x" for m n x
    using that by (auto simp: rat_quorum_def split: if_splits)
qed

end
