(* ===== verification/Wire_Properties.thy ===== *)
theory Wire_Properties
  imports Zkpi_Demo
begin

text \<open>
  The properties of the wire formats and of the digests of cross-domain instructions.
\<close>

section \<open>Instructions\<close>

text \<open>The largest instruction the format can carry: the body of a hybrid container within 1 MiB, the
  approval within 32 bits.\<close>

definition container_fits ::
  "('s, 'g, 'sig, 'rp, 'pq) prims \<Rightarrow> ('s, 'g, 'sig, 'rp, 'pq) instruction \<Rightarrow> bool" where
  "container_fits P i =
     (case (pq_approval i, encode_classical P i) of
        (Some a, Some c) \<Rightarrow>
          length c \<le> 2 ^ 20 \<and> (case pq_encode P a of Some q \<Rightarrow> length q < 2 ^ 32 | None \<Rightarrow> True)
      | _ \<Rightarrow> True)"

text \<open>C14: \<open>decode\<close> reads back what \<open>encode\<close> wrote, for the classical versions and the hybrid container,
  and for legacy and threshold evidence alike, where the lengths fit their prefixes and the body of a hybrid container
  is at most the 1 MiB that \<open>decode\<close> admits.\<close>

theorem wire_round_trip:
  assumes "codecs_round_trip P" and "instruction_fits P i" and "container_fits P i"
    and "encode P i = Some b"
  shows "decode P b = Inr i"
  by (rule encode_back[OF assms(1,2,4)]) (use assms(3) in \<open>auto simp: container_fits_def\<close>)

theorem wire_round_trip_witness: "decode flag_prims flag_bytes = Inr flag_instruction"
  by (rule wire_round_trip[OF flag_round_trip flag_fits _ flag_encode])
    (simp add: container_fits_def flag_encode_classical flag_body_length split: option.split)

text \<open>C15: the bytes of an accepted version 2 payment, hybrid or not, are the ones \<open>encode\<close> writes for what
  was read: no two messages decode to the same instruction.\<close>

theorem wire_canonical:
  assumes "codecs_canonical P" and "decode P b = Inr i" and "quote_binding i = ProofDigest d"
  shows "encode P i = Some b"
  by (rule decode_canonical[OF assms])

theorem wire_canonical_witness: "encode flag_prims flag_instruction = Some flag_bytes"
  by (rule wire_canonical[OF flag_canonical flag_decode, of "flag 32 True"])
    (simp add: flag_instruction_def)

text \<open>an instruction is exactly as long as it is. Bytes after an accepted message are refused with
  their number, whatever the primitives do.\<close>

lemma wire_extension_refused:
  assumes "decode P b = Inr i" and "e \<noteq> []"
  shows "decode P (b @ e) = Inl (Trailing (length e))"
  by (rule decode_extended[OF assms])

lemma wire_extension_refused_witness: "decode flag_prims (flag_bytes @ [0, 0]) = Inl (Trailing 2)"
  using wire_extension_refused[OF flag_decode, of "[0, 0]"] by simp

text \<open>A hybrid container cannot hold another one, and its body is bounded. When \<open>decode\<close> accepts an
  instruction with an approval, the message is a version 3 container whose body is at most 1 MiB
  and is itself an accepted message without an approval.\<close>

lemma classical_no_approval: "classical_fields P version r = Inr (i, s) \<Longrightarrow> pq_approval i = None"
  by (auto simp: classical_fields_def read_then_Inr)

lemma hybrid_not_nested:
  assumes "decode P b = Inr i" and "pq_approval i = Some a"
  shows "\<exists>body j rest. b = MAGIC @ u16_be HYBRID_VERSION @ length_prefixed body @ rest
           \<and> length body \<le> 2 ^ 20 \<and> decode P body = Inr j \<and> pq_approval j = None
           \<and> i = j\<lparr>pq_approval := Some a\<rparr>"
  using assms(1)
proof (cases rule: decode_Inr_cases)
  case (classical version r)
  then show ?thesis using assms(2) classical_no_approval by fastforce
next
  case (hybrid body j raw a' v)
  obtain version r where "classical_fields P version r = Inr (j, [])"
    using inner_classical[OF hybrid(5,3,4)] by blast
  then have "pq_approval j = None" by (rule classical_no_approval)
  moreover have "a' = a" using assms(2) hybrid(7) by simp
  ultimately show ?thesis using hybrid by blast
qed

lemma hybrid_not_nested_witness:
  "\<exists>body j rest. flag_bytes = MAGIC @ u16_be HYBRID_VERSION @ length_prefixed body @ rest
     \<and> length body \<le> 2 ^ 20 \<and> decode flag_prims body = Inr j \<and> pq_approval j = None
     \<and> flag_instruction = j\<lparr>pq_approval := Some True\<rparr>"
  by (rule hybrid_not_nested[OF flag_decode]) (simp add: flag_instruction_def)

text \<open>Sizes of threshold evidence. An encoded proof of the right shape has exactly the announced
  length, so \<open>proof_bytes_len\<close> is the number of evidence bytes, and the 32-bit length in front of it
  never wraps.\<close>

lemma threshold_evidence_size:
  assumes "codecs_round_trip P" and "range_shape a" and "range_shape p"
    and "encode_threshold_range P a = Some x" and "encode_threshold_range P p = Some y"
  shows "length x + length y = proof_bytes_len P (Threshold a p)
    \<and> unat (word_of_nat (length x) :: u32) = length x \<and> unat (word_of_nat (length y) :: u32) = length y"
  using threshold_range_length[OF assms(1,2,4)] threshold_range_length[OF assms(1,3,5)]
  by (simp add: proof_bytes_len_def unat_of_nat take_bit_nat_eq_self)

lemma threshold_evidence_size_witness:
  "length flag_range_bytes + length flag_range_bytes = proof_bytes_len flag_prims (Threshold flag_range flag_range)"
proof -
  have "range_shape flag_range" by (simp add: range_shape_def flag_range_def)
  moreover have "encode_threshold_range flag_prims flag_range = Some flag_range_bytes"
    by (simp add: encode_threshold_range_def flag_range_def bit_entry_bytes_def linkage_bytes_def flag_range_bytes_def)
  ultimately show ?thesis using threshold_evidence_size[OF flag_round_trip] by blast
qed

section \<open>Typed instructions\<close>

text \<open>\<open>decode\<close> of \<^verbatim>\<open>typed_wire.rs\<close> reads back a typed instruction whose context is valid for the
  payment and whose payment and authorization are both hybrid or both classical.\<close>

lemma typed_wire_round_trip:
  assumes "codecs_round_trip P" and "instruction_fits P (payment t)" and "container_fits P (payment t)"
    and "context_wf (ti_context t)" and "validate_against (ti_context t) (payment t) = Inr ()"
    and "pq_authorization t = None \<longleftrightarrow> pq_approval (payment t) = None"
    and "encode P (payment t) = Some base" and "length base \<le> MAX_BASE_BYTES"
    and "\<And>a q. pq_authorization t = Some a \<Longrightarrow> pq_encode P a = Some q \<Longrightarrow> length q < 2 ^ 32"
    and "typed_encode P t = Some b"
  shows "typed_decode P b = Inr t"
proof (rule typed_back[OF assms(1,7) _ assms(8,4,5,10,6)])
  show "decode P base = Inr (payment t)"
    by (rule encode_back[OF assms(1,2,7)]) (use assms(3) in \<open>auto simp: container_fits_def\<close>)
qed (rule assms(9))

lemma typed_wire_round_trip_witness: "typed_decode flag_prims flag_typed_bytes = Inr flag_typed"
  by (rule typed_wire_round_trip[OF flag_round_trip _ _ _ _ _ _ _ _ flag_typed_encode, of flag_bytes])
    (auto simp: flag_typed_def flag_fits flag_context_wf flag_context_valid flag_hybrid flag_encode
      flag_bytes_length MAX_BASE_BYTES_def container_fits_def flag_encode_classical flag_body_length
      split: option.split)

text \<open>an accepted typed message that carries a version 2 payment is the one \<open>encode\<close> writes for what
  was read; its context is valid for its payment, and payment and authorization are both hybrid
  or both classical.\<close>

lemma typed_wire_canonical:
  assumes "codecs_canonical P" and "typed_decode P b = Inr t"
    and "quote_binding (payment t) = ProofDigest d"
  shows "typed_encode P t = Some b \<and> validate_against (ti_context t) (payment t) = Inr ()
    \<and> (pq_authorization t = None \<longleftrightarrow> pq_approval (payment t) = None)"
  using typed_canonical[OF assms] by blast

lemma typed_wire_canonical_witness: "typed_encode flag_prims flag_typed = Some flag_typed_bytes"
  using typed_wire_canonical[OF flag_canonical flag_typed_decode, of "flag 32 True"]
  by (simp add: flag_typed_def) (simp add: flag_instruction_def)

text \<open>Contexts alone. The 541 bytes of a context decode to it exactly when it is valid for the
  payment, and nothing else decodes to it.\<close>

lemma context_codec_exact:
  assumes "codecs_round_trip P" and "codecs_canonical P" and "context_wf c"
  shows "(decode_context P b pay = Inr c \<longleftrightarrow> b = encode_context P c \<and> validate_against c pay = Inr ())
    \<and> length (encode_context P c) = 541"
proof
  show "decode_context P b pay = Inr c \<longleftrightarrow> b = encode_context P c \<and> validate_against c pay = Inr ()"
    using context_back[OF assms(1,3)] context_canonical[OF assms(2)] by blast
  have "points_encode P" using assms(1) by (simp add: codecs_round_trip_def)
  from context_length[OF this assms(3)] show "length (encode_context P c) = 541"
    by (simp add: encode_context_def append_context_def)
qed

lemma context_codec_exact_witness:
  "decode_context flag_prims (encode_context flag_prims flag_context) flag_instruction = Inr flag_context
   \<and> length (encode_context flag_prims flag_context) = 541"
  using context_codec_exact[OF flag_round_trip flag_canonical flag_context_wf] flag_context_valid by blast

section \<open>Two ledgers\<close>

text \<open>the joint authorization of a cross-domain instruction is for one body: equal digests come from
  equal bodies, or the two hashed messages collide.\<close>

lemma dvp_digest_binds:
  assumes "dvp_wf d" and "dvp_wf d'" and "dvp_digest P d = Inr h" and "dvp_digest P d' = Inr h"
  shows "d = d' \<or> collides (sha512 P) (dvp_bytes d) (dvp_bytes d')"
  using assms dvp_bytes_inj[OF assms(1,2)] by (auto simp: dvp_digest_def result_simps collides_def)

definition demo_rail :: "u8 \<Rightarrow> dvp_rail" where
  "demo_rail m = \<lparr>network_id = ucast m, chain_id = replicate 32 m, rail_defmi_id = replicate 32 (m + 10),
     local_leg_id = replicate 32 (m + 20), rail_asset_commitment = replicate 32 (m + 30),
     rail_amount_commitment = replicate 32 (m + 40), source_handle_commitment = replicate 32 (m + 50),
     escrow_handle_commitment = replicate 32 (m + 51), destination_handle_commitment = replicate 32 (m + 52),
     reserve_transfer_digest = replicate 32 (m + 53), claim_transfer_digest = replicate 32 (m + 54),
     refund_transfer_digest = replicate 32 (m + 55)\<rparr>"

definition demo_body :: "u8 \<Rightarrow> cross_domain_dvp_body" where
  "demo_body n = \<lparr>dvp_venue_id = replicate 32 1, dvp_direction = TakerBuys,
     dvp_rfq_nullifier = replicate 32 2, dvp_quote_proof_digest = replicate 32 3,
     dvp_market_statement_digest = replicate 32 4, dvp_price_commitment = replicate 32 5,
     relation_proof_digest = replicate 32 6, cash = demo_rail 10, securities = demo_rail 20,
     arm_deadline = 100, claim_deadline = 200, refund_after = 300, release_condition = replicate 32 7,
     private_pair_nonce = replicate 32 n\<rparr>"

lemma demo_rail_valid: "rail_validate (demo_rail 10) = Inr ()" "rail_validate (demo_rail 20) = Inr ()"
  by (simp_all add: rail_validate_def rail_values_def demo_rail_def zero32_def)

lemma demo_body_valid: "n \<noteq> 0 \<Longrightarrow> dvp_validate (demo_body n) = Inr ()"
  by (simp add: dvp_validate_def demo_body_def demo_rail_valid body_values_def zero32_def)
    (simp add: demo_rail_def)

lemma demo_body_wf: "dvp_wf (demo_body n)"
  by (simp add: dvp_wf_def demo_body_def body_values_def rail_wf_def rail_values_def demo_rail_def)

lemma dvp_digest_binds_witness:
  "demo_body 8 = demo_body 9 \<or> collides (sha512 flag_prims) (dvp_bytes (demo_body 8)) (dvp_bytes (demo_body 9))"
  by (rule dvp_digest_binds[OF demo_body_wf demo_body_wf, where h = "replicate 64 0"])
    (simp_all add: dvp_digest_def demo_body_valid)

text \<open>The public values of one instruction do not coincide. The two ledgers' projections have
  different preimages, and so have the event bindings of any two different pairs of
  destination and event; equal values are collisions of SHA-256.\<close>

lemma ledger_values_differ:
  assumes "projection_digest P d Cash = Inr x" and "projection_digest P d Securities = Inr y"
    and "event_binding P d s e = Inr z" and "event_binding P d s' e' = Inr w" and "(s, e) \<noteq> (s', e')"
    and "h = sha512 P (dvp_bytes d)"
  shows "(x \<noteq> y \<or> collides (sha256 P) (projection_bytes h Cash (cash d)) (projection_bytes h Securities (securities d)))
    \<and> (z \<noteq> w \<or> collides (sha256 P)
         (event_bytes h s e (fst (event_rails d s)) (snd (event_rails d s)))
         (event_bytes h s' e' (fst (event_rails d s')) (snd (event_rails d s'))))"
  using assms projection_bytes_side[of h Cash "cash d" h Securities "securities d"]
    event_bytes_inj[of h s e "fst (event_rails d s)" "snd (event_rails d s)" h s' e'
      "fst (event_rails d s')" "snd (event_rails d s')"]
  by (auto simp: projection_digest_Inr event_binding_Inr collides_def)

lemma ledger_values_differ_witness:
  "collides (sha256 flag_prims)
     (projection_bytes (replicate 64 0) Cash (demo_rail 10)) (projection_bytes (replicate 64 0) Securities (demo_rail 20))"
proof -
  let ?v = "replicate 32 0 :: bytes"
  have "projection_digest flag_prims (demo_body 8) side = Inr ?v"
    "event_binding flag_prims (demo_body 8) side e = Inr ?v" for side e
    by (simp_all add: projection_digest_Inr event_binding_Inr demo_body_valid)
  from ledger_values_differ[OF this(1) this(1) this(2) this(2), of Cash Prepared Cash Claimed]
  show ?thesis by (simp add: demo_body_def)
qed

end
