(* ===== verification/Shamir.thy ===== *)
theory Shamir
  imports Complex_Main Zkpi_Prelude
begin

text \<open>
  \<^verbatim>\<open>src/rust/zkfmi-zk/src/shamir.rs\<close>: Shamir sharing over any field, reconstruction, and the
  Berlekamp-Welch decoder \<open>locate\<close> with its Gaussian elimination and polynomial division.
  \<open>Scalar::invert\<close> of zero is zero, as \<open>inverse 0\<close> in a field of HOL. The formatted text of a
  \<open>Beyond\<close> verdict is represented by its arguments. The coefficients drawn at random are arguments.
\<close>

section \<open>Sharing\<close>

definition capacity :: "nat \<Rightarrow> nat \<Rightarrow> nat" where
  "capacity n deg = (if n \<le> deg then 0 else (n - deg - 1) div 2)"

definition points :: "nat \<Rightarrow> 's::field list" where
  "points n = map of_nat [1..<Suc n]"

definition evaluate :: "'s::field list \<Rightarrow> 's \<Rightarrow> 's" where
  "evaluate coefficients x = foldl (\<lambda>acc c. acc * x + c) 0 (rev coefficients)"

definition share_with_coefficients :: "'s::field \<Rightarrow> 's list \<Rightarrow> 's list \<Rightarrow> 's list \<times> 's list" where
  "share_with_coefficients secret drawn pts =
     (let coefficients = secret # drawn in (map (evaluate coefficients) pts, coefficients))"

definition share :: "'s::field \<Rightarrow> 's list \<Rightarrow> 's list \<Rightarrow> 's list" where
  "share secret drawn pts = fst (share_with_coefficients secret drawn pts)"

text \<open>The inner loop of \<open>reconstruct\<close> for the point at position \<open>i\<close>.\<close>

definition lagrange_at_zero :: "'s::field list \<Rightarrow> nat \<Rightarrow> 's \<Rightarrow> 's \<times> 's" where
  "lagrange_at_zero pts i xi =
     foldl (\<lambda>(num, den) (j, xj). if i = j then (num, den) else (num * - xj, den * (xi - xj)))
       (1, 1) (enumerate 0 pts)"

definition reconstruct :: "'s::field list \<Rightarrow> 's list \<Rightarrow> 's" where
  "reconstruct pts shs =
     foldl (\<lambda>tot (i, xi). case lagrange_at_zero pts i xi of (num, den) \<Rightarrow> tot + shs ! i * num * inverse den)
       0 (enumerate 0 pts)"

datatype beyond_reason =
  PointsAndShares nat nat
| TooFewShares nat nat
| TooManyWrong nat nat nat

datatype 's verdict =
  Decoded (secret_of: 's) (culprits_of: "nat list")
| Beyond nat beyond_reason

section \<open>Interpolation\<close>

text \<open>One factor multiplied onto the basis polynomial: \<open>next[k] -= b * xj\<close> and \<open>next[k + 1] += b\<close>.\<close>

definition times_root :: "'s::field list \<Rightarrow> 's \<Rightarrow> 's list" where
  "times_root basis xj =
     foldl (\<lambda>nxt (k, b). let m = nxt[k := nxt ! k - b * xj] in m[Suc k := m ! Suc k + b])
       (replicate (length basis + 1) 0) (enumerate 0 basis)"

definition lagrange_basis :: "'s::field list \<Rightarrow> nat \<Rightarrow> 's \<Rightarrow> 's list \<times> 's" where
  "lagrange_basis pts i xi =
     foldl (\<lambda>(basis, den) (j, xj). if i = j then (basis, den) else (times_root basis xj, den * (xi - xj)))
       ([1], 1) (enumerate 0 pts)"

definition interpolate :: "'s::field list \<Rightarrow> 's list \<Rightarrow> 's list" where
  "interpolate pts vals =
     foldl (\<lambda>result (i, xi).
         case lagrange_basis pts i xi of (basis, den) \<Rightarrow>
           (let scale = vals ! i * inverse den
            in foldl (\<lambda>res (k, b). res[k := res ! k + b * scale]) result (enumerate 0 basis)))
       (replicate (length pts) 0) (enumerate 0 pts)"

section \<open>Gaussian elimination\<close>

record 's system =
  rows_of :: "'s list list"
  rhs_of :: "'s list"
  pivot_of :: "nat option list"
  at_row :: nat

text \<open>The first row from \<open>row\<close> on with an entry in the column.\<close>

definition find_pivot :: "'s::zero list list \<Rightarrow> nat \<Rightarrow> nat \<Rightarrow> nat option" where
  "find_pivot matrix row column = List.find (\<lambda>r. matrix ! r ! column \<noteq> 0) [row..<length matrix]"

definition swap :: "'a list \<Rightarrow> nat \<Rightarrow> nat \<Rightarrow> 'a list" where
  "swap xs i j = xs[i := xs ! j, j := xs ! i]"

text \<open>A change of the cells \<open>column..unknowns\<close> of a row.\<close>

definition from_column :: "nat \<Rightarrow> nat \<Rightarrow> (nat \<Rightarrow> 's \<Rightarrow> 's) \<Rightarrow> 's list \<Rightarrow> 's list" where
  "from_column column unknowns f r =
     map (\<lambda>(k, v). if column \<le> k \<and> k < unknowns then f k v else v) (enumerate 0 r)"

definition pivot_step :: "nat \<Rightarrow> nat \<Rightarrow> nat \<Rightarrow> 's::field system \<Rightarrow> 's system" where
  "pivot_step unknowns column found s =
     (let row = at_row s;
          matrix = swap (rows_of s) row found;
          rhs = swap (rhs_of s) row found;
          inv = inverse (matrix ! row ! column);
          pivot_row = from_column column unknowns (\<lambda>_ v. v * inv) (matrix ! row);
          rhs = rhs[row := rhs ! row * inv];
          matrix = matrix[row := pivot_row];
          cleared = map (\<lambda>(r, matrix_row).
              if r = row \<or> matrix_row ! column = 0 then matrix_row
              else from_column column unknowns (\<lambda>k v. v - pivot_row ! k * matrix_row ! column) matrix_row)
            (enumerate 0 matrix);
          rhs = map (\<lambda>(r, v). if r = row \<or> matrix ! r ! column = 0 then v
                               else v - rhs ! row * matrix ! r ! column) (enumerate 0 rhs)
      in \<lparr>rows_of = cleared, rhs_of = rhs, pivot_of = (pivot_of s)[column := Some row], at_row = Suc row\<rparr>)"

fun eliminate :: "nat \<Rightarrow> nat list \<Rightarrow> 's::field system \<Rightarrow> 's system" where
  "eliminate unknowns [] s = s"
| "eliminate unknowns (column # columns) s =
     (case find_pivot (rows_of s) (at_row s) column of
        None \<Rightarrow> eliminate unknowns columns s
      | Some found \<Rightarrow>
          let t = pivot_step unknowns column found s
          in if at_row t = length (rows_of t) then t else eliminate unknowns columns t)"

definition solve :: "'s::field list list \<Rightarrow> 's list \<Rightarrow> nat \<Rightarrow> 's list option" where
  "solve matrix rhs unknowns =
     (let s = eliminate unknowns [0..<unknowns]
            \<lparr>rows_of = matrix, rhs_of = rhs, pivot_of = replicate unknowns None, at_row = 0\<rparr>
      in if list_ex (\<lambda>r. rhs_of s ! r \<noteq> 0 \<and> list_all (\<lambda>v. v = 0) (rows_of s ! r))
              [at_row s..<length (rows_of s)]
         then None
         else Some (map (\<lambda>p. case p of None \<Rightarrow> 0 | Some r \<Rightarrow> rhs_of s ! r) (pivot_of s)))"

section \<open>Division\<close>

definition subtract_at :: "'s::field list \<Rightarrow> 's \<Rightarrow> nat \<Rightarrow> 's list \<Rightarrow> 's list" where
  "subtract_at denominator factor i remainder =
     foldl (\<lambda>rm (j, dj). rm[i + j := rm ! (i + j) - dj * factor]) remainder (enumerate 0 denominator)"

fun divide_loop :: "'s::field list \<Rightarrow> 's \<Rightarrow> nat \<Rightarrow> 's list \<times> 's list \<Rightarrow> nat list \<Rightarrow> 's list \<times> 's list" where
  "divide_loop denominator lead d (remainder, quot) [] = (remainder, quot)"
| "divide_loop denominator lead d (remainder, quot) (i # is) =
     (let factor = remainder ! (i + d) * lead
      in divide_loop denominator lead d
           (subtract_at denominator factor i remainder, quot[i := factor]) is)"

definition divide :: "'s::field list \<Rightarrow> 's list \<Rightarrow> ('s list \<times> bool) option" where
  "divide numerator denominator =
     (let d = length denominator - 1
      in if length numerator \<le> d then Some ([0], list_all (\<lambda>v. v = 0) numerator)
         else
           let lead = inverse (denominator ! d);
               m = length numerator - d;
               (remainder, quot) = divide_loop denominator lead d (numerator, replicate m 0) (rev [0..<m])
           in Some (quot, list_all (\<lambda>v. v = 0) (take (min d (length remainder)) remainder)))"

section \<open>Decoding\<close>

definition powers :: "'s::field \<Rightarrow> nat \<Rightarrow> 's list" where
  "powers x n = map (\<lambda>k. x ^ k) [0..<n]"

definition welch_row :: "nat \<Rightarrow> nat \<Rightarrow> 's::field \<Rightarrow> 's \<Rightarrow> 's list" where
  "welch_row q_len errors x y = powers x q_len @ map (\<lambda>p. - y * p) (powers x errors)"

definition welch :: "'s::field list \<Rightarrow> 's list \<Rightarrow> nat \<Rightarrow> nat \<Rightarrow> 's verdict option" where
  "welch pts shs deg errors =
     (let n = length pts;
          q_len = deg + errors + 1;
          unknowns = q_len + errors;
          matrix = map (\<lambda>i. welch_row q_len errors (pts ! i) (shs ! i)) [0..<n];
          rhs = map (\<lambda>i. shs ! i * (pts ! i) ^ errors) [0..<n]
      in Option.bind (solve matrix rhs unknowns) (\<lambda>solution.
         let q = take q_len solution;
             e = drop q_len solution @ [1]
         in Option.bind (divide q e) (\<lambda>(p, exact).
            if \<not> exact then None
            else
              let culprits = filter (\<lambda>i. evaluate e (pts ! i) = 0) [0..<n]
              in if length culprits \<noteq> errors then None
                 else if list_ex (\<lambda>i. i \<notin> set culprits \<and> evaluate p (pts ! i) \<noteq> shs ! i) [0..<n] then None
                 else Some (Decoded (case p of [] \<Rightarrow> 0 | c # _ \<Rightarrow> c) culprits))))"

text \<open>\<open>for errors in 1..=capacity\<close>: the first verdict wins.\<close>

fun first_some :: "('a \<Rightarrow> 'b option) \<Rightarrow> 'a list \<Rightarrow> 'b option" where
  "first_some f [] = None"
| "first_some f (x # xs) = (case f x of Some y \<Rightarrow> Some y | None \<Rightarrow> first_some f xs)"

definition locate :: "'s::field list \<Rightarrow> 's list \<Rightarrow> nat \<Rightarrow> 's verdict" where
  "locate pts shs deg =
     (let n = length pts; cap = capacity n deg
      in if length shs \<noteq> n then Beyond cap (PointsAndShares n (length shs))
         else if n < deg + 1 then Beyond cap (TooFewShares n deg)
         else
           let secret = reconstruct (take (deg + 1) pts) (take (deg + 1) shs);
               coefficients = interpolate (take (deg + 1) pts) (take (deg + 1) shs);
               disagreeing = filter (\<lambda>i. evaluate coefficients (pts ! i) \<noteq> shs ! i) [deg + 1..<n]
           in if disagreeing = [] then Decoded secret []
              else (case first_some (welch pts shs deg) [1..<Suc cap] of
                      Some verdict \<Rightarrow> verdict
                    | None \<Rightarrow> Beyond cap (TooManyWrong cap n deg)))"

end
