(* ===== verification/Shamir_Poly.thy ===== *)
theory Shamir_Poly
  imports Shamir
begin

text \<open>
  Polynomials as coefficient lists: a polynomial with as many roots as coefficients is zero, so two
  polynomials that agree often enough are equal; and interpolation, reconstruction and division
  of \<^verbatim>\<open>shamir.rs\<close> mean what they say. Loops that update a cell are followed through \<open>evaluate\<close>.
\<close>

section \<open>Evaluation\<close>

lemma evaluate_Nil [simp]: "evaluate [] x = 0"
  by (simp add: evaluate_def)

lemma evaluate_Cons [simp]: "evaluate (c # cs) x = c + x * evaluate cs x"
  by (simp add: evaluate_def algebra_simps)

lemma evaluate_append: "evaluate (as @ bs) x = evaluate as x + x ^ length as * evaluate bs x"
  by (induction as) (simp_all add: algebra_simps)

lemma evaluate_replicate_zero [simp]: "evaluate (replicate n 0) x = 0"
  by (induction n) simp_all

lemma evaluate_zeros: "list_all (\<lambda>v. v = 0) cs \<Longrightarrow> evaluate cs x = 0"
  by (induction cs) simp_all

lemma evaluate_at_zero: "evaluate cs 0 = (case cs of [] \<Rightarrow> 0 | c # _ \<Rightarrow> c)"
  by (cases cs) simp_all

lemma evaluate_update:
  "k < length cs \<Longrightarrow> evaluate (cs[k := v]) x = evaluate cs x + (v - cs ! k) * x ^ k"
proof (induction cs arbitrary: k)
  case (Cons c cs)
  then show ?case by (cases k) (simp_all add: Cons.IH algebra_simps)
qed simp

lemma evaluate_sum: "evaluate cs x = (\<Sum>k < length cs. cs ! k * x ^ k)"
  by (induction cs) (simp_all add: sum.lessThan_Suc_shift sum_distrib_left algebra_simps del: sum.lessThan_Suc)

section \<open>Roots\<close>

text \<open>Division by a linear factor.\<close>

fun deflate :: "'s::field list \<Rightarrow> 's \<Rightarrow> 's list" where
  "deflate [] a = []"
| "deflate [c] a = []"
| "deflate (c # cs) a = evaluate cs a # deflate cs a"

lemma deflate_length: "length (deflate cs a) = length cs - 1"
  by (induction cs a rule: deflate.induct) simp_all

lemma deflate_evaluate: "evaluate cs x = evaluate cs a + (x - a) * evaluate (deflate cs a) x"
proof (induction cs a rule: deflate.induct)
  case (3 c d cs a)
  have "evaluate (c # d # cs) x = c + x * (evaluate (d # cs) a + (x - a) * evaluate (deflate (d # cs) a) x)"
    unfolding 3[symmetric] by (rule evaluate_Cons)
  also have "\<dots> = (c + a * evaluate (d # cs) a)
      + (x - a) * (evaluate (d # cs) a + x * evaluate (deflate (d # cs) a) x)"
    by (simp only: algebra_simps)
  finally show ?case by (simp only: evaluate_Cons deflate.simps)
qed simp_all

lemma deflate_zero:
  "list_all (\<lambda>v. v = 0) (deflate cs a) \<Longrightarrow> evaluate cs a = 0 \<Longrightarrow> list_all (\<lambda>v. v = 0) cs"
  by (induction cs a rule: deflate.induct) simp_all

lemma too_many_roots:
  assumes "finite S" and "length cs \<le> card S" and "\<And>x. x \<in> S \<Longrightarrow> evaluate cs x = 0"
  shows "list_all (\<lambda>v. v = 0) cs"
  using assms
proof (induction "length cs" arbitrary: cs S)
  case (Suc n)
  then obtain a where a: "a \<in> S" by fastforce
  have "evaluate (deflate cs a) x = 0" if "x \<in> S - {a}" for x
    using deflate_evaluate[of cs x a] Suc.prems(3) a that by simp
  moreover have "length (deflate cs a) \<le> card (S - {a})"
    using Suc.prems(1,2) a by (simp add: deflate_length)
  ultimately have "list_all (\<lambda>v. v = 0) (deflate cs a)"
    using Suc.hyps(1)[of "deflate cs a" "S - {a}"] Suc.hyps(2) Suc.prems(1) by (simp add: deflate_length)
  then show ?case by (rule deflate_zero) (rule Suc.prems(3)[OF a])
qed simp

definition coefficient :: "'s::zero list \<Rightarrow> nat \<Rightarrow> 's" where
  "coefficient cs k = (if k < length cs then cs ! k else 0)"

definition difference :: "'s::field list \<Rightarrow> 's list \<Rightarrow> 's list" where
  "difference p q = map (\<lambda>k. coefficient p k - coefficient q k) [0..<max (length p) (length q)]"

lemma evaluate_coefficient: "length p \<le> n \<Longrightarrow> (\<Sum>k < n. coefficient p k * x ^ k) = evaluate p x"
  unfolding evaluate_sum
  by (rule sum.mono_neutral_cong_right) (auto simp: coefficient_def)

lemma evaluate_difference: "evaluate (difference p q) x = evaluate p x - evaluate q x"
proof -
  let ?n = "max (length p) (length q)"
  have "evaluate (difference p q) x = (\<Sum>k < ?n. (coefficient p k - coefficient q k) * x ^ k)"
    by (simp add: evaluate_sum difference_def)
  also have "\<dots> = (\<Sum>k < ?n. coefficient p k * x ^ k) - (\<Sum>k < ?n. coefficient q k * x ^ k)"
    by (simp add: sum_subtractf algebra_simps)
  finally show ?thesis by (simp add: evaluate_coefficient)
qed

lemma difference_length [simp]: "length (difference p q) = max (length p) (length q)"
  by (simp add: difference_def)

lemma agree_everywhere:
  assumes "finite S" and "length p \<le> card S" and "length q \<le> card S"
    and "\<And>x. x \<in> S \<Longrightarrow> evaluate p x = evaluate q x"
  shows "evaluate p x = evaluate q x"
proof -
  have "list_all (\<lambda>v. v = 0) (difference p q)"
    by (rule too_many_roots[OF assms(1)])
      (use assms(2-) in \<open>simp_all add: evaluate_difference\<close>)
  then have "evaluate (difference p q) x = 0" by (rule evaluate_zeros)
  then show ?thesis by (simp add: evaluate_difference)
qed

fun product :: "'s::field list \<Rightarrow> 's list \<Rightarrow> 's list" where
  "product [] q = []"
| "product (c # p) q = difference (map (\<lambda>v. c * v) q) (0 # map uminus (product p q))"

lemma evaluate_map_mult: "evaluate (map (\<lambda>v. c * v) q) x = c * evaluate q x"
  and evaluate_map_uminus: "evaluate (map uminus q) x = - evaluate q x"
  by (induction q) (simp_all add: algebra_simps)

lemma evaluate_product: "evaluate (product p q) x = evaluate p x * evaluate q x"
  by (induction p) (simp_all add: evaluate_difference evaluate_map_mult evaluate_map_uminus algebra_simps)

lemma product_length: "q \<noteq> [] \<Longrightarrow> length (product p q) \<le> length p + length q - 1"
  by (induction p) (auto simp: difference_def length_greater_0_conv[symmetric] simp del: length_greater_0_conv)

section \<open>Interpolation\<close>

lemma times_root_loop:
  assumes "k + length bs < length nxt"
  shows "length (foldl (\<lambda>nxt (k, b). let m = nxt[k := nxt ! k - b * r] in m[Suc k := m ! Suc k + b]) nxt
           (enumerate k bs)) = length nxt
    \<and> evaluate (foldl (\<lambda>nxt (k, b). let m = nxt[k := nxt ! k - b * r] in m[Suc k := m ! Suc k + b]) nxt
           (enumerate k bs)) x = evaluate nxt x + x ^ k * (x - r) * evaluate bs x"
  using assms
proof (induction bs arbitrary: k nxt)
  case (Cons b bs)
  define m where "m = nxt[k := nxt ! k - b * r]"
  have "evaluate (m[Suc k := m ! Suc k + b]) x = evaluate nxt x - b * r * x ^ k + b * x ^ Suc k"
    using Cons.prems by (simp add: m_def evaluate_update algebra_simps)
  then show ?case
    using Cons.IH[of "Suc k" "m[Suc k := m ! Suc k + b]"] Cons.prems
    by (simp add: m_def Let_def algebra_simps)
qed simp

lemma times_root_length [simp]: "length (times_root bs r) = Suc (length bs)"
  and times_root_evaluate: "evaluate (times_root bs r) x = (x - r) * evaluate bs x"
  using times_root_loop[of 0 bs "replicate (length bs + 1) 0" r x]
  by (simp_all add: times_root_def algebra_simps)

definition factors :: "nat \<Rightarrow> 's::field \<Rightarrow> (nat \<times> 's) list \<Rightarrow> 's list" where
  "factors i x L = map (\<lambda>(j, xj). if i = j then 1 else x - xj) L"

lemma basis_loop:
  assumes "foldl (\<lambda>(basis, den) (j, xj). if i = j then (basis, den) else (times_root basis xj, den * (xi - xj)))
      (basis, den) L = (basis', den')"
  shows "evaluate basis' x = evaluate basis x * prod_list (factors i x L)
    \<and> den' = den * prod_list (factors i xi L)
    \<and> length basis' = length basis + length (filter (\<lambda>(j, xj). i \<noteq> j) L)"
  using assms
proof (induction L arbitrary: basis den)
  case (Cons p L)
  obtain j xj where p: "p = (j, xj)" by fastforce
  show ?case
  proof (cases "i = j")
    case True
    then show ?thesis using Cons by (simp add: p factors_def)
  next
    case False
    then have "foldl (\<lambda>(basis, den) (j, xj). if i = j then (basis, den) else (times_root basis xj, den * (xi - xj)))
        (times_root basis xj, den * (xi - xj)) L = (basis', den')" using Cons.prems by (simp add: p)
    from Cons.IH[OF this] False show ?thesis
      by (simp add: p factors_def times_root_evaluate mult.assoc mult.left_commute)
  qed
qed (simp add: factors_def)

lemma others_count:
  "i < length pts \<Longrightarrow> length (filter (\<lambda>(j, xj). i \<noteq> j) (enumerate 0 pts)) = length pts - 1"
proof -
  assume i: "i < length pts"
  have "filter (\<lambda>p. i \<noteq> fst p) (enumerate 0 pts) = removeAll (i, pts ! i) (enumerate 0 pts)"
    unfolding removeAll_filter_not_eq by (rule filter_cong) (auto simp: in_set_enumerate_eq)
  moreover have "length (removeAll (i, pts ! i) (enumerate 0 pts)) = length (remove1 (i, pts ! i) (enumerate 0 pts))"
    by (simp add: distinct_remove1_removeAll)
  moreover have "(i, pts ! i) \<in> set (enumerate 0 pts)" using i by (simp add: in_set_enumerate_eq)
  ultimately show ?thesis by (simp add: length_remove1 split_def)
qed

lemma lagrange_basis_props:
  assumes "lagrange_basis pts i xi = (basis, den)" and "i < length pts" and "xi = pts ! i" and "distinct pts"
  shows "length basis = length pts" and "den \<noteq> 0"
    and "j < length pts \<Longrightarrow> evaluate basis (pts ! j) = (if j = i then den else 0)"
    and "evaluate basis 0 = fst (lagrange_at_zero pts i xi)" and "den = snd (lagrange_at_zero pts i xi)"
proof -
  note loop = basis_loop[OF assms(1)[unfolded lagrange_basis_def]]
  have den: "den = prod_list (factors i xi (enumerate 0 pts))" using loop[of 0] by simp
  show "length basis = length pts" using loop[of 0] others_count[OF assms(2)] assms(2) by simp
  show "den \<noteq> 0"
    unfolding den
    using assms(2-4) by (auto simp: factors_def prod_list_zero_iff in_set_enumerate_eq nth_eq_iff_index_eq split: if_splits)
  show "evaluate basis (pts ! j) = (if j = i then den else 0)" if "j < length pts"
  proof (cases "j = i")
    case True
    then show ?thesis using loop den assms(3) by simp
  next
    case False
    have "(j, pts ! j) \<in> set (enumerate 0 pts)" using that by (simp add: in_set_enumerate_eq)
    then have "0 \<in> set (factors i (pts ! j) (enumerate 0 pts))"
      using False by (force simp: factors_def)
    then show ?thesis using loop False by (simp add: prod_list_zero_iff)
  qed
  have zero: "foldl (\<lambda>(num, den) (j, xj). if i = j then (num, den) else (num * - xj, den * (xi - xj))) (a, b) L
      = (a * prod_list (factors i 0 L), b * prod_list (factors i xi L))" for a b L
    by (induction L arbitrary: a b) (auto simp: factors_def split: prod.splits)
  show "evaluate basis 0 = fst (lagrange_at_zero pts i xi)" and "den = snd (lagrange_at_zero pts i xi)"
    using loop[of 0] zero[of 1 1] den by (simp_all add: lagrange_at_zero_def)
qed

lemma scaled_loop:
  assumes "k + length bs \<le> length res"
  shows "length (foldl (\<lambda>res (k, b). res[k := res ! k + b * scale]) res (enumerate k bs)) = length res
    \<and> evaluate (foldl (\<lambda>res (k, b). res[k := res ! k + b * scale]) res (enumerate k bs)) x
      = evaluate res x + x ^ k * scale * evaluate bs x"
  using assms
proof (induction bs arbitrary: k res)
  case (Cons b bs)
  then show ?case
    using Cons.IH[of "Suc k" "res[k := res ! k + b * scale]"] by (simp add: evaluate_update algebra_simps)
qed simp

definition lagrange_sum :: "'s::field list \<Rightarrow> 's list \<Rightarrow> (nat \<times> 's) list \<Rightarrow> 's \<Rightarrow> 's" where
  "lagrange_sum pts vals L x =
     sum_list (map (\<lambda>(i, xi). case lagrange_basis pts i xi of (basis, den) \<Rightarrow>
       vals ! i * inverse den * evaluate basis x) L)"

lemma interpolate_loop:
  assumes "\<And>i xi. (i, xi) \<in> set L \<Longrightarrow> length (fst (lagrange_basis pts i xi)) \<le> length res"
  shows "length (foldl (\<lambda>result (i, xi). case lagrange_basis pts i xi of (basis, den) \<Rightarrow>
      (let scale = vals ! i * inverse den
       in foldl (\<lambda>res (k, b). res[k := res ! k + b * scale]) result (enumerate 0 basis))) res L) = length res
    \<and> evaluate (foldl (\<lambda>result (i, xi). case lagrange_basis pts i xi of (basis, den) \<Rightarrow>
      (let scale = vals ! i * inverse den
       in foldl (\<lambda>res (k, b). res[k := res ! k + b * scale]) result (enumerate 0 basis))) res L) x
      = evaluate res x + lagrange_sum pts vals L x"
  using assms
proof (induction L arbitrary: res)
  case (Cons p L)
  obtain i xi basis den where p: "p = (i, xi)" "lagrange_basis pts i xi = (basis, den)" by fastforce
  let ?r = "foldl (\<lambda>res (k, b). res[k := res ! k + b * (vals ! i * inverse den)]) res (enumerate 0 basis)"
  have "length basis \<le> length res" using Cons.prems[of i xi] p by simp
  then have r: "length ?r = length res" "evaluate ?r x = evaluate res x + vals ! i * inverse den * evaluate basis x"
    using scaled_loop[of 0 basis res "vals ! i * inverse den" x] by simp_all
  show ?case
    using Cons.IH[of ?r] Cons.prems r by (simp add: p lagrange_sum_def Let_def)
qed (simp add: lagrange_sum_def)

lemma lagrange_basis_at:
  assumes "distinct pts" and "i < length pts"
  obtains basis den where "lagrange_basis pts i (pts ! i) = (basis, den)" and "length basis = length pts"
    and "den \<noteq> 0" and "\<And>j. j < length pts \<Longrightarrow> evaluate basis (pts ! j) = (if j = i then den else 0)"
    and "lagrange_at_zero pts i (pts ! i) = (evaluate basis 0, den)"
proof -
  obtain basis den where b: "lagrange_basis pts i (pts ! i) = (basis, den)" by fastforce
  note props = lagrange_basis_props[OF b assms(2) refl assms(1)]
  have "lagrange_at_zero pts i (pts ! i) = (evaluate basis 0, den)" using props(4,5) by (simp add: prod_eq_iff)
  then show thesis using that[OF b props(1,2)] props(3) by blast
qed

lemma sum_list_enumerate: "sum_list (map f (enumerate 0 xs)) = (\<Sum>i < length xs. f (i, xs ! i))"
  by (simp add: sum_list_sum_nth enumerate_eq_zip atLeast0LessThan)

text \<open>\<open>interpolate\<close> returns the coefficients of a polynomial through the given points.\<close>

lemma interpolate_length: "distinct pts \<Longrightarrow> length (interpolate pts vals) = length pts"
  and interpolate_sum: "distinct pts \<Longrightarrow> evaluate (interpolate pts vals) x = lagrange_sum pts vals (enumerate 0 pts) x"
proof -
  assume d: "distinct pts"
  have basis_short: "length (fst (lagrange_basis pts i xi)) \<le> length (replicate (length pts) (0 :: 'a))"
    if "(i, xi) \<in> set (enumerate 0 pts)" for i xi
  proof -
    have i: "i < length pts" "xi = pts ! i" using that by (auto simp: in_set_enumerate_eq)
    obtain basis den where "lagrange_basis pts i (pts ! i) = (basis, den)" "length basis = length pts"
      using lagrange_basis_at[OF d i(1)] by metis
    then show ?thesis by (simp add: i(2))
  qed
  from interpolate_loop[where L = "enumerate 0 pts" and pts = pts and res = "replicate (length pts) 0"
      and vals = vals and x = x] basis_short
  show "length (interpolate pts vals) = length pts"
    and "evaluate (interpolate pts vals) x = lagrange_sum pts vals (enumerate 0 pts) x"
    by (simp_all add: interpolate_def)
qed

lemma interpolate_through:
  assumes "distinct pts" and "j < length pts"
  shows "evaluate (interpolate pts vals) (pts ! j) = vals ! j"
proof -
  have "(case lagrange_basis pts i (pts ! i) of (basis, den) \<Rightarrow> vals ! i * inverse den * evaluate basis (pts ! j))
      = (if i = j then vals ! j else 0)" if i: "i < length pts" for i
  proof -
    obtain basis den where "lagrange_basis pts i (pts ! i) = (basis, den)" "den \<noteq> 0"
      "evaluate basis (pts ! j) = (if j = i then den else 0)"
      using lagrange_basis_at[OF assms(1) i] assms(2) by metis
    then show ?thesis by simp
  qed
  then have "evaluate (interpolate pts vals) (pts ! j) = (\<Sum>i < length pts. if i = j then vals ! j else 0)"
    by (simp add: interpolate_sum[OF assms(1)] lagrange_sum_def sum_list_enumerate)
  then show ?thesis using assms(2) by simp
qed

lemma reconstruct_sum:
  "reconstruct pts shs = (\<Sum>i < length pts. case lagrange_at_zero pts i (pts ! i) of
     (num, den) \<Rightarrow> shs ! i * num * inverse den)"
proof -
  have "foldl (\<lambda>tot (i, xi). case lagrange_at_zero pts i xi of (num, den) \<Rightarrow> tot + shs ! i * num * inverse den) a L
      = a + sum_list (map (\<lambda>(i, xi). case lagrange_at_zero pts i xi of (num, den) \<Rightarrow> shs ! i * num * inverse den) L)"
    for a L
    by (induction L arbitrary: a) (auto simp: add.assoc split: prod.splits)
  then show ?thesis by (simp add: reconstruct_def sum_list_enumerate)
qed

lemma reconstruct_interpolate:
  assumes "distinct pts"
  shows "reconstruct pts shs = evaluate (interpolate pts shs) 0"
proof -
  have "(case lagrange_at_zero pts i (pts ! i) of (num, den) \<Rightarrow> shs ! i * num * inverse den)
      = (case lagrange_basis pts i (pts ! i) of (basis, den) \<Rightarrow> shs ! i * inverse den * evaluate basis 0)"
    if i: "i < length pts" for i
  proof -
    obtain basis den where "lagrange_basis pts i (pts ! i) = (basis, den)"
      "lagrange_at_zero pts i (pts ! i) = (evaluate basis 0, den)"
      using lagrange_basis_at[OF assms i] by metis
    then show ?thesis by (simp add: algebra_simps)
  qed
  then show ?thesis
    by (simp add: reconstruct_sum interpolate_sum[OF assms] lagrange_sum_def sum_list_enumerate)
qed

section \<open>Division\<close>

lemma subtract_loop:
  assumes "i + k + length ds \<le> length rm"
  shows "length (foldl (\<lambda>rm (j, dj). rm[i + j := rm ! (i + j) - dj * factor]) rm (enumerate k ds)) = length rm
    \<and> evaluate (foldl (\<lambda>rm (j, dj). rm[i + j := rm ! (i + j) - dj * factor]) rm (enumerate k ds)) x
      = evaluate rm x - factor * x ^ (i + k) * evaluate ds x
    \<and> (\<forall>m. m < i + k \<or> i + k + length ds \<le> m \<longrightarrow>
        foldl (\<lambda>rm (j, dj). rm[i + j := rm ! (i + j) - dj * factor]) rm (enumerate k ds) ! m = rm ! m)
    \<and> (ds \<noteq> [] \<longrightarrow> foldl (\<lambda>rm (j, dj). rm[i + j := rm ! (i + j) - dj * factor]) rm (enumerate k ds)
          ! (i + k + length ds - 1) = rm ! (i + k + length ds - 1) - last ds * factor)"
  using assms
proof (induction ds arbitrary: k rm)
  case (Cons d ds)
  let ?rm = "rm[i + k := rm ! (i + k) - d * factor]"
  show ?case
    using Cons.IH[of "Suc k" ?rm] Cons.prems
    by (cases "ds = []") (simp_all add: evaluate_update algebra_simps)
qed simp

lemma subtract_at_props:
  assumes "i + length ds \<le> length rm" and "ds \<noteq> []"
  shows "length (subtract_at ds factor i rm) = length rm"
    and "evaluate (subtract_at ds factor i rm) x = evaluate rm x - factor * x ^ i * evaluate ds x"
    and "i + length ds \<le> m \<Longrightarrow> subtract_at ds factor i rm ! m = rm ! m"
    and "subtract_at ds factor i rm ! (i + length ds - 1) = rm ! (i + length ds - 1) - last ds * factor"
  using subtract_loop[of i 0 ds rm factor x] assms by (simp_all add: subtract_at_def)

lemma divide_loop_props:
  assumes "divide_loop den lead d (rm, qt) (rev [0..<t]) = (rm', qt')"
    and "length den = Suc d" and "lead = inverse (last den)" and "last den \<noteq> 0"
    and "t \<le> m" and "length rm = m + d" and "length qt = m"
    and "\<And>k. t + d \<le> k \<Longrightarrow> k < m + d \<Longrightarrow> rm ! k = 0" and "\<And>k. k < t \<Longrightarrow> qt ! k = 0"
  shows "length rm' = m + d \<and> length qt' = m \<and> (\<forall>k. d \<le> k \<longrightarrow> k < m + d \<longrightarrow> rm' ! k = 0)
    \<and> evaluate qt' x * evaluate den x + evaluate rm' x = evaluate qt x * evaluate den x + evaluate rm x"
  using assms
proof (induction t arbitrary: rm qt)
  case (Suc t)
  let ?f = "rm ! (t + d) * lead"
  let ?rm = "subtract_at den ?f t rm"
  have ne: "den \<noteq> []" and len: "t + length den \<le> length rm" using Suc.prems(2,5,6) by auto
  note sub = subtract_at_props[OF len ne]
  have "divide_loop den lead d (?rm, qt[t := ?f]) (rev [0..<t]) = (rm', qt')" using Suc.prems(1) by (simp add: Let_def)
  moreover have "?rm ! k = 0" if "t + d \<le> k" "k < m + d" for k
  proof (cases "k = t + d")
    case True
    then show ?thesis using sub(4)[of ?f] Suc.prems(2-4) by simp
  next
    case False
    then show ?thesis using sub(3)[of k ?f] Suc.prems(2,8) that by simp
  qed
  ultimately have "length rm' = m + d \<and> length qt' = m \<and> (\<forall>k. d \<le> k \<longrightarrow> k < m + d \<longrightarrow> rm' ! k = 0)
    \<and> evaluate qt' x * evaluate den x + evaluate rm' x
      = evaluate (qt[t := ?f]) x * evaluate den x + evaluate ?rm x"
    using Suc.prems(2-7,9) by (intro Suc.IH) (simp_all add: sub(1))
  moreover have "evaluate (qt[t := ?f]) x * evaluate den x + evaluate ?rm x
      = evaluate qt x * evaluate den x + evaluate rm x"
    using Suc.prems(5,7,9) by (simp add: sub(2) evaluate_update algebra_simps)
  ultimately show ?case by simp
qed simp

text \<open>Quotient and remainder.\<close>

lemma divide_props:
  assumes "length num = m + d" and "0 < m" and "length den = Suc d" and "last den \<noteq> 0"
  obtains p rest where "divide num den = Some (p, list_all (\<lambda>v. v = 0) rest)" and "length p = m"
    and "length rest = d" and "\<And>x. evaluate num x = evaluate p x * evaluate den x + evaluate rest x"
proof -
  have lead: "den ! d = last den" using assms(3) by (cases den rule: rev_cases) (auto simp: nth_append)
  obtain rm qt where loop: "divide_loop den (inverse (last den)) d (num, replicate m 0) (rev [0..<m]) = (rm, qt)"
    by fastforce
  have props: "length rm = m + d" "length qt = m" "\<forall>k. d \<le> k \<longrightarrow> k < m + d \<longrightarrow> rm ! k = 0"
    "evaluate num x = evaluate qt x * evaluate den x + evaluate rm x" for x
    using divide_loop_props[OF loop assms(3) refl assms(4) order.refl assms(1), of x] by simp_all
  have "list_all (\<lambda>v. v = 0) (drop d rm)" using props(1,3) by (simp add: list_all_length)
  then have "evaluate (drop d rm) x = 0" for x by (rule evaluate_zeros)
  then have "evaluate rm x = evaluate (take d rm) x" for x
    using evaluate_append[of "take d rm" "drop d rm" x] by simp
  then have "evaluate num x = evaluate qt x * evaluate den x + evaluate (take d rm) x" for x using props(4) by simp
  moreover have "divide num den = Some (qt, list_all (\<lambda>v. v = 0) (take d rm))"
    using assms(1-3) props(1) loop by (simp add: divide_def Let_def lead)
  ultimately show thesis using that[of qt "take d rm"] props(1,2) by simp
qed

end
