(* ===== verification/Shamir_Linear.thy ===== *)
theory Shamir_Linear
  imports Shamir
begin

text \<open>
  \<open>solve\<close> of \<^verbatim>\<open>shamir.rs\<close> decides linear systems: it returns a solution when there is one, and nothing
  otherwise. The invariant of the elimination says that the solutions are those of the given
  system, that handled columns are clear below the current row, and that pivot columns are unit vectors.
\<close>

section \<open>Systems\<close>

definition dot :: "nat \<Rightarrow> 's::field list \<Rightarrow> 's list \<Rightarrow> 's" where
  "dot u r x = (\<Sum>k < u. r ! k * x ! k)"

definition satisfies :: "nat \<Rightarrow> 's::field list list \<Rightarrow> 's list \<Rightarrow> 's list \<Rightarrow> bool" where
  "satisfies u matrix rhs x \<longleftrightarrow> (\<forall>r < length matrix. dot u (matrix ! r) x = rhs ! r)"

definition shaped :: "nat \<Rightarrow> nat \<Rightarrow> 's::field system \<Rightarrow> bool" where
  "shaped n u s \<longleftrightarrow> length (rows_of s) = n \<and> (\<forall>r < n. length (rows_of s ! r) = u) \<and> length (rhs_of s) = n
     \<and> length (pivot_of s) = u \<and> at_row s \<le> n"

definition clear_below :: "nat \<Rightarrow> 's::field system \<Rightarrow> bool" where
  "clear_below column s \<longleftrightarrow>
     (\<forall>r c. at_row s \<le> r \<longrightarrow> r < length (rows_of s) \<longrightarrow> c < column \<longrightarrow> rows_of s ! r ! c = 0)"

definition unit_pivots :: "nat \<Rightarrow> 's::field system \<Rightarrow> bool" where
  "unit_pivots column s \<longleftrightarrow>
     (\<forall>c < length (pivot_of s). \<forall>r. pivot_of s ! c = Some r \<longrightarrow>
        c < column \<and> r < at_row s
        \<and> (\<forall>r' < length (rows_of s). rows_of s ! r' ! c = (if r' = r then 1 else 0)))"

definition all_pivoted :: "'s::field system \<Rightarrow> bool" where
  "all_pivoted s \<longleftrightarrow> (\<forall>r < at_row s. \<exists>!c. c < length (pivot_of s) \<and> pivot_of s ! c = Some r)"

definition echelon :: "nat \<Rightarrow> nat \<Rightarrow> nat \<Rightarrow> 's::field system \<Rightarrow> bool" where
  "echelon n u column s \<longleftrightarrow> shaped n u s \<and> clear_below column s \<and> unit_pivots column s \<and> all_pivoted s"

section \<open>One pivot\<close>

lemma find_pivot_Some:
  assumes "find_pivot matrix row column = Some f"
  shows "row \<le> f" and "f < length matrix" and "matrix ! f ! column \<noteq> 0"
  using assms by (auto simp: find_pivot_def find_Some_iff)

lemma find_pivot_None:
  assumes "find_pivot matrix row column = None" and "row \<le> r" and "r < length matrix"
  shows "matrix ! r ! column = 0"
  using assms by (auto simp: find_pivot_def find_None_iff)

lemma swap_length [simp]: "length (swap xs i j) = length xs"
  by (simp add: swap_def)

lemma swap_nth:
  "i < length xs \<Longrightarrow> j < length xs \<Longrightarrow> r < length xs
    \<Longrightarrow> swap xs i j ! r = xs ! (if r = i then j else if r = j then i else r)"
  by (auto simp: swap_def nth_list_update)

lemma from_column_length [simp]: "length (from_column column u f r) = length r"
  by (simp add: from_column_def)

lemma from_column_nth:
  "k < length r \<Longrightarrow> from_column column u f r ! k = (if column \<le> k \<and> k < u then f k (r ! k) else r ! k)"
  by (simp add: from_column_def nth_enumerate_eq)

text \<open>The index a row had before the exchange.\<close>

definition origin :: "nat \<Rightarrow> nat \<Rightarrow> nat \<Rightarrow> nat" where
  "origin row found r = (if r = row then found else if r = found then row else r)"

lemma origin_involution: "origin row found (origin row found r) = r"
  by (auto simp: origin_def)

text \<open>What a pivot step makes of every row: the pivot row is scaled, and a multiple of it is taken from
  every other row. Cells before the column need no change, being zero in the pivot row.\<close>

definition pivot_ok :: "nat \<Rightarrow> nat \<Rightarrow> nat \<Rightarrow> nat \<Rightarrow> 's::field system \<Rightarrow> bool" where
  "pivot_ok n u column found s \<longleftrightarrow>
     shaped n u s \<and> clear_below column s \<and> column < u \<and> at_row s \<le> found \<and> found < n
     \<and> rows_of s ! found ! column \<noteq> 0"

definition old_row :: "nat \<Rightarrow> 's::field system \<Rightarrow> nat \<Rightarrow> 's list" where
  "old_row found s r = rows_of s ! origin (at_row s) found r"

definition pivot_inverse :: "nat \<Rightarrow> nat \<Rightarrow> 's::field system \<Rightarrow> 's" where
  "pivot_inverse column found s = inverse (rows_of s ! found ! column)"

definition multiple :: "nat \<Rightarrow> nat \<Rightarrow> 's::field system \<Rightarrow> nat \<Rightarrow> 's" where
  "multiple column found s r = (if r = at_row s then 0 else old_row found s r ! column)"

lemma pivot_okD:
  assumes "pivot_ok n u column found s"
  shows "shaped n u s" and "clear_below column s" and "column < u" and "at_row s < n" and "found < n"
    and "rows_of s ! found ! column \<noteq> 0" and "r < n \<Longrightarrow> origin (at_row s) found r < n"
    and "k < column \<Longrightarrow> rows_of s ! found ! k = 0"
  using assms by (auto simp: pivot_ok_def origin_def clear_below_def shaped_def)

lemma swapped:
  assumes "pivot_ok n u column found s" and "r < n"
  shows "swap (rows_of s) (at_row s) found ! r = old_row found s r"
    and "swap (rhs_of s) (at_row s) found ! r = rhs_of s ! origin (at_row s) found r"
    and "length (old_row found s r) = u"
  using pivot_okD[OF assms(1)] assms(2) by (simp_all add: swap_nth shaped_def old_row_def origin_def)

lemma old_pivot [simp]: "old_row found s (at_row s) = rows_of s ! found"
  by (simp add: old_row_def origin_def)

lemma pivot_step_shape:
  assumes "pivot_ok n u column found s"
  shows "shaped n u (pivot_step u column found s)"
  using pivot_okD(1,4,5)[OF assms] swapped[OF assms]
  by (auto simp: pivot_step_def shaped_def Let_def nth_enumerate_eq nth_list_update)

lemma pivot_step_cell:
  assumes ok: "pivot_ok n u column found s" and "r < n" and "k < u"
  shows "rows_of (pivot_step u column found s) ! r ! k
    = (if r = at_row s then rows_of s ! found ! k * pivot_inverse column found s
       else old_row found s r ! k
         - multiple column found s r * (rows_of s ! found ! k * pivot_inverse column found s))"
  using assms(2,3) pivot_okD[OF ok] swapped(3)[OF ok assms(2)] swapped(3)[OF ok pivot_okD(4)[OF ok]]
  by (auto simp: pivot_step_def Let_def shaped_def nth_enumerate_eq nth_list_update swapped(1)[OF ok]
      from_column_nth pivot_inverse_def multiple_def)

lemma pivot_step_rhs:
  assumes ok: "pivot_ok n u column found s" and "r < n"
  shows "rhs_of (pivot_step u column found s) ! r
    = (if r = at_row s then rhs_of s ! found * pivot_inverse column found s
       else rhs_of s ! origin (at_row s) found r
         - multiple column found s r * (rhs_of s ! found * pivot_inverse column found s))"
  using assms(2) pivot_okD[OF ok]
  by (auto simp: pivot_step_def Let_def shaped_def nth_enumerate_eq nth_list_update swapped(1,2)[OF ok]
      from_column_nth pivot_inverse_def multiple_def origin_def)

section \<open>The step keeps the solutions\<close>

lemma pivot_step_dot:
  assumes ok: "pivot_ok n u column found s" and "r < n"
  shows "dot u (rows_of (pivot_step u column found s) ! r) x
    = (if r = at_row s then dot u (rows_of s ! found) x * pivot_inverse column found s
       else dot u (old_row found s r) x
         - multiple column found s r * (dot u (rows_of s ! found) x * pivot_inverse column found s))"
  using pivot_step_cell[OF ok assms(2)]
  by (simp add: dot_def sum_distrib_right sum_distrib_left sum_subtractf algebra_simps)

lemma satisfies_pivot_step:
  assumes ok: "pivot_ok n u column found s"
  shows "satisfies u (rows_of (pivot_step u column found s)) (rhs_of (pivot_step u column found s)) x
    \<longleftrightarrow> satisfies u (rows_of s) (rhs_of s) x"
proof -
  note D = pivot_okD[OF ok]
  have p: "pivot_inverse column found s \<noteq> 0" using D(6) by (simp add: pivot_inverse_def)
  have len: "length (rows_of s) = n" "length (rows_of (pivot_step u column found s)) = n"
    using D(1) pivot_step_shape[OF ok] by (simp_all add: shaped_def)
  have row: "dot u (rows_of (pivot_step u column found s) ! r) x = rhs_of (pivot_step u column found s) ! r
      \<longleftrightarrow> dot u (old_row found s r) x = rhs_of s ! origin (at_row s) found r"
    if "r < n" and "dot u (rows_of s ! found) x = rhs_of s ! found" for r
    using that p by (simp add: pivot_step_dot[OF ok] pivot_step_rhs[OF ok] origin_def)
  have pivot: "dot u (rows_of (pivot_step u column found s) ! at_row s) x = rhs_of (pivot_step u column found s) ! at_row s
      \<longleftrightarrow> dot u (rows_of s ! found) x = rhs_of s ! found"
    using p D(4) by (simp add: pivot_step_dot[OF ok] pivot_step_rhs[OF ok])
  have all: "(\<forall>r < n. dot u (old_row found s r) x = rhs_of s ! origin (at_row s) found r)
      \<longleftrightarrow> (\<forall>r < n. dot u (rows_of s ! r) x = rhs_of s ! r)"
    using D(7) origin_involution[of "at_row s" found] by (metis old_row_def)
  show ?thesis
    unfolding satisfies_def len using pivot row all D(4,5) by metis
qed

section \<open>The step keeps the form\<close>

lemma pivot_step_column:
  assumes ok: "pivot_ok n u column found s" and "r < n"
  shows "rows_of (pivot_step u column found s) ! r ! column = (if r = at_row s then 1 else 0)"
  using pivot_okD[OF ok] assms(2)
  by (simp add: pivot_step_cell[OF ok] pivot_inverse_def multiple_def)

lemma pivot_step_before:
  assumes ok: "pivot_ok n u column found s" and "r < n" and "k < column"
  shows "rows_of (pivot_step u column found s) ! r ! k = old_row found s r ! k"
  using pivot_okD[OF ok] assms(2,3) by (simp add: pivot_step_cell[OF ok])

lemma pivot_step_fields:
  "at_row (pivot_step u column found s) = Suc (at_row s)"
  "pivot_of (pivot_step u column found s) = (pivot_of s)[column := Some (at_row s)]"
  by (simp_all add: pivot_step_def Let_def)

lemma pivot_step_echelon:
  assumes ok: "pivot_ok n u column found s" and ech: "echelon n u column s"
  shows "echelon n u (Suc column) (pivot_step u column found s)"
proof -
  note D = pivot_okD[OF ok]
  let ?t = "pivot_step u column found s"
  have len: "length (rows_of ?t) = n" "length (pivot_of s) = u" "length (rows_of s) = n"
    using pivot_step_shape[OF ok] D(1) by (simp_all add: shaped_def)
  have "rows_of ?t ! r ! c = 0" if "Suc (at_row s) \<le> r" "r < n" "c < Suc column" for r c
  proof (cases "c = column")
    case True
    then show ?thesis using pivot_step_column[OF ok that(2)] that(1) by simp
  next
    case False
    have "at_row s \<le> origin (at_row s) found r" "origin (at_row s) found r < n"
      using that ok D(7) by (auto simp: origin_def pivot_ok_def)
    then have "old_row found s r ! c = 0"
      using D(2) False that(3) len(3) by (simp add: clear_below_def old_row_def)
    then show ?thesis using pivot_step_before[OF ok that(2)] False that(3) by simp
  qed
  then have "clear_below (Suc column) ?t" by (auto simp: clear_below_def pivot_step_fields len)
  moreover have "unit_pivots (Suc column) ?t"
    unfolding unit_pivots_def
  proof (intro allI impI)
    fix c r assume c: "c < length (pivot_of ?t)" "pivot_of ?t ! c = Some r"
    show "c < Suc column \<and> r < at_row ?t \<and>
        (\<forall>r' < length (rows_of ?t). rows_of ?t ! r' ! c = (if r' = r then 1 else 0))"
    proof (cases "c = column")
      case True
      then have "r = at_row s" using c len D(3) by (simp add: pivot_step_fields)
      then show ?thesis using True pivot_step_column[OF ok] by (simp add: pivot_step_fields len)
    next
      case False
      then have old: "c < column" "r < at_row s" "\<forall>r' < n. rows_of s ! r' ! c = (if r' = r then 1 else 0)"
        using c ech len by (auto simp: pivot_step_fields echelon_def unit_pivots_def)
      have "rows_of ?t ! r' ! c = (if r' = r then 1 else 0)" if "r' < n" for r'
        using pivot_step_before[OF ok that old(1)] old(2,3) D(4,7) that ok
        by (auto simp: old_row_def origin_def pivot_ok_def)
      then show ?thesis using old by (simp add: pivot_step_fields len)
    qed
  qed
  moreover have "all_pivoted ?t"
  proof -
    let ?piv = "(pivot_of s)[column := Some (at_row s)]"
    have bound: "r < at_row s" if "c < u" "pivot_of s ! c = Some r" for c r
      using that ech len by (auto simp: echelon_def unit_pivots_def)
    have none: "\<not> pivot_of s ! column = Some r" for r
      using ech len D(3) by (auto simp: echelon_def unit_pivots_def)
    have "\<exists>!c. c < u \<and> ?piv ! c = Some r" if "r < Suc (at_row s)" for r
    proof (cases "r = at_row s")
      case True
      show ?thesis
      proof (rule ex1I[of _ column])
        show "column < u \<and> ?piv ! column = Some r" using D(3) len(2) True by simp
        fix c assume c: "c < u \<and> ?piv ! c = Some r"
        show "c = column"
        proof (rule ccontr)
          assume "c \<noteq> column"
          then have "pivot_of s ! c = Some (at_row s)" using c True by simp
          from bound[OF conjunct1[OF c] this] show False by simp
        qed
      qed
    next
      case False
      have "\<exists>!c. c < u \<and> pivot_of s ! c = Some r"
        using ech len(2) that False by (simp add: echelon_def all_pivoted_def)
      moreover have "?piv ! c = Some r \<longleftrightarrow> pivot_of s ! c = Some r" if "c < u" for c
        using that False none len(2) by (cases "c = column") simp_all
      ultimately show ?thesis by metis
    qed
    then show ?thesis by (simp add: all_pivoted_def pivot_step_fields len)
  qed
  ultimately show ?thesis using pivot_step_shape[OF ok] by (simp add: echelon_def)
qed

lemma skip_column:
  assumes "echelon n u column s" and "find_pivot (rows_of s) (at_row s) column = None"
  shows "echelon n u (Suc column) s"
  using assms find_pivot_None[OF assms(2)]
  by (auto simp: echelon_def clear_below_def unit_pivots_def less_Suc_eq)

section \<open>Elimination\<close>

lemma eliminate_props:
  assumes "echelon n u column s" and "column \<le> u"
  shows "\<exists>column'. echelon n u column' (eliminate u [column..<u] s)
      \<and> (column' = u \<or> at_row (eliminate u [column..<u] s) = n)
    \<and> (\<forall>x. satisfies u (rows_of (eliminate u [column..<u] s)) (rhs_of (eliminate u [column..<u] s)) x
         \<longleftrightarrow> satisfies u (rows_of s) (rhs_of s) x)"
  using assms
proof (induction "u - column" arbitrary: column s)
  case 0
  then show ?case by auto
next
  case (Suc m)
  then have col: "column < u" and list: "[column..<u] = column # [Suc column..<u]"
    by (auto simp: upt_conv_Cons)
  show ?case
  proof (cases "find_pivot (rows_of s) (at_row s) column")
    case None
    have "echelon n u (Suc column) s" by (rule skip_column[OF Suc.prems(1) None])
    then show ?thesis
      using Suc.hyps(1)[of "Suc column" s] Suc.hyps(2) col None list by simp
  next
    case (Some f)
    let ?t = "pivot_step u column f s"
    have ok: "pivot_ok n u column f s"
      using Suc.prems(1) col find_pivot_Some[OF Some] by (simp add: pivot_ok_def echelon_def shaped_def)
    have ech: "echelon n u (Suc column) ?t" by (rule pivot_step_echelon[OF ok Suc.prems(1)])
    have len: "length (rows_of ?t) = n" "at_row ?t \<le> n" using ech by (simp_all add: echelon_def shaped_def)
    show ?thesis
    proof (cases "at_row ?t = n")
      case True
      then have "eliminate u [column..<u] s = ?t" by (simp add: list Some Let_def len)
      then show ?thesis using ech True satisfies_pivot_step[OF ok] by auto
    next
      case False
      then have "eliminate u [column..<u] s = eliminate u [Suc column..<u] ?t" by (simp add: list Some Let_def len)
      then show ?thesis
        using Suc.hyps(1)[of "Suc column" ?t] Suc.hyps(2) ech col satisfies_pivot_step[OF ok] by simp
    qed
  qed
qed

section \<open>Solutions\<close>

definition read_off :: "'s::field system \<Rightarrow> 's list" where
  "read_off s = map (\<lambda>p. case p of None \<Rightarrow> 0 | Some r \<Rightarrow> rhs_of s ! r) (pivot_of s)"

lemma read_off_pivot_row:
  assumes ech: "echelon n u column s" and "r < at_row s"
  shows "dot u (rows_of s ! r) (read_off s) = rhs_of s ! r"
proof -
  have len: "length (pivot_of s) = u" "length (rows_of s) = n" "at_row s \<le> n"
    using ech by (simp_all add: echelon_def shaped_def)
  obtain c where c: "c < u" "pivot_of s ! c = Some r"
    and unique: "\<And>c'. c' < u \<Longrightarrow> pivot_of s ! c' = Some r \<Longrightarrow> c' = c"
    using ech assms(2) len unfolding echelon_def all_pivoted_def by metis
  have unit: "rows_of s ! r ! k = (if r = r' then 1 else 0)" if "k < u" "pivot_of s ! k = Some r'" for k r'
    using ech that len assms(2) by (auto simp: echelon_def unit_pivots_def)
  have "rows_of s ! r ! k * read_off s ! k = (if k = c then rhs_of s ! r else 0)" if "k < u" for k
  proof (cases "pivot_of s ! k")
    case None
    then show ?thesis using that c len by (auto simp: read_off_def)
  next
    case (Some r')
    then show ?thesis using that unit[OF that Some] unique[OF that] c len by (auto simp: read_off_def)
  qed
  then have "dot u (rows_of s ! r) (read_off s) = (\<Sum>k < u. if k = c then rhs_of s ! r else 0)"
    by (simp add: dot_def)
  then show ?thesis using c(1) by simp
qed

lemma solve_decides:
  assumes "length rhs = length matrix" and "\<And>r. r < length matrix \<Longrightarrow> length (matrix ! r) = u"
  shows "solve matrix rhs u = Some x \<Longrightarrow> length x = u \<and> satisfies u matrix rhs x"
    and "solve matrix rhs u = None \<Longrightarrow> \<not> satisfies u matrix rhs y"
proof -
  define init where "init = \<lparr>rows_of = matrix, rhs_of = rhs, pivot_of = replicate u None, at_row = 0\<rparr>"
  define fin where "fin = eliminate u [0..<u] init"
  have solve: "solve matrix rhs u =
      (if list_ex (\<lambda>r. rhs_of fin ! r \<noteq> 0 \<and> list_all (\<lambda>v. v = 0) (rows_of fin ! r)) [at_row fin..<length (rows_of fin)]
       then None else Some (read_off fin))"
    by (simp add: solve_def Let_def fin_def init_def read_off_def)
  have "echelon (length matrix) u 0 init"
    using assms by (simp add: init_def echelon_def shaped_def clear_below_def unit_pivots_def all_pivoted_def)
  then obtain column where ech: "echelon (length matrix) u column fin"
    and ended: "column = u \<or> at_row fin = length matrix"
    and same: "\<And>x. satisfies u (rows_of fin) (rhs_of fin) x \<longleftrightarrow> satisfies u matrix rhs x"
    using eliminate_props[of "length matrix" u 0 init] by (auto simp: fin_def init_def)
  have len: "length (rows_of fin) = length matrix" "length (pivot_of fin) = u"
    "\<And>r. r < length matrix \<Longrightarrow> length (rows_of fin ! r) = u"
    using ech by (simp_all add: echelon_def shaped_def)
  have zero: "rows_of fin ! r ! k = 0" if "at_row fin \<le> r" "r < length matrix" "k < u" for r k
    using ended ech that len by (auto simp: echelon_def clear_below_def)
  then have zero_dot: "dot u (rows_of fin ! r) y = 0" if "at_row fin \<le> r" "r < length matrix" for r y
    using that by (simp add: dot_def)
  have check: "list_ex (\<lambda>r. rhs_of fin ! r \<noteq> 0 \<and> list_all (\<lambda>v. v = 0) (rows_of fin ! r))
        [at_row fin..<length (rows_of fin)]
      \<longleftrightarrow> (\<exists>r. at_row fin \<le> r \<and> r < length matrix \<and> rhs_of fin ! r \<noteq> 0)"
    using zero len by (auto simp: list_ex_iff list_all_length)
  show "length x = u \<and> satisfies u matrix rhs x" if "solve matrix rhs u = Some x"
  proof -
    have x: "x = read_off fin" and ok: "\<And>r. at_row fin \<le> r \<Longrightarrow> r < length matrix \<Longrightarrow> rhs_of fin ! r = 0"
      using that check by (auto simp: solve split: if_splits)
    have "dot u (rows_of fin ! r) x = rhs_of fin ! r" if "r < length matrix" for r
      using read_off_pivot_row[OF ech, of r] zero_dot[of r x] ok[of r] that by (cases "r < at_row fin") (auto simp: x)
    then have "satisfies u (rows_of fin) (rhs_of fin) x" by (simp add: satisfies_def len)
    then show ?thesis using same len by (simp add: x read_off_def)
  qed
  show "\<not> satisfies u matrix rhs y" if none: "solve matrix rhs u = None"
  proof -
    obtain r where "at_row fin \<le> r" "r < length matrix" "rhs_of fin ! r \<noteq> 0"
      using none check by (auto simp: solve split: if_splits)
    then have "\<not> satisfies u (rows_of fin) (rhs_of fin) y"
      using zero_dot[of r y] len by (auto simp: satisfies_def)
    then show ?thesis using same by simp
  qed
qed

end
