(* ===== verification/Shamir_Decode.thy ===== *)
theory Shamir_Decode
  imports Shamir_Poly Shamir_Linear
begin

text \<open>
  \<open>locate\<close> of \<^verbatim>\<open>shamir.rs\<close> corrects as many wrong shares as the code can: with at most \<open>capacity\<close> of them it
  returns the dealt secret and exactly the parties whose shares are wrong.
\<close>

section \<open>Codewords\<close>

definition wrong :: "'s::field list \<Rightarrow> 's list \<Rightarrow> 's list \<Rightarrow> nat list" where
  "wrong cs pts shs = filter (\<lambda>i. evaluate cs (pts ! i) \<noteq> shs ! i) [0..<length pts]"

lemma positions_card:
  assumes "distinct pts" and "I \<subseteq> {..<length pts}"
  shows "card ((!) pts ` I) = card I"
  using assms by (intro card_image inj_onI) (auto simp: nth_eq_iff_index_eq subset_iff)

text \<open>Two polynomials that each agree with the shares outside few positions are the same.\<close>

lemma codeword_unique:
  assumes "distinct pts" and "length p \<le> m" and "length q \<le> m" and "A \<subseteq> {..<length pts}"
    and "m + card A \<le> length pts"
    and "\<And>i. i < length pts \<Longrightarrow> i \<notin> A \<Longrightarrow> evaluate p (pts ! i) = evaluate q (pts ! i)"
  shows "evaluate p x = evaluate q x"
proof (rule agree_everywhere)
  let ?S = "(!) pts ` ({..<length pts} - A)"
  show "finite ?S" by simp
  have "card ?S = length pts - card A"
    using positions_card[OF assms(1), of "{..<length pts} - A"] assms(4)
    by (simp add: card_Diff_subset finite_subset)
  then show "length p \<le> card ?S" "length q \<le> card ?S" using assms(2,3,5) by linarith+
  show "evaluate p x = evaluate q x" if "x \<in> ?S" for x using that assms(6) by auto
qed

lemma wrong_props:
  "distinct (wrong cs pts shs)" "set (wrong cs pts shs) \<subseteq> {..<length pts}"
  "card (set (wrong cs pts shs)) = length (wrong cs pts shs)"
proof -
  show d: "distinct (wrong cs pts shs)" by (simp add: wrong_def)
  show "card (set (wrong cs pts shs)) = length (wrong cs pts shs)" by (rule distinct_card[OF d])
qed (auto simp: wrong_def)

lemma capacity_bound: "deg < n \<Longrightarrow> deg + 1 + 2 * capacity n deg \<le> n"
  by (simp add: capacity_def)

section \<open>The linear system\<close>

lemma powers_props: "length (powers x n) = n" "k < n \<Longrightarrow> powers x n ! k = x ^ k"
  by (simp_all add: powers_def)

lemma welch_row_length: "length (welch_row ql e x y) = ql + e"
  by (simp add: welch_row_def powers_props)

lemma welch_row_dot:
  assumes "length sol = ql + e"
  shows "dot (ql + e) (welch_row ql e x y) sol = evaluate (take ql sol) x - y * evaluate (drop ql sol) x"
proof -
  have "dot (ql + e) (welch_row ql e x y) sol
      = (\<Sum>k < ql. x ^ k * sol ! k) + (\<Sum>k = ql..<ql + e. - y * x ^ (k - ql) * sol ! k)"
  proof -
    have split: "{..<ql + e} = {..<ql} \<union> {ql..<ql + e}" by auto
    have "(\<Sum>k < ql + e. welch_row ql e x y ! k * sol ! k)
        = (\<Sum>k < ql. welch_row ql e x y ! k * sol ! k) + (\<Sum>k = ql..<ql + e. welch_row ql e x y ! k * sol ! k)"
      unfolding split by (rule sum.union_disjoint) auto
    moreover have "(\<Sum>k < ql. welch_row ql e x y ! k * sol ! k) = (\<Sum>k < ql. x ^ k * sol ! k)"
      by (simp add: welch_row_def nth_append powers_props)
    moreover have "(\<Sum>k = ql..<ql + e. welch_row ql e x y ! k * sol ! k)
        = (\<Sum>k = ql..<ql + e. - y * x ^ (k - ql) * sol ! k)"
      by (rule sum.cong) (auto simp: welch_row_def nth_append powers_props)
    ultimately show ?thesis by (simp add: dot_def)
  qed
  also have "(\<Sum>k < ql. x ^ k * sol ! k) = evaluate (take ql sol) x"
    using assms by (simp add: evaluate_sum mult.commute)
  also have "(\<Sum>k = ql..<ql + e. - y * x ^ (k - ql) * sol ! k) = (\<Sum>k < e. - y * x ^ k * sol ! (ql + k))"
    by (rule sum.reindex_bij_witness[of _ "\<lambda>k. ql + k" "\<lambda>k. k - ql"]) auto
  also have "\<dots> = - y * evaluate (drop ql sol) x"
    using assms by (simp add: evaluate_sum sum_distrib_left algebra_simps)
  finally show ?thesis by simp
qed

definition welch_matrix :: "nat \<Rightarrow> nat \<Rightarrow> 's::field list \<Rightarrow> 's list \<Rightarrow> 's list list" where
  "welch_matrix ql e pts shs = map (\<lambda>i. welch_row ql e (pts ! i) (shs ! i)) [0..<length pts]"

definition welch_rhs :: "nat \<Rightarrow> 's::field list \<Rightarrow> 's list \<Rightarrow> 's list" where
  "welch_rhs e pts shs = map (\<lambda>i. shs ! i * (pts ! i) ^ e) [0..<length pts]"

text \<open>A solution is a pair of polynomials with \<open>Q(x) = y E(x)\<close> at every point.\<close>

lemma welch_system:
  assumes "length sol = ql + e"
  shows "satisfies (ql + e) (welch_matrix ql e pts shs) (welch_rhs e pts shs) sol
    \<longleftrightarrow> (\<forall>i < length pts. evaluate (take ql sol) (pts ! i) = shs ! i * evaluate (drop ql sol @ [1]) (pts ! i))"
proof -
  have "evaluate (take ql sol) x - y * evaluate (drop ql sol) x = y * x ^ e
      \<longleftrightarrow> evaluate (take ql sol) x = y * evaluate (drop ql sol @ [1]) x" for x y
    using assms by (simp add: evaluate_append algebra_simps eq_diff_eq diff_eq_eq)
  then show ?thesis
    by (simp add: satisfies_def welch_matrix_def welch_rhs_def welch_row_dot[OF assms])
qed

lemma welch_solve:
  "solve (welch_matrix ql e pts shs) (welch_rhs e pts shs) (ql + e) = Some sol \<Longrightarrow>
     length sol = ql + e \<and>
     (\<forall>i < length pts. evaluate (take ql sol) (pts ! i) = shs ! i * evaluate (drop ql sol @ [1]) (pts ! i))"
  "solve (welch_matrix ql e pts shs) (welch_rhs e pts shs) (ql + e) = None \<Longrightarrow> length y = ql + e \<Longrightarrow>
     \<not> (\<forall>i < length pts. evaluate (take ql y) (pts ! i) = shs ! i * evaluate (drop ql y @ [1]) (pts ! i))"
proof -
  have same: "length (welch_rhs e pts shs) = length (welch_matrix ql e pts shs)"
    by (simp add: welch_matrix_def welch_rhs_def)
  have shape: "length (welch_matrix ql e pts shs ! r) = ql + e" if "r < length (welch_matrix ql e pts shs)" for r
    using that by (simp add: welch_matrix_def welch_row_length)
  show "length sol = ql + e \<and>
     (\<forall>i < length pts. evaluate (take ql sol) (pts ! i) = shs ! i * evaluate (drop ql sol @ [1]) (pts ! i))"
    if "solve (welch_matrix ql e pts shs) (welch_rhs e pts shs) (ql + e) = Some sol"
    using solve_decides(1)[OF same shape that] welch_system by blast
  show "\<not> (\<forall>i < length pts. evaluate (take ql y) (pts ! i) = shs ! i * evaluate (drop ql y @ [1]) (pts ! i))"
    if "solve (welch_matrix ql e pts shs) (welch_rhs e pts shs) (ql + e) = None" "length y = ql + e"
    using solve_decides(2)[OF same shape that(1), of y] welch_system[OF that(2)] by blast
qed

section \<open>What a verdict means\<close>

lemma welch_unsolved:
  "solve (welch_matrix (deg + e + 1) e pts shs) (welch_rhs e pts shs) (deg + e + 1 + e) = None \<Longrightarrow>
     welch pts shs deg e = None"
  by (simp add: welch_def welch_matrix_def welch_rhs_def)

lemma welch_solved:
  assumes "solve (welch_matrix (deg + e + 1) e pts shs) (welch_rhs e pts shs) (deg + e + 1 + e) = Some sol"
    and "divide (take (deg + e + 1) sol) (drop (deg + e + 1) sol @ [1]) = Some (p, exact)"
    and "\<And>i. rooted i \<longleftrightarrow> evaluate (drop (deg + e + 1) sol @ [1]) (pts ! i) = 0"
  shows "welch pts shs deg e =
    (if exact \<and> length (filter rooted [0..<length pts]) = e
        \<and> (\<forall>i < length pts. \<not> rooted i \<longrightarrow> evaluate p (pts ! i) = shs ! i)
     then Some (Decoded (evaluate p 0) (filter rooted [0..<length pts])) else None)"
proof -
  have rooted: "rooted = (\<lambda>i. evaluate (drop (deg + e + 1) sol @ [1]) (pts ! i) = 0)" using assms(3) by blast
  have ex: "list_ex (\<lambda>i. i \<notin> set (filter rooted [0..<length pts]) \<and> evaluate p (pts ! i) \<noteq> shs ! i) [0..<length pts]
      \<longleftrightarrow> \<not> (\<forall>i < length pts. \<not> rooted i \<longrightarrow> evaluate p (pts ! i) = shs ! i)"
    by (auto simp: list_ex_iff)
  show ?thesis
    unfolding welch_def Let_def assms(1)[unfolded welch_matrix_def welch_rhs_def] bind.bind_lunit assms(2) prod.case
      rooted[symmetric] ex evaluate_at_zero by simp
qed

lemma welch_division:
  assumes "solve (welch_matrix (deg + e + 1) e pts shs) (welch_rhs e pts shs) (deg + e + 1 + e) = Some sol"
  obtains p rest where "divide (take (deg + e + 1) sol) (drop (deg + e + 1) sol @ [1])
      = Some (p, list_all (\<lambda>v. v = 0) rest)"
    and "length p = deg + 1" and "length rest = e"
    and "\<And>x. evaluate (take (deg + e + 1) sol) x = evaluate p x * evaluate (drop (deg + e + 1) sol @ [1]) x + evaluate rest x"
proof (rule divide_props[of "take (deg + e + 1) sol" "deg + 1" e "drop (deg + e + 1) sol @ [1]"])
  have len: "length sol = deg + e + 1 + e" using welch_solve(1)[OF assms] by blast
  show "length (take (deg + e + 1) sol) = deg + 1 + e" "length (drop (deg + e + 1) sol @ [1]) = Suc e"
    using len by simp_all
qed (use that in auto)

lemma welch_Some:
  assumes "welch pts shs deg e = Some v"
  obtains p P where "v = Decoded (evaluate p 0) (filter P [0..<length pts])" and "length p = deg + 1"
    and "length (filter P [0..<length pts]) = e"
    and "\<And>i. i < length pts \<Longrightarrow> \<not> P i \<Longrightarrow> evaluate p (pts ! i) = shs ! i"
proof -
  obtain sol where sol: "solve (welch_matrix (deg + e + 1) e pts shs) (welch_rhs e pts shs) (deg + e + 1 + e) = Some sol"
    using assms welch_unsolved[of deg e pts shs]
    by (cases "solve (welch_matrix (deg + e + 1) e pts shs) (welch_rhs e pts shs) (deg + e + 1 + e)") auto
  obtain p exact where d: "divide (take (deg + e + 1) sol) (drop (deg + e + 1) sol @ [1]) = Some (p, exact)"
    and p: "length p = deg + 1"
    by (rule welch_division[OF sol]) (rule that)
  define P where "P = (\<lambda>i. evaluate (drop (deg + e + 1) sol @ [1]) (pts ! i) = 0)"
  have w: "welch pts shs deg e =
    (if exact \<and> length (filter P [0..<length pts]) = e
        \<and> (\<forall>i < length pts. \<not> P i \<longrightarrow> evaluate p (pts ! i) = shs ! i)
     then Some (Decoded (evaluate p 0) (filter P [0..<length pts])) else None)"
    by (rule welch_solved[OF sol d]) (simp add: P_def)
  have good: "exact \<and> length (filter P [0..<length pts]) = e
      \<and> (\<forall>i < length pts. \<not> P i \<longrightarrow> evaluate p (pts ! i) = shs ! i)"
    using assms w by (metis option.distinct(1))
  then have "v = Decoded (evaluate p 0) (filter P [0..<length pts])"
    using assms unfolding w by simp
  then show thesis by (rule that[OF _ p]) (use good in auto)
qed

text \<open>A verdict for few errors is the right one.\<close>

lemma welch_right:
  assumes "welch pts shs deg e = Some v" and "distinct pts" and "length cs \<le> deg + 1"
    and "length (wrong cs pts shs) + e + deg + 1 \<le> length pts"
  shows "length (wrong cs pts shs) \<le> e"
    and "length (wrong cs pts shs) = e \<Longrightarrow> v = Decoded (evaluate cs 0) (wrong cs pts shs)"
proof -
  obtain p P where v: "v = Decoded (evaluate p 0) (filter P [0..<length pts])" and p: "length p = deg + 1"
    and e: "length (filter P [0..<length pts]) = e"
    and agree: "\<And>i. i < length pts \<Longrightarrow> \<not> P i \<Longrightarrow> evaluate p (pts ! i) = shs ! i"
    by (rule welch_Some[OF assms(1)]) (rule that)
  let ?C = "filter P [0..<length pts]" and ?W = "wrong cs pts shs"
  have cards: "card (set ?C) = e" "card (set ?W) = length ?W"
    using distinct_card[of ?C] e wrong_props(3) by (simp_all del: set_filter)
  have same: "evaluate p x = evaluate cs x" for x
  proof (rule codeword_unique[OF assms(2), of p "deg + 1" cs "set ?C \<union> set ?W"])
    show "deg + 1 + card (set ?C \<union> set ?W) \<le> length pts"
      using card_Un_le[of "set ?C" "set ?W"] cards assms(4) by linarith
    show "evaluate p (pts ! i) = evaluate cs (pts ! i)" if "i < length pts" "i \<notin> set ?C \<union> set ?W" for i
      using that agree by (auto simp: wrong_def)
  qed (use p assms(3) wrong_props(2) in auto)
  then have sub: "set ?W \<subseteq> set ?C" using agree by (auto simp: wrong_def)
  show "length ?W \<le> e" using card_mono[OF finite_set sub] by (simp only: cards)
  show "v = Decoded (evaluate cs 0) ?W" if "length ?W = e"
  proof -
    have eq: "set ?W = set ?C" by (rule card_subset_eq[OF _ sub]) (use cards that in simp_all)
    have "evaluate cs (pts ! i) \<noteq> shs ! i \<longleftrightarrow> P i" if "i \<in> set [0..<length pts]" for i
    proof -
      have "i \<in> set ?W \<longleftrightarrow> i \<in> set ?C" by (simp only: eq)
      then show ?thesis using that by (simp add: wrong_def)
    qed
    then have "?W = ?C" unfolding wrong_def by (rule filter_cong[OF refl])
    then show ?thesis using v same by simp
  qed
qed

section \<open>The system has a solution\<close>

text \<open>The true error locator without its leading one: its roots are the points of the wrong positions.\<close>

fun locator :: "'s::field list \<Rightarrow> 's list" where
  "locator [] = []"
| "locator (r # rs) = difference (0 # locator rs) (map (\<lambda>v. r * v) (locator rs @ [1]))"

lemma locator_length [simp]: "length (locator rs) = length rs"
  by (induction rs) simp_all

lemma locator_roots: "evaluate (locator rs @ [1]) x = 0 \<longleftrightarrow> x \<in> set rs"
proof -
  have "evaluate (locator (r # rs) @ [1]) x = (x - r) * evaluate (locator rs @ [1]) x" for r rs
    by (simp add: evaluate_append evaluate_difference evaluate_map_mult algebra_simps del: map_append)
  then have "evaluate (locator rs @ [1]) x = (\<Prod>r \<leftarrow> rs. x - r)" by (induction rs) simp_all
  then show ?thesis by (auto simp: prod_list_zero_iff)
qed

lemma pad_evaluate: "evaluate (q @ replicate k 0) x = evaluate q x"
  by (simp add: evaluate_append)

lemma monic_root_count:
  assumes "finite S" and "\<And>x. x \<in> S \<Longrightarrow> evaluate (low @ [1]) x = 0"
  shows "card S \<le> length low"
proof (rule ccontr)
  assume "\<not> card S \<le> length low"
  then have "list_all (\<lambda>v. v = 0) (low @ [1])" by (intro too_many_roots[OF assms(1)]) (use assms(2) in auto)
  then show False by simp
qed

lemma welch_consistent:
  assumes "length cs \<le> deg + 1" and "length (wrong cs pts shs) = e"
  shows "solve (welch_matrix (deg + e + 1) e pts shs) (welch_rhs e pts shs) (deg + e + 1 + e) \<noteq> None"
proof
  define low where "low = locator (map ((!) pts) (wrong cs pts shs))"
  have low: "length low = e" using assms(2) by (simp add: low_def)
  define q where "q = product cs (low @ [1])"
  have q: "length q \<le> deg + e + 1" using product_length[of "low @ [1]" cs] assms(1) low by (simp add: q_def)
  define y where "y = (q @ replicate (deg + e + 1 - length q) 0) @ low"
  have y: "length y = deg + e + 1 + e" "take (deg + e + 1) y = q @ replicate (deg + e + 1 - length q) 0"
    "drop (deg + e + 1) y = low"
    using q low by (simp_all add: y_def)
  assume none: "solve (welch_matrix (deg + e + 1) e pts shs) (welch_rhs e pts shs) (deg + e + 1 + e) = None"
  have "evaluate q (pts ! i) = shs ! i * evaluate (low @ [1]) (pts ! i)" if "i < length pts" for i
  proof (cases "i \<in> set (wrong cs pts shs)")
    case True
    then have "evaluate (low @ [1]) (pts ! i) = 0" unfolding low_def locator_roots by simp
    then show ?thesis by (simp add: q_def evaluate_product)
  next
    case False
    then show ?thesis using that by (simp add: wrong_def q_def evaluate_product)
  qed
  then show False using welch_solve(2)[OF none y(1)] unfolding y(2,3) pad_evaluate by blast
qed

text \<open>Any solution for the right number of errors is the true one.\<close>

lemma welch_locates:
  assumes sol: "solve (welch_matrix (deg + e + 1) e pts shs) (welch_rhs e pts shs) (deg + e + 1 + e) = Some sol"
    and "distinct pts" and "length cs \<le> deg + 1" and "length (wrong cs pts shs) = e"
    and "deg + 1 + 2 * e \<le> length pts"
  shows "evaluate (take (deg + e + 1) sol) x = evaluate cs x * evaluate (drop (deg + e + 1) sol @ [1]) x"
    and "i < length pts \<Longrightarrow> evaluate (drop (deg + e + 1) sol @ [1]) (pts ! i) = 0 \<longleftrightarrow> i \<in> set (wrong cs pts shs)"
proof -
  let ?W = "set (wrong cs pts shs)"
  define q low where "q = take (deg + e + 1) sol" and "low = drop (deg + e + 1) sol"
  have len: "length q = deg + e + 1" "length low = e"
    and fits: "\<And>i. i < length pts \<Longrightarrow> evaluate q (pts ! i) = shs ! i * evaluate (low @ [1]) (pts ! i)"
    using welch_solve(1)[OF sol] by (simp_all add: q_def low_def)
  have W: "?W \<subseteq> {..<length pts}" "card ?W = e" using wrong_props(2,3) assms(4) by auto
  have all: "evaluate q x = evaluate (product cs (low @ [1])) x" for x
  proof (rule codeword_unique[OF assms(2), of q "deg + e + 1" _ ?W])
    show "length (product cs (low @ [1])) \<le> deg + e + 1"
      using product_length[of "low @ [1]" cs] assms(3) len by simp
    show "evaluate q (pts ! i) = evaluate (product cs (low @ [1])) (pts ! i)" if "i < length pts" "i \<notin> ?W" for i
      using that fits by (simp add: wrong_def evaluate_product)
  qed (use len W assms(5) in simp_all)
  then show "evaluate (take (deg + e + 1) sol) x = evaluate cs x * evaluate (drop (deg + e + 1) sol @ [1]) x"
    unfolding q_def low_def evaluate_product .
  have roots: "evaluate (low @ [1]) (pts ! i) = 0" if "i \<in> ?W" for i
    using that fits[of i] all[of "pts ! i"] by (auto simp: wrong_def evaluate_product)
  show "evaluate (drop (deg + e + 1) sol @ [1]) (pts ! i) = 0 \<longleftrightarrow> i \<in> ?W" if i: "i < length pts"
  proof
    assume zero: "evaluate (drop (deg + e + 1) sol @ [1]) (pts ! i) = 0"
    show "i \<in> ?W"
    proof (rule ccontr)
      assume "i \<notin> ?W"
      then have "card (insert i ?W) = Suc e" using W(2) by simp
      then have "card ((!) pts ` insert i ?W) = Suc e" using positions_card[OF assms(2), of "insert i ?W"] W(1) i by simp
      moreover have "card ((!) pts ` insert i ?W) \<le> length low"
        by (rule monic_root_count) (use roots zero in \<open>auto simp: low_def\<close>)
      ultimately show False using len(2) by simp
    qed
  qed (use roots in \<open>simp add: low_def\<close>)
qed

lemma welch_complete:
  assumes "distinct pts" and "length cs \<le> deg + 1" and "length (wrong cs pts shs) = e"
    and "deg + 1 + 2 * e \<le> length pts"
  shows "welch pts shs deg e \<noteq> None"
proof -
  let ?W = "set (wrong cs pts shs)"
  obtain sol where sol: "solve (welch_matrix (deg + e + 1) e pts shs) (welch_rhs e pts shs) (deg + e + 1 + e) = Some sol"
    using welch_consistent[OF assms(2,3)] by blast
  define E where "E = drop (deg + e + 1) sol @ [1]"
  note truth = welch_locates[OF sol assms, folded E_def]
  obtain p and rest :: "'a list" where d: "divide (take (deg + e + 1) sol) E = Some (p, list_all (\<lambda>v. v = 0) rest)"
    and rest: "length rest = e" and div: "\<And>x. evaluate (take (deg + e + 1) sol) x = evaluate p x * evaluate E x + evaluate rest x"
    by (rule welch_division[OF sol, folded E_def]) (rule that)
  have W: "?W \<subseteq> {..<length pts}" "card ?W = e" using wrong_props(2,3) assms(3) by auto
  have exact: "list_all (\<lambda>v. v = 0) rest"
  proof (rule too_many_roots)
    show "length rest \<le> card ((!) pts ` ?W)" using positions_card[OF assms(1) W(1)] W(2) rest by simp
    show "evaluate rest x = 0" if "x \<in> (!) pts ` ?W" for x
    proof -
      have "evaluate E x = 0" using that truth(2) W(1) by auto
      then show ?thesis using div[of x] truth(1)[of x] by simp
    qed
  qed simp
  have "filter (\<lambda>i. evaluate E (pts ! i) = 0) [0..<length pts] = wrong cs pts shs"
    unfolding wrong_def by (rule filter_cong[OF refl]) (use truth(2) in \<open>auto simp: wrong_def\<close>)
  moreover have "evaluate p (pts ! i) = shs ! i" if i: "i < length pts" "evaluate E (pts ! i) \<noteq> 0" for i
  proof -
    have "evaluate p (pts ! i) * evaluate E (pts ! i) = evaluate cs (pts ! i) * evaluate E (pts ! i)"
      using div[of "pts ! i"] truth(1)[of "pts ! i"] evaluate_zeros[OF exact] by simp
    then have "evaluate p (pts ! i) = evaluate cs (pts ! i)" using i(2) by simp
    then show ?thesis using truth(2)[OF i(1)] i by (simp add: wrong_def)
  qed
  ultimately show ?thesis
    using welch_solved[OF sol d[unfolded E_def] refl] exact assms(3) unfolding E_def by simp
qed

section \<open>Locating\<close>

lemma first_some_skip:
  "(\<And>x. x \<in> set xs \<Longrightarrow> f x = None) \<Longrightarrow> first_some f (xs @ y # ys) = (case f y of None \<Rightarrow> first_some f ys | Some v \<Rightarrow> Some v)"
  by (induction xs) (auto split: option.splits)

text \<open>The first \<open>deg + 1\<close> shares already give the polynomial exactly when no share is wrong.\<close>

lemma first_shares:
  assumes "distinct pts" and "length shs = length pts" and "length cs \<le> deg + 1" and "deg < length pts"
    and "length (wrong cs pts shs) \<le> capacity (length pts) deg"
  shows "filter (\<lambda>i. evaluate (interpolate (take (deg + 1) pts) (take (deg + 1) shs)) (pts ! i) \<noteq> shs ! i)
      [deg + 1..<length pts] = [] \<longleftrightarrow> wrong cs pts shs = []"
    and "wrong cs pts shs = [] \<Longrightarrow> reconstruct (take (deg + 1) pts) (take (deg + 1) shs) = evaluate cs 0"
proof -
  let ?p = "interpolate (take (deg + 1) pts) (take (deg + 1) shs)"
  have d: "distinct (take (deg + 1) pts)" using assms(1) by simp
  have len: "length ?p = deg + 1" using interpolate_length[OF d] assms(4) by simp
  have first: "evaluate ?p (pts ! i) = shs ! i" if "i < deg + 1" for i
    using interpolate_through[OF d, of i "take (deg + 1) shs"] that assms(4) by simp
  have agree: "evaluate ?p x = evaluate cs x" if "wrong cs pts shs = []" for x
  proof (rule codeword_unique[OF assms(1) _ assms(3), of _ "{deg + 1..<length pts}"])
    show "evaluate ?p (pts ! i) = evaluate cs (pts ! i)" if "i < length pts" "i \<notin> {deg + 1..<length pts}" for i
      using that \<open>wrong cs pts shs = []\<close> first[of i] by (auto simp: wrong_def filter_empty_conv)
  qed (use len assms(4) in auto)
  then show "reconstruct (take (deg + 1) pts) (take (deg + 1) shs) = evaluate cs 0" if "wrong cs pts shs = []"
    using reconstruct_interpolate[OF d] that by simp
  show "filter (\<lambda>i. evaluate ?p (pts ! i) \<noteq> shs ! i) [deg + 1..<length pts] = [] \<longleftrightarrow> wrong cs pts shs = []"
  proof
    assume "filter (\<lambda>i. evaluate ?p (pts ! i) \<noteq> shs ! i) [deg + 1..<length pts] = []"
    then have all: "evaluate ?p (pts ! i) = shs ! i" if "i < length pts" for i
      using that first[of i] by (cases "i < deg + 1") (auto simp: filter_empty_conv)
    have "evaluate ?p x = evaluate cs x" for x
    proof (rule codeword_unique[OF assms(1) _ assms(3), of _ "set (wrong cs pts shs)"])
      show "deg + 1 + card (set (wrong cs pts shs)) \<le> length pts"
        using capacity_bound[OF assms(4)] assms(5) wrong_props(3)[of cs pts shs] by linarith
      show "evaluate ?p (pts ! i) = evaluate cs (pts ! i)" if "i < length pts" "i \<notin> set (wrong cs pts shs)" for i
        using that all by (simp add: wrong_def)
    qed (use len wrong_props(2) in auto)
    then show "wrong cs pts shs = []" using all by (auto simp: wrong_def filter_empty_conv)
  next
    assume w: "wrong cs pts shs = []"
    show "filter (\<lambda>i. evaluate ?p (pts ! i) \<noteq> shs ! i) [deg + 1..<length pts] = []"
      using w agree[OF w] by (auto simp: wrong_def filter_empty_conv)
  qed
qed

lemma locate_right:
  assumes "distinct pts" and "length shs = length pts" and "length cs \<le> deg + 1" and "deg < length pts"
    and "length (wrong cs pts shs) \<le> capacity (length pts) deg"
  shows "locate pts shs deg = Decoded (evaluate cs 0) (wrong cs pts shs)"
proof (cases "wrong cs pts shs = []")
  case True
  then show ?thesis using first_shares[OF assms] assms(2,4) by (simp add: locate_def Let_def)
next
  case False
  let ?e = "length (wrong cs pts shs)" and ?cap = "capacity (length pts) deg"
  have bound: "deg + 1 + 2 * ?cap \<le> length pts" by (rule capacity_bound[OF assms(4)])
  have split: "[1..<Suc ?cap] = [1..<?e] @ ?e # [Suc ?e..<Suc ?cap]"
    using False assms(5) upt_add_eq_append[of 1 ?e "Suc ?cap - ?e"] upt_conv_Cons[of ?e "Suc ?cap"]
    by (simp add: Suc_le_eq)
  obtain v where v: "welch pts shs deg ?e = Some v"
    using welch_complete[OF assms(1,3) refl] bound assms(5) by fastforce
  have "v = Decoded (evaluate cs 0) (wrong cs pts shs)"
    by (rule welch_right(2)[OF v assms(1,3) _ refl]) (use bound assms(5) in linarith)
  moreover have "welch pts shs deg e = None" if "e \<in> set [1..<?e]" for e
  proof (rule ccontr)
    assume "welch pts shs deg e \<noteq> None"
    then obtain u where u: "welch pts shs deg e = Some u" by blast
    have "?e \<le> e" by (rule welch_right(1)[OF u assms(1,3)]) (use bound assms(5) that in auto)
    then show False using that by simp
  qed
  ultimately have "first_some (welch pts shs deg) [1..<Suc ?cap] = Some (Decoded (evaluate cs 0) (wrong cs pts shs))"
    unfolding split using v by (subst first_some_skip) simp_all
  then show ?thesis using first_shares(1)[OF assms] False assms(2,4) by (simp add: locate_def Let_def)
qed

end
