(* ===== verification/Shamir_Properties.thy ===== *)
theory Shamir_Properties
  imports Shamir_Decode
begin

text \<open>
  Properties of the sharing scheme and of the decoder of \<^verbatim>\<open>shamir.rs\<close>.
\<close>

lemma share_nth: "i < length pts \<Longrightarrow> share secret drawn pts ! i = evaluate (secret # drawn) (pts ! i)"
  by (simp add: share_def share_with_coefficients_def Let_def)

lemma first_some_Some: "first_some f xs = Some v \<Longrightarrow> \<exists>x \<in> set xs. f x = Some v"
  by (induction xs) (auto split: option.splits)

text \<open>A decoded secret is the constant term of a polynomial that few shares disagree with.\<close>

lemma locate_Decoded:
  assumes "distinct pts" and "length shs = length pts" and "deg < length pts"
    and "locate pts shs deg = Decoded s culprits"
  obtains cs where "length cs \<le> deg + 1" and "evaluate cs 0 = s" and "culprits = wrong cs pts shs"
    and "length (wrong cs pts shs) \<le> capacity (length pts) deg"
proof -
  have few: "\<exists>cs. length cs \<le> deg + 1 \<and> length (wrong cs pts shs) \<le> capacity (length pts) deg"
  proof (cases "filter (\<lambda>i. evaluate (interpolate (take (deg + 1) pts) (take (deg + 1) shs)) (pts ! i) \<noteq> shs ! i)
      [deg + 1..<length pts] = []")
    case True
    let ?p = "interpolate (take (deg + 1) pts) (take (deg + 1) shs)"
    have d: "distinct (take (deg + 1) pts)" using assms(1) by simp
    have "evaluate ?p (pts ! i) = shs ! i" if "i < length pts" for i
      using that True interpolate_through[OF d, of i "take (deg + 1) shs"]
      by (cases "i < deg + 1") (auto simp: filter_empty_conv)
    then have "wrong ?p pts shs = []" by (simp add: wrong_def)
    then show ?thesis using interpolate_length[OF d, of "take (deg + 1) shs"] assms(3)
      by (intro exI[of _ ?p]) simp
  next
    case False
    then obtain v where "first_some (welch pts shs deg) [1..<Suc (capacity (length pts) deg)] = Some v"
      using assms by (auto simp: locate_def Let_def split: option.splits)
    then obtain e where e: "e \<le> capacity (length pts) deg" and "welch pts shs deg e = Some v"
      by (metis first_some_Some atLeastLessThan_iff less_Suc_eq_le set_upt)
    from this(2) obtain p P where "length p = deg + 1" and P: "length (filter P [0..<length pts]) = e"
      and "\<And>i. i < length pts \<Longrightarrow> \<not> P i \<Longrightarrow> evaluate p (pts ! i) = shs ! i" by (rule welch_Some) (rule that)
    moreover from this have "set (wrong p pts shs) \<subseteq> set (filter P [0..<length pts])" by (auto simp: wrong_def)
    then have "length (wrong p pts shs) \<le> e"
      using card_mono[OF finite_set] P wrong_props(3) distinct_card[of "filter P [0..<length pts]"]
      by (metis distinct_filter distinct_upt)
    ultimately show ?thesis using e by (intro exI[of _ p]) simp
  qed
  then obtain cs where cs: "length cs \<le> deg + 1" "length (wrong cs pts shs) \<le> capacity (length pts) deg" by blast
  have "Decoded s culprits = Decoded (evaluate cs 0) (wrong cs pts shs)"
    using locate_right[OF assms(1,2) cs(1) assms(3) cs(2)] assms(4) by simp
  then show thesis using that[of cs] cs by simp
qed

text \<open>C22: Shares dealt by \<open>share\<close> survive tampering: when at most \<open>capacity\<close> of them were replaced, \<open>locate\<close>
  returns the dealt secret together with exactly the positions that were replaced.\<close>

theorem locate_corrects:
  assumes "distinct pts" and "length drawn \<le> deg" and "deg < length pts" and "length shs = length pts"
    and "length (filter (\<lambda>i. shs ! i \<noteq> share secret drawn pts ! i) [0..<length pts]) \<le> capacity (length pts) deg"
  shows "locate pts shs deg = Decoded secret (filter (\<lambda>i. shs ! i \<noteq> share secret drawn pts ! i) [0..<length pts])"
proof -
  have "filter (\<lambda>i. shs ! i \<noteq> share secret drawn pts ! i) [0..<length pts] = wrong (secret # drawn) pts shs"
    unfolding wrong_def by (rule filter_cong) (auto simp: share_nth)
  then show ?thesis using locate_right[of pts shs "secret # drawn" deg] assms by simp
qed

lemma locate_corrects_witness:
  "locate [1, 2, 3, 4, 5] [9, 11, 40, 15, 17] 1 = Decoded (7 :: real) [2]"
  using locate_corrects[of "[1, 2, 3, 4, 5]" "[2]" 1 "[9, 11, 40, 15, 17]" "7 :: real"]
  by (simp add: share_def share_with_coefficients_def Let_def evaluate_def capacity_def upt_rec)

text \<open>C23: A verdict is never a guess: on distinct points, \<open>locate\<close> returns a secret and a list of parties exactly
  when some polynomial of the stated degree has that constant term and disagrees with the shares at exactly those
  parties, at most \<open>capacity\<close> of them; it answers \<open>Beyond\<close> in every other case.\<close>

theorem locate_exact:
  assumes "distinct pts" and "length shs = length pts" and "deg < length pts"
  shows "locate pts shs deg = Decoded s culprits \<longleftrightarrow>
    (\<exists>cs. length cs \<le> deg + 1 \<and> evaluate cs 0 = s
        \<and> culprits = filter (\<lambda>i. evaluate cs (pts ! i) \<noteq> shs ! i) [0..<length pts]
        \<and> length culprits \<le> capacity (length pts) deg)" (is "?l \<longleftrightarrow> ?r")
proof
  assume ?l
  then obtain cs where "length cs \<le> deg + 1" "evaluate cs 0 = s" "culprits = wrong cs pts shs"
    "length (wrong cs pts shs) \<le> capacity (length pts) deg"
    by (rule locate_Decoded[OF assms]) (rule that)
  then show ?r unfolding wrong_def by blast
next
  assume ?r
  then show ?l using locate_right[OF assms(1,2) _ assms(3)] unfolding wrong_def by blast
qed

lemma locate_exact_witness:
  "locate [1, 2, 3, 4] [9, 11, 13, 40] 1 = Decoded (7 :: real) [3]"
proof -
  have "\<exists>cs. length cs \<le> 1 + 1 \<and> evaluate cs 0 = 7
      \<and> [3] = filter (\<lambda>i. evaluate cs ([1, 2, 3, 4] ! i) \<noteq> [9, 11, 13, 40 :: real] ! i)
          [0..<length [1, 2, 3, 4 :: real]]
      \<and> length [3 :: nat] \<le> capacity (length [1, 2, 3, 4 :: real]) 1"
    by (rule exI[of _ "[7, 2]"]) (simp add: evaluate_def capacity_def upt_rec)
  then show ?thesis using locate_exact[of "[1, 2, 3, 4]" "[9, 11, 13, 40]" 1 "7 :: real" "[3]"] by simp
qed

end
