(* ===== verification/Or_Dleq.thy ===== *)
theory Or_Dleq
  imports Sigma_Protocols
begin

text \<open>
  \<^verbatim>\<open>src/rust/zkfmi-zk/src/or_dleq.rs\<close>: membership in a registry of points with a scope nullifier, by
  disjunctive composition. The scalars the prover draws are the function \<open>draws\<close>, in the order of the draws.
\<close>

section \<open>The protocol\<close>

record 'g statement =
  registry_id :: bytes
  st_points :: "'g list"
  st_scope :: bytes
  context_hash :: bytes

record ('s, 'g) or_proof =
  or_nullifier :: 'g
  challenges :: "'s list"
  responses :: "'s list"

definition size_bytes :: "('s, 'g) or_proof \<Rightarrow> nat" where
  "size_bytes p = 32 + 64 * length (challenges p)"

definition scope_generator :: "('s, 'g) zk \<Rightarrow> bytes \<Rightarrow> 'g" where
  "scope_generator Z scope = hash_point Z scope"

definition nullifier :: "('s, 'g) zk \<Rightarrow> bytes \<Rightarrow> 's \<Rightarrow> 'g" where
  "nullifier Z scope secret = smul Z secret (scope_generator Z scope)"

definition append_points :: "('s, 'g) zk \<Rightarrow> bytes \<Rightarrow> 'g list \<Rightarrow> transcript \<Rightarrow> transcript" where
  "append_points Z label ps T = foldl (\<lambda>t p. append_point Z label p t) T ps"

text \<open>What \<open>challenge\<close> appends to its transcript, and the scalar it draws.\<close>

definition or_transcript :: "('s, 'g) zk \<Rightarrow> 'g statement \<Rightarrow> 'g \<Rightarrow> 'g list \<Rightarrow> 'g list \<Rightarrow> transcript" where
  "or_transcript Z st null commit_g commit_h =
     (let T = transcript_new (ascii ''qomm:or-dleq:v1'');
          T = append_message (ascii ''registry'') (registry_id st) T;
          T = append_message (ascii ''scope'') (st_scope st) T;
          T = append_message (ascii ''context'') (context_hash st) T;
          T = append_point Z (ascii ''N'') null T;
          T = append_points Z (ascii ''P'') (st_points st) T;
          T = append_points Z (ascii ''A'') commit_g T;
          T = append_points Z (ascii ''B'') commit_h T
      in T)"

definition or_challenge :: "('s, 'g) zk \<Rightarrow> 'g statement \<Rightarrow> 'g \<Rightarrow> 'g list \<Rightarrow> 'g list \<Rightarrow> 's" where
  "or_challenge Z st null commit_g commit_h =
     fst (challenge_scalar Z (ascii ''c'') (or_transcript Z st null commit_g commit_h))"

datatype or_error = NotInRegistry | SecretDoesNotOpen

text \<open>The loop over the registry: per point the challenge, the response and the two commitments. The true branch
  commits to the nonce; every other one draws its challenge and response and solves for the commitments.\<close>

record ('s, 'g) branch =
  br_challenge :: 's
  br_response :: 's
  br_g :: 'g
  br_h :: 'g

fun branches ::
  "('s::field, 'g::ab_group_add) zk \<Rightarrow> 'g \<Rightarrow> 'g \<Rightarrow> nat \<Rightarrow> 's \<Rightarrow> nat \<Rightarrow> 'g list \<Rightarrow> (nat \<Rightarrow> 's) \<Rightarrow> ('s, 'g) branch list" where
  "branches Z h_scope null index nonce position [] draws = []"
| "branches Z h_scope null index nonce position (point # points) draws =
     (if position = index
      then \<lparr>br_challenge = 0, br_response = 0, br_g = smul Z nonce (basepoint Z), br_h = smul Z nonce h_scope\<rparr>
        # branches Z h_scope null index nonce (Suc position) points draws
      else
        let c = draws 0; r = draws 1
        in \<lparr>br_challenge = c, br_response = r, br_g = smul Z r (basepoint Z) - smul Z c point,
            br_h = smul Z r h_scope - smul Z c null\<rparr>
          # branches Z h_scope null index nonce (Suc position) points (\<lambda>k. draws (k + 2)))"

definition or_prove ::
  "('s::field, 'g::ab_group_add) zk \<Rightarrow> 'g statement \<Rightarrow> 's \<Rightarrow> nat \<Rightarrow> (nat \<Rightarrow> 's) \<Rightarrow> or_error + ('s, 'g) or_proof" where
  "or_prove Z st secret index draws =
     (let n = length (st_points st)
      in if n \<le> index then Inl NotInRegistry
         else
           let h_scope = scope_generator Z (st_scope st);
               null = smul Z secret h_scope
           in if st_points st ! index \<noteq> smul Z secret (basepoint Z) then Inl SecretDoesNotOpen
              else
                let nonce = draws 0;
                    bs = branches Z h_scope null index nonce 0 (st_points st) (\<lambda>k. draws (k + 1));
                    tot = or_challenge Z st null (map br_g bs) (map br_h bs);
                    others = sum_list (map br_challenge bs);
                    cs = (map br_challenge bs)[index := tot - others];
                    rs = (map br_response bs)[index := nonce + cs ! index * secret]
                in Inr \<lparr>or_nullifier = null, challenges = cs, responses = rs\<rparr>)"

definition or_commit_g :: "('s::field, 'g::ab_group_add) zk \<Rightarrow> 'g statement \<Rightarrow> ('s, 'g) or_proof \<Rightarrow> 'g list" where
  "or_commit_g Z st p =
     map (\<lambda>i. smul Z (responses p ! i) (basepoint Z) - smul Z (challenges p ! i) (st_points st ! i))
       [0..<length (st_points st)]"

definition or_commit_h :: "('s::field, 'g::ab_group_add) zk \<Rightarrow> 'g statement \<Rightarrow> ('s, 'g) or_proof \<Rightarrow> 'g list" where
  "or_commit_h Z st p =
     map (\<lambda>i. smul Z (responses p ! i) (scope_generator Z (st_scope st)) - smul Z (challenges p ! i) (or_nullifier p))
       [0..<length (st_points st)]"

definition or_verify :: "('s::field, 'g::ab_group_add) zk \<Rightarrow> 'g statement \<Rightarrow> ('s, 'g) or_proof \<Rightarrow> bool" where
  "or_verify Z st p =
     (let n = length (st_points st)
      in if length (challenges p) \<noteq> n \<or> length (responses p) \<noteq> n then False
         else sum_list (challenges p) = or_challenge Z st (or_nullifier p) (or_commit_g Z st p) (or_commit_h Z st p))"

section \<open>Completeness\<close>

lemma branches_length [simp]: "length (branches Z hs null index nonce pos pts draws) = length pts"
  by (induction pts arbitrary: pos draws) (simp_all add: Let_def)

lemma branches_true:
  "i < length pts \<Longrightarrow> pos + i = index \<Longrightarrow>
     branches Z hs null index nonce pos pts draws ! i
       = \<lparr>br_challenge = 0, br_response = 0, br_g = smul Z nonce (basepoint Z), br_h = smul Z nonce hs\<rparr>"
proof (induction pts arbitrary: pos draws i)
  case (Cons p pts)
  then show ?case by (cases i) (simp_all add: Let_def)
qed simp

lemma branches_simulated:
  "i < length pts \<Longrightarrow> pos + i \<noteq> index \<Longrightarrow> b = branches Z hs null index nonce pos pts draws ! i \<Longrightarrow>
     br_g b = smul Z (br_response b) (basepoint Z) - smul Z (br_challenge b) (pts ! i)
     \<and> br_h b = smul Z (br_response b) hs - smul Z (br_challenge b) null"
proof (induction pts arbitrary: pos draws i)
  case (Cons p pts)
  then show ?case by (cases i) (auto simp: Let_def)
qed simp

lemma or_prove_Inr:
  assumes "or_prove Z st secret index draws = Inr p"
  obtains nonce bs where "bs = branches Z (scope_generator Z (st_scope st)) (nullifier Z (st_scope st) secret) index nonce 0
      (st_points st) (\<lambda>k. draws (k + 1))"
    and "index < length (st_points st)" and "st_points st ! index = smul Z secret (basepoint Z)"
    and "or_nullifier p = nullifier Z (st_scope st) secret"
    and "challenges p = (map br_challenge bs)[index :=
        or_challenge Z st (or_nullifier p) (map br_g bs) (map br_h bs) - sum_list (map br_challenge bs)]"
    and "responses p = (map br_response bs)[index := nonce + challenges p ! index * secret]"
  using assms by (auto simp: or_prove_def Let_def nullifier_def split: if_splits)

lemma sum_list_update_zero:
  "i < length xs \<Longrightarrow> xs ! i = 0 \<Longrightarrow> sum_list (xs[i := v]) = sum_list xs + (v :: 's::field)"
  by (induction xs arbitrary: i) (auto split: nat.splits simp: algebra_simps)

lemma or_complete:
  assumes Z: "lawful Z" and "or_prove Z st secret index draws = Inr p"
  shows "or_verify Z st p"
proof -
  obtain nonce bs where bs: "bs = branches Z (scope_generator Z (st_scope st)) (nullifier Z (st_scope st) secret) index
        nonce 0 (st_points st) (\<lambda>k. draws (k + 1))"
    and i: "index < length (st_points st)" and open_i: "st_points st ! index = smul Z secret (basepoint Z)"
    and n: "or_nullifier p = nullifier Z (st_scope st) secret"
    and cs: "challenges p = (map br_challenge bs)[index :=
        or_challenge Z st (or_nullifier p) (map br_g bs) (map br_h bs) - sum_list (map br_challenge bs)]"
    and rs: "responses p = (map br_response bs)[index := nonce + challenges p ! index * secret]"
    by (rule or_prove_Inr[OF assms(2)]) (rule that)
  have len: "length bs = length (st_points st)" by (simp add: bs)
  have at: "bs ! index = \<lparr>br_challenge = 0, br_response = 0, br_g = smul Z nonce (basepoint Z),
      br_h = smul Z nonce (scope_generator Z (st_scope st))\<rparr>"
    unfolding bs by (rule branches_true) (use i in simp_all)
  have g: "or_commit_g Z st p = map br_g bs" and h: "or_commit_h Z st p = map br_h bs"
  proof -
    have "smul Z (responses p ! k) (basepoint Z) - smul Z (challenges p ! k) (st_points st ! k) = br_g (bs ! k)
        \<and> smul Z (responses p ! k) (scope_generator Z (st_scope st)) - smul Z (challenges p ! k) (or_nullifier p)
          = br_h (bs ! k)" if k: "k < length (st_points st)" for k
    proof (cases "k = index")
      case True
      have r: "responses p ! index = nonce + challenges p ! index * secret" by (subst rs) (use i len in simp)
      show ?thesis unfolding True r at open_i n nullifier_def by (simp add: lawful_smul[OF Z])
    next
      case False
      have "responses p ! k = br_response (bs ! k)" by (subst rs) (use k len False in simp)
      moreover have "challenges p ! k = br_challenge (bs ! k)" by (subst cs) (use k len False in simp)
      moreover have "br_g (bs ! k) = smul Z (br_response (bs ! k)) (basepoint Z) - smul Z (br_challenge (bs ! k)) (st_points st ! k)
          \<and> br_h (bs ! k) = smul Z (br_response (bs ! k)) (scope_generator Z (st_scope st))
              - smul Z (br_challenge (bs ! k)) (nullifier Z (st_scope st) secret)"
        by (rule branches_simulated[OF k, of 0 index]) (use False in \<open>simp_all add: bs\<close>)
      ultimately show ?thesis using n by simp
    qed
    then show "or_commit_g Z st p = map br_g bs" "or_commit_h Z st p = map br_h bs"
      unfolding or_commit_g_def or_commit_h_def using len by (intro nth_equalityI; simp)+
  qed
  have "sum_list (challenges p) = or_challenge Z st (or_nullifier p) (map br_g bs) (map br_h bs)"
    by (subst cs, subst sum_list_update_zero) (use i len at in simp_all)
  moreover have "length (challenges p) = length (st_points st)" by (subst cs) (simp add: len)
  moreover have "length (responses p) = length (st_points st)" by (subst rs) (simp add: len)
  ultimately show ?thesis by (simp add: or_verify_def g h Let_def)
qed

section \<open>Soundness\<close>

text \<open>From two accepted proofs: the first branch with different challenges, and the secret it gives.\<close>

definition or_extract :: "('s::field, 'g) or_proof \<Rightarrow> ('s, 'g) or_proof \<Rightarrow> (nat \<times> 's) option" where
  "or_extract p q = (case List.find (\<lambda>i. challenges p ! i \<noteq> challenges q ! i) [0..<length (challenges p)] of
      None \<Rightarrow> None
    | Some i \<Rightarrow> Some (i, (responses p ! i - responses q ! i) / (challenges p ! i - challenges q ! i)))"

lemma difference_extract:
  assumes Z: "lawful Z" and "smul Z r G - smul Z c P = smul Z r' G - smul Z d P" and "c \<noteq> d"
  shows "P = smul Z ((r - r') / (c - d)) G"
proof -
  have "smul Z (c - d) P = smul Z (r - r') G" using assms(2) by (simp add: lawful_smul[OF Z] algebra_simps)
  then have "smul Z (inverse (c - d)) (smul Z (c - d) P) = smul Z (inverse (c - d)) (smul Z (r - r') G)" by simp
  then show ?thesis using assms(3) by (simp add: lawful_smul(3,4)[OF Z] divide_inverse mult.commute)
qed

text \<open>The transcript determines the nullifier and the first moves, if points have one compression.\<close>

lemma append_points_map: "append_points Z label ps T = T @ map (\<lambda>p. Appended label (compress Z p)) ps"
  by (induction ps arbitrary: T) (simp_all add: append_points_def append_point_def append_message_def)

lemma map_compress_inj:
  "inj (compress Z) \<Longrightarrow> map (\<lambda>p. Appended label (compress Z p)) ps = map (\<lambda>p. Appended label (compress Z p)) qs \<longleftrightarrow> ps = qs"
  by (rule inj_map_eq_map) (simp add: inj_def)

lemma or_transcript_inj:
  assumes "inj (compress Z)" and "or_transcript Z st N A B = or_transcript Z st N' A' B'" and "length A = length A'"
  shows "N = N' \<and> A = A' \<and> B = B'"
  using assms(2,3)
  by (simp add: or_transcript_def Let_def append_points_map append_point_def append_message_def append_eq_append_conv
      map_compress_inj[OF assms(1)] inj_eq[OF assms(1)])

lemma or_extract_sound:
  assumes Z: "lawful Z" and len: "length (challenges p) = length (st_points st)" "length (challenges q) = length (st_points st)"
    and "or_nullifier q = or_nullifier p"
    and "or_commit_g Z st q = or_commit_g Z st p" and "or_commit_h Z st q = or_commit_h Z st p"
    and "sum_list (challenges p) \<noteq> sum_list (challenges q)"
  obtains i s where "or_extract p q = Some (i, s)" and "i < length (st_points st)"
    and "st_points st ! i = smul Z s (basepoint Z)" and "or_nullifier p = nullifier Z (st_scope st) s"
proof -
  have "List.find (\<lambda>i. challenges p ! i \<noteq> challenges q ! i) [0..<length (challenges p)] \<noteq> None"
  proof
    assume "List.find (\<lambda>i. challenges p ! i \<noteq> challenges q ! i) [0..<length (challenges p)] = None"
    then have "challenges p = challenges q" using len by (intro nth_equalityI) (auto simp: find_None_iff)
    then show False using assms(7) by simp
  qed
  then obtain i where f: "List.find (\<lambda>i. challenges p ! i \<noteq> challenges q ! i) [0..<length (challenges p)] = Some i" by blast
  then have i: "i < length (st_points st)" and ne: "challenges p ! i \<noteq> challenges q ! i"
    using len by (auto simp: find_Some_iff)
  let ?s = "(responses p ! i - responses q ! i) / (challenges p ! i - challenges q ! i)"
  have "st_points st ! i = smul Z ?s (basepoint Z)"
    by (rule difference_extract[OF Z _ ne])
      (use arg_cong[OF assms(5), of "\<lambda>l. l ! i"] i in \<open>simp add: or_commit_g_def\<close>)
  moreover have "or_nullifier p = smul Z ?s (scope_generator Z (st_scope st))"
    by (rule difference_extract[OF Z _ ne])
      (use arg_cong[OF assms(6), of "\<lambda>l. l ! i"] i assms(4) in \<open>simp add: or_commit_h_def\<close>)
  ultimately show thesis by (intro that[of i ?s]) (simp_all add: or_extract_def f i nullifier_def)
qed

text \<open>The transcript a proof is checked against, and what acceptance says: its challenges add up to the scalar drawn there.\<close>

definition proof_transcript :: "('s::field, 'g::ab_group_add) zk \<Rightarrow> 'g statement \<Rightarrow> ('s, 'g) or_proof \<Rightarrow> transcript" where
  "proof_transcript Z st p = or_transcript Z st (or_nullifier p) (or_commit_g Z st p) (or_commit_h Z st p)"

lemma proof_transcript_oracle [simp]: "proof_transcript (Z\<lparr>merlin := answers\<rparr>) st p = proof_transcript Z st p"
  by (simp add: proof_transcript_def or_transcript_def or_commit_g_def or_commit_h_def scope_generator_def
      append_points_def append_point_def)

lemma or_verifyD:
  assumes "or_verify Z st p"
  shows "length (challenges p) = length (st_points st)"
    and "sum_list (challenges p) = fst (challenge_scalar Z (ascii ''c'') (proof_transcript Z st p))"
  using assms by (simp_all add: or_verify_def or_challenge_def proof_transcript_def Let_def split: if_splits)

lemma or_sound:
  assumes Z: "lawful Z" and inj: "inj (compress Z)" and p: "or_verify Z st p" and q: "or_verify (Z\<lparr>merlin := answers\<rparr>) st q"
    and same: "proof_transcript Z st q = proof_transcript Z st p"
    and fork: "fst (challenge_scalar (Z\<lparr>merlin := answers\<rparr>) (ascii ''c'') (proof_transcript Z st p))
      \<noteq> fst (challenge_scalar Z (ascii ''c'') (proof_transcript Z st p))"
  obtains i s where "or_extract p q = Some (i, s)" and "i < length (st_points st)"
    and "st_points st ! i = smul Z s (basepoint Z)" and "or_nullifier p = nullifier Z (st_scope st) s"
proof -
  have "length (or_commit_g Z st q) = length (or_commit_g Z st p)" by (simp add: or_commit_g_def)
  from or_transcript_inj[OF inj same[unfolded proof_transcript_def] this]
  have eq: "or_nullifier q = or_nullifier p" "or_commit_g Z st q = or_commit_g Z st p" "or_commit_h Z st q = or_commit_h Z st p"
    by simp_all
  have "sum_list (challenges p) \<noteq> sum_list (challenges q)"
    using or_verifyD(2)[OF p] or_verifyD(2)[OF q] fork by (simp add: same)
  then show thesis by (rule or_extract_sound[OF Z or_verifyD(1)[OF p] or_verifyD(1)[OF q] eq]) (rule that)
qed

lemma secret_unique:
  assumes Z: "lawful Z" and "smul Z s G = smul Z u G" and "G \<noteq> 0"
  shows "s = u"
proof (rule ccontr)
  assume "s \<noteq> u"
  have "smul Z (s - u) G = 0" using assms(2) by (simp add: lawful_smul[OF Z])
  then have "smul Z (inverse (s - u)) (smul Z (s - u) G) = 0" by (simp add: lawful_smul[OF Z])
  then show False using \<open>s \<noteq> u\<close> assms(3) by (simp add: lawful_smul(3,4)[OF Z])
qed

end
