(* ===== verification/Adaptor.thy ===== *)
theory Adaptor
  imports Or_Dleq
begin

text \<open>
  \<^verbatim>\<open>src/rust/zkfmi-zk/src/adaptor.rs\<close>: Schnorr signatures that a secret finishes and that give the secret back.
  Scalars drawn at random are arguments.
\<close>

record ('s, 'g) pre_signature =
  pre_r :: 'g
  pre_s :: 's

record ('s, 'g) signature =
  sig_r :: 'g
  sig_s :: 's

record ('s, 'g) adaptor =
  ad_secret :: 's
  ad_point :: 'g

definition public_key :: "('s, 'g) zk \<Rightarrow> 's \<Rightarrow> 'g" where
  "public_key Z secret = smul Z secret (basepoint Z)"

definition adaptor_random :: "('s, 'g) zk \<Rightarrow> 's \<Rightarrow> ('s, 'g) adaptor" where
  "adaptor_random Z secret = \<lparr>ad_secret = secret, ad_point = smul Z secret (basepoint Z)\<rparr>"

definition adaptor_challenge :: "('s, 'g) zk \<Rightarrow> 'g \<Rightarrow> 'g \<Rightarrow> bytes \<Rightarrow> 's" where
  "adaptor_challenge Z nonce_point key message =
     fst (challenge_scalar Z (ascii ''c'')
       (append_message (ascii ''m'') message
         (append_point Z (ascii ''X'') key
           (append_point Z (ascii ''R'') nonce_point (transcript_new (ascii ''qomm:zk:adaptor:v1''))))))"

definition pre_sign ::
  "('s::field, 'g::ab_group_add) zk \<Rightarrow> 's \<Rightarrow> 'g \<Rightarrow> bytes \<Rightarrow> 's \<Rightarrow> ('s, 'g) pre_signature" where
  "pre_sign Z signing_key adaptor_point message r =
     (let nonce = smul Z r (basepoint Z);
          c = adaptor_challenge Z (nonce + adaptor_point) (public_key Z signing_key) message
      in \<lparr>pre_r = nonce, pre_s = r + c * signing_key\<rparr>)"

definition verify_pre_signature ::
  "('s::field, 'g::ab_group_add) zk \<Rightarrow> 'g \<Rightarrow> 'g \<Rightarrow> bytes \<Rightarrow> ('s, 'g) pre_signature \<Rightarrow> bool" where
  "verify_pre_signature Z key adaptor_point message pre =
     (let c = adaptor_challenge Z (pre_r pre + adaptor_point) key message
      in public_key Z (pre_s pre) = pre_r pre + smul Z c key)"

definition adapt ::
  "('s::field, 'g::ab_group_add) pre_signature \<Rightarrow> ('s, 'g) adaptor \<Rightarrow> ('s, 'g) signature" where
  "adapt pre a = \<lparr>sig_r = pre_r pre + ad_point a, sig_s = pre_s pre + ad_secret a\<rparr>"

definition extract_secret :: "('s::field, 'g) pre_signature \<Rightarrow> ('s, 'g) signature \<Rightarrow> 's" where
  "extract_secret pre sig = sig_s sig - pre_s pre"

definition adaptor_verify :: "('s::field, 'g::ab_group_add) zk \<Rightarrow> 'g \<Rightarrow> bytes \<Rightarrow> ('s, 'g) signature \<Rightarrow> bool" where
  "adaptor_verify Z key message sig =
     (let c = adaptor_challenge Z (sig_r sig) key message
      in public_key Z (sig_s sig) = sig_r sig + smul Z c key)"

definition adaptor_sign :: "('s::field, 'g::ab_group_add) zk \<Rightarrow> 's \<Rightarrow> bytes \<Rightarrow> 's \<Rightarrow> ('s, 'g) signature" where
  "adaptor_sign Z signing_key message r =
     (let pre = pre_sign Z signing_key 0 message r in \<lparr>sig_r = pre_r pre, sig_s = pre_s pre\<rparr>)"

section \<open>The exchange\<close>

lemma pre_sign_verifies:
  "lawful Z \<Longrightarrow> verify_pre_signature Z (public_key Z x) Y m (pre_sign Z x Y m r)"
  by (simp add: verify_pre_signature_def pre_sign_def public_key_def Let_def lawful_smul)

lemma sign_verifies: "lawful Z \<Longrightarrow> adaptor_verify Z (public_key Z x) m (adaptor_sign Z x m r)"
  by (simp add: adaptor_verify_def adaptor_sign_def pre_sign_def public_key_def Let_def lawful_smul)

text \<open>A checked pre-signature is finished by a scalar exactly when that scalar stands behind the adaptor's point.\<close>

lemma adapt_verifies_iff:
  assumes Z: "lawful Z" and "verify_pre_signature Z key (ad_point a) m pre"
  shows "adaptor_verify Z key m (adapt pre a) \<longleftrightarrow> ad_point a = smul Z (ad_secret a) (basepoint Z)"
proof -
  have "public_key Z (pre_s pre) = pre_r pre + smul Z (adaptor_challenge Z (pre_r pre + ad_point a) key m) key"
    using assms(2) by (simp add: verify_pre_signature_def)
  then show ?thesis
    by (auto simp: adaptor_verify_def adapt_def public_key_def lawful_smul[OF Z] algebra_simps)
qed

text \<open>Whatever signature appears under the adapted nonce gives the secret of the adaptor's point.\<close>

lemma published_gives_secret:
  assumes Z: "lawful Z" and "verify_pre_signature Z key Y m pre" and "adaptor_verify Z key m sig"
    and "sig_r sig = pre_r pre + Y"
  shows "Y = smul Z (extract_secret pre sig) (basepoint Z)"
  using assms(2,3)
  by (simp add: verify_pre_signature_def adaptor_verify_def extract_secret_def public_key_def assms(4)
      lawful_smul[OF Z] algebra_simps)

end
