(* ===== verification/One_Of_Many.thy ===== *)
theory One_Of_Many
  imports Sigma_Protocols Shamir_Poly
begin

text \<open>
  \<^verbatim>\<open>src/rust/zkfmi-zk/src/oneofmany.rs\<close>: Groth-Kohlweiss proofs that one commitment of a set opens to zero.
  The prover's random scalars are the lists \<open>a\<close>, \<open>r\<close>, \<open>s\<close>, \<open>t\<close> and \<open>rho\<close>, in the order in which they are
  drawn.
\<close>

section \<open>The protocol\<close>

record ('s, 'g) gk_proof =
  gk_cl :: "'g list"
  gk_ca :: "'g list"
  gk_cb :: "'g list"
  gk_gk :: "'g list"
  gk_f :: "'s list"
  gk_za :: "'s list"
  gk_zb :: "'s list"
  gk_zd :: 's

definition gk_size_bytes :: "('s, 'g) gk_proof \<Rightarrow> nat" where
  "gk_size_bytes p =
     32 * (length (gk_cl p) + length (gk_ca p) + length (gk_cb p) + length (gk_gk p))
     + 32 * (length (gk_f p) + length (gk_za p) + length (gk_zb p) + 1)"

definition append_u64 :: "bytes \<Rightarrow> u64 \<Rightarrow> transcript \<Rightarrow> transcript" where
  "append_u64 label v T = append_message label (rev (u64_be v)) T"

definition append_set :: "('s, 'g) zk \<Rightarrow> transcript \<Rightarrow> bytes \<times> 'g list \<Rightarrow> transcript" where
  "append_set Z T = (\<lambda>(label, ps).
     foldl (\<lambda>t p. append_message label (compress Z p) t) (append_u64 (ascii ''n'') (of_nat (length ps)) T) ps)"

definition gk_challenge ::
  "('s, 'g) zk \<Rightarrow> transcript \<Rightarrow> 'g list \<Rightarrow> 'g list \<Rightarrow> 'g list \<Rightarrow> 'g list \<Rightarrow> 'g list \<Rightarrow> 's \<times> transcript" where
  "gk_challenge Z T commitments cl ca cb gk =
     challenge_scalar Z (ascii ''x'')
       (foldl (append_set Z) (append_message (ascii ''dom'') (ascii ''qomm/gk'') T)
         [(ascii ''C'', commitments), (ascii ''cl'', cl), (ascii ''ca'', ca), (ascii ''cb'', cb), (ascii ''gk'', gk)])"

definition challenge_for ::
  "('s, 'g) zk \<Rightarrow> transcript \<Rightarrow> 'g list \<Rightarrow> ('s, 'g) gk_proof \<Rightarrow> 's \<times> transcript" where
  "challenge_for Z T commitments p = gk_challenge Z T commitments (gk_cl p) (gk_ca p) (gk_cb p) (gk_gk p)"

definition index_bit :: "nat \<Rightarrow> nat \<Rightarrow> bool" where
  "index_bit index j \<longleftrightarrow> odd (index div 2 ^ j)"

text \<open>One linear factor multiplied onto the polynomial.\<close>

definition times_linear :: "'s::field list \<Rightarrow> 's \<Rightarrow> 's \<Rightarrow> 's list" where
  "times_linear poly l0 l1 =
     foldl (\<lambda>prod (p, coefficient).
         let m = prod[p := prod ! p + coefficient * l0] in m[Suc p := m ! Suc p + coefficient * l1])
       (replicate (length poly + 1) 0) (enumerate 0 poly)"

definition poly_coefficients :: "nat \<Rightarrow> nat \<Rightarrow> 's::field list \<Rightarrow> 's list \<Rightarrow> 's list" where
  "poly_coefficients index bits a ell =
     foldl (\<lambda>poly j. if index_bit index j then times_linear poly (a ! j) (ell ! j)
                     else times_linear poly (- (a ! j)) (1 - ell ! j)) [1] [0..<bits]"

text \<open>\<open>is_power_of_two\<close> and \<open>trailing_zeros\<close> of a 64-bit \<open>usize\<close>.\<close>

definition is_power_of_two :: "nat \<Rightarrow> bool" where
  "is_power_of_two n \<longleftrightarrow> list_ex (\<lambda>k. n = 2 ^ k) [0..<64]"

definition trailing_zeros :: "nat \<Rightarrow> nat" where
  "trailing_zeros n = length (takeWhile (\<lambda>k. even (n div 2 ^ k)) [0..<64])"

datatype gk_error = SetNotPowerOfTwo | IndexOutsideSet

definition weighted :: "('s, 'g::ab_group_add) zk \<Rightarrow> 's list \<Rightarrow> 'g list \<Rightarrow> 'g" where
  "weighted Z ss ps = sum_list (map2 (smul Z) ss ps)"

record 's gk_draws =
  dr_a :: "'s list"
  dr_r :: "'s list"
  dr_s :: "'s list"
  dr_t :: "'s list"
  dr_rho :: "'s list"

definition gk_prove ::
  "('s::field, 'g::ab_group_add) zk \<Rightarrow> 'g pedersen \<Rightarrow> transcript \<Rightarrow> 'g list \<Rightarrow> nat \<Rightarrow> 's \<Rightarrow> 's gk_draws
    \<Rightarrow> gk_error + ('s, 'g) gk_proof \<times> transcript" where
  "gk_prove Z key T commitments index randomness d =
     (let size = length commitments
      in if \<not> is_power_of_two size \<or> size < 2 then Inl SetNotPowerOfTwo
         else if size \<le> index then Inl IndexOutsideSet
         else
           let bits = trailing_zeros size;
               ell = map (\<lambda>j. if index_bit index j then 1 else 0) [0..<bits];
               a = dr_a d; r = dr_r d; s = dr_s d; t = dr_t d; rho = dr_rho d;
               cl = map (\<lambda>j. commit Z key (ell ! j) (r ! j)) [0..<bits];
               ca = map (\<lambda>j. commit Z key (a ! j) (s ! j)) [0..<bits];
               cb = map (\<lambda>j. commit Z key (ell ! j * a ! j) (t ! j)) [0..<bits];
               coefficients = map (\<lambda>i. poly_coefficients i bits a ell) [0..<size];
               gk = map (\<lambda>k. weighted Z (map (\<lambda>c. c ! k) coefficients) commitments + smul Z (rho ! k) (gen_h key))
                      [0..<bits];
               (x, T') = gk_challenge Z T commitments cl ca cb gk;
               f = map (\<lambda>j. ell ! j * x + a ! j) [0..<bits];
               za = map (\<lambda>j. r ! j * x + s ! j) [0..<bits];
               zb = map (\<lambda>j. r ! j * (x - f ! j) + t ! j) [0..<bits];
               x_to_bits = foldl (\<lambda>v _. v * x) 1 [0..<bits];
               (zd, _) = foldl (\<lambda>(zd, x_k) rho_k. (zd - rho_k * x_k, x_k * x)) (randomness * x_to_bits, 1) rho
           in Inr (\<lparr>gk_cl = cl, gk_ca = ca, gk_cb = cb, gk_gk = gk, gk_f = f, gk_za = za, gk_zb = zb, gk_zd = zd\<rparr>, T'))"

definition gk_value :: "nat \<Rightarrow> 's::field \<Rightarrow> 's list \<Rightarrow> nat \<Rightarrow> 's" where
  "gk_value bits x f i = foldl (\<lambda>v j. v * (if index_bit i j then f ! j else x - f ! j)) 1 [0..<bits]"

definition gk_bit_holds ::
  "('s::field, 'g::ab_group_add) zk \<Rightarrow> 'g pedersen \<Rightarrow> 's \<Rightarrow> ('s, 'g) gk_proof \<Rightarrow> nat \<Rightarrow> bool" where
  "gk_bit_holds Z key x p j \<longleftrightarrow>
     commit Z key (gk_f p ! j) (gk_za p ! j) = smul Z x (gk_cl p ! j) + gk_ca p ! j
     \<and> commit Z key 0 (gk_zb p ! j) = smul Z (x - gk_f p ! j) (gk_cl p ! j) + gk_cb p ! j"

definition gk_verify ::
  "('s::field, 'g::ab_group_add) zk \<Rightarrow> 'g pedersen \<Rightarrow> transcript \<Rightarrow> 'g list \<Rightarrow> ('s, 'g) gk_proof \<Rightarrow> bool \<times> transcript" where
  "gk_verify Z key T commitments p =
     (let size = length commitments
      in if \<not> is_power_of_two size \<or> size < 2 then (False, T)
         else
           let bits = trailing_zeros size
           in if length (gk_f p) \<noteq> bits \<or> length (gk_cl p) \<noteq> bits \<or> length (gk_ca p) \<noteq> bits
                 \<or> length (gk_cb p) \<noteq> bits \<or> length (gk_gk p) \<noteq> bits \<or> length (gk_za p) \<noteq> bits
                 \<or> length (gk_zb p) \<noteq> bits
              then (False, T)
              else
                let (x, T') = gk_challenge Z T commitments (gk_cl p) (gk_ca p) (gk_cb p) (gk_gk p)
                in if \<not> list_all (gk_bit_holds Z key x p) [0..<bits] then (False, T')
                   else
                     let values = map (gk_value bits x (gk_f p)) [0..<size];
                         (powers_of_x, _) = foldl (\<lambda>(ss, x_k) _. (ss @ [- x_k], x_k * x)) ([], 1) (gk_gk p);
                         scalars = values @ powers_of_x @ [- gk_zd p];
                         pts = commitments @ gk_gk p @ [gen_h key]
                     in (msm Z scalars pts = Some 0, T'))"

section \<open>Loops\<close>

lemma times_linear_loop:
  assumes "k + length bs < length nxt"
  shows "length (foldl (\<lambda>nxt (k, b). let m = nxt[k := nxt ! k + b * l0] in m[Suc k := m ! Suc k + b * l1]) nxt
           (enumerate k bs)) = length nxt
    \<and> evaluate (foldl (\<lambda>nxt (k, b). let m = nxt[k := nxt ! k + b * l0] in m[Suc k := m ! Suc k + b * l1]) nxt
           (enumerate k bs)) x = evaluate nxt x + x ^ k * (l0 + x * l1) * evaluate bs x
    \<and> (bs \<noteq> [] \<longrightarrow> foldl (\<lambda>nxt (k, b). let m = nxt[k := nxt ! k + b * l0] in m[Suc k := m ! Suc k + b * l1]) nxt
           (enumerate k bs) ! (k + length bs) = nxt ! (k + length bs) + last bs * l1)"
  using assms
proof (induction bs arbitrary: k nxt)
  case (Cons b bs)
  define m where "m = nxt[k := nxt ! k + b * l0]"
  have "evaluate (m[Suc k := m ! Suc k + b * l1]) x = evaluate nxt x + b * l0 * x ^ k + b * l1 * x ^ Suc k"
    using Cons.prems by (simp add: m_def evaluate_update algebra_simps)
  then show ?case
    using Cons.IH[of "Suc k" "m[Suc k := m ! Suc k + b * l1]"] Cons.prems
    by (cases bs) (simp_all add: m_def Let_def algebra_simps)
qed simp

lemma times_linear_props:
  assumes "bs \<noteq> []"
  shows "length (times_linear bs l0 l1) = Suc (length bs)"
    and "evaluate (times_linear bs l0 l1) x = (l0 + x * l1) * evaluate bs x"
    and "last (times_linear bs l0 l1) = last bs * l1"
proof -
  note loop = times_linear_loop[of 0 bs "replicate (length bs + 1) 0" l0 l1 x, folded times_linear_def]
  show len: "length (times_linear bs l0 l1) = Suc (length bs)" using loop by simp
  show "evaluate (times_linear bs l0 l1) x = (l0 + x * l1) * evaluate bs x" using loop by simp
  have "last (times_linear bs l0 l1) = times_linear bs l0 l1 ! length bs"
    using len by (metis diff_Suc_1 last_conv_nth length_0_conv nat.distinct(1))
  then show "last (times_linear bs l0 l1) = last bs * l1" using loop assms by (simp add: nth_append)
qed

lemma poly_coefficients_props:
  "length (poly_coefficients i bits a ell) = Suc bits
   \<and> last (poly_coefficients i bits a ell) = (\<Prod>j < bits. if index_bit i j then ell ! j else 1 - ell ! j)
   \<and> evaluate (poly_coefficients i bits a ell) x
     = (\<Prod>j < bits. if index_bit i j then a ! j + x * ell ! j else - (a ! j) + x * (1 - ell ! j))"
proof (induction bits)
  case (Suc bits)
  then have "poly_coefficients i bits a ell \<noteq> []" by auto
  then show ?case using Suc times_linear_props[of "poly_coefficients i bits a ell"]
    by (auto simp: poly_coefficients_def algebra_simps)
qed (simp add: poly_coefficients_def)

end
