(* ===== verification/One_Of_Many_Sound.thy ===== *)
theory One_Of_Many_Sound
  imports One_Of_Many
begin

text \<open>
  Completeness and special soundness of the proofs of \<^verbatim>\<open>oneofmany.rs\<close>: an honest proof verifies, and accepted
  answers to one more challenge than the index has bits give, by an explicit function, either a member of the
  set with the scalar that opens it to zero or the discrete logarithm between the two generators.
\<close>

section \<open>Sizes and indices\<close>

lemma power_of_two_bits:
  assumes "is_power_of_two n"
  shows "n = 2 ^ trailing_zeros n"
proof -
  obtain k where k: "k < 64" "n = 2 ^ k" using assms by (auto simp: is_power_of_two_def list_ex_iff)
  have "[0..<64] = [0..<k] @ k # [Suc k..<64]"
    using k(1) upt_add_eq_append[of 0 k "64 - k"] upt_conv_Cons[of k 64] by simp
  moreover have "\<forall>j \<in> set [0..<k]. even (n div 2 ^ j)"
    using k by (auto simp: power_diff[symmetric])
  ultimately have "takeWhile (\<lambda>j. even (n div 2 ^ j)) [0..<64] = [0..<k]"
    using k takeWhile_append2[of "[0..<k]" "\<lambda>j. even (n div 2 ^ j)" "k # [Suc k..<64]"] by simp
  then show ?thesis by (simp add: trailing_zeros_def k)
qed

lemma index_bits_eq:
  assumes "i < 2 ^ b" and "l < 2 ^ b" and "\<And>j. j < b \<Longrightarrow> index_bit i j = index_bit l j"
  shows "i = l"
proof (rule bit_eqI)
  fix j
  show "bit i j \<longleftrightarrow> bit l j"
  proof (cases "j < b")
    case True
    then show ?thesis using assms(3) by (simp add: bit_iff_odd index_bit_def)
  next
    case False
    then have "(2::nat) ^ b \<le> 2 ^ j" by (intro power_increasing) simp_all
    then have "i < 2 ^ j" "l < 2 ^ j" using assms(1,2) by linarith+
    then show ?thesis by (simp add: bit_iff_odd)
  qed
qed

definition index_of :: "nat \<Rightarrow> (nat \<Rightarrow> bool) \<Rightarrow> nat" where
  "index_of b P = (\<Sum>j < b. if P j then 2 ^ j else 0)"

lemma index_of_bound: "index_of b P < 2 ^ b"
  by (induction b) (auto simp: index_of_def)

lemma index_bit_index_of: "j < b \<Longrightarrow> index_bit (index_of b P) j = P j"
proof (induction b)
  case (Suc b)
  have lt: "index_of b P < 2 ^ b" by (rule index_of_bound)
  show ?case
  proof (cases "j = b")
    case True
    then show ?thesis using lt by (simp add: index_bit_def index_of_def)
  next
    case False
    then have "j < b" using Suc.prems by simp
    then obtain d where b: "b = j + Suc d" using less_iff_Suc_add by auto
    have "index_of (Suc b) P div 2 ^ j = index_of b P div 2 ^ j + (if P b then 2 * 2 ^ d else 0)"
    proof -
      have "index_of (Suc b) P = index_of b P + 2 ^ j * (if P b then 2 * 2 ^ d else 0)"
        by (simp add: index_of_def) (simp add: b power_add)
      then show ?thesis by (simp add: ac_simps)
    qed
    then show ?thesis using Suc.IH[OF \<open>j < b\<close>] by (simp add: index_bit_def)
  qed
qed simp

text \<open>The leading coefficients pick one member.\<close>

lemma leading_coefficient:
  assumes "i < 2 ^ bits" and "l < 2 ^ bits" and "\<And>j. j < bits \<Longrightarrow> ell ! j = (if index_bit l j then 1 else 0)"
  shows "last (poly_coefficients i bits a ell) = (if i = l then 1 else (0 :: 's::field))"
proof (cases "i = l")
  case True
  have "(\<Prod>j < bits. if index_bit l j then ell ! j else 1 - ell ! j) = 1"
    by (rule prod.neutral) (simp add: assms(3))
  then show ?thesis using True poly_coefficients_props[of l bits a ell 0] by simp
next
  case False
  then obtain j where "j < bits" "index_bit i j \<noteq> index_bit l j" using index_bits_eq[OF assms(1,2)] by blast
  then show ?thesis using False poly_coefficients_props[of i bits a ell 0] assms(3)
    by (auto intro!: prod_zero)
qed

lemma gk_value_prod: "gk_value bits x f i = (\<Prod>j < bits. if index_bit i j then f ! j else x - f ! j)"
  by (induction bits) (simp_all add: gk_value_def)

lemma gk_value_evaluate:
  assumes "\<And>j. j < bits \<Longrightarrow> f ! j = ell ! j * x + a ! j"
  shows "gk_value bits x f i = evaluate (poly_coefficients i bits a ell) x"
proof -
  have "(\<Prod>j < bits. if index_bit i j then f ! j else x - f ! j)
      = (\<Prod>j < bits. if index_bit i j then a ! j + x * ell ! j else - (a ! j) + x * (1 - ell ! j))"
    by (rule prod.cong) (auto simp: assms algebra_simps)
  then show ?thesis using poly_coefficients_props[of i bits a ell x] by (simp add: gk_value_prod)
qed

section \<open>The verifier's equations\<close>

lemma weighted_sum:
  "length ss = length ps \<Longrightarrow> weighted Z ss ps = (\<Sum>i < length ps. smul Z (ss ! i) (ps ! i))"
  by (simp add: weighted_def sum_list_sum_nth atLeast0LessThan)

lemma power_loop:
  "foldl (\<lambda>(ss, x_k) _. (ss @ [- x_k], x_k * x)) (acc, c :: 's::field) ps
     = (acc @ map (\<lambda>k. - (c * x ^ k)) [0..<length ps], c * x ^ length ps)"
proof (induction ps arbitrary: acc c)
  case (Cons p ps)
  have "[0..<length (p # ps)] = 0 # map Suc [0..<length ps]"
    by (simp add: upt_conv_Cons map_Suc_upt del: upt_Suc)
  then show ?case using Cons by (simp add: comp_def mult.assoc del: upt_Suc)
qed simp

lemma msm_three:
  assumes "length ss = length ps" and "length us = length qs"
  shows "msm Z (ss @ us @ [c]) (ps @ qs @ [h]) = Some (weighted Z ss ps + weighted Z us qs + smul Z c h)"
  using assms by (simp add: msm_def weighted_def add.assoc)

definition gk_holds ::
  "('s::field, 'g::ab_group_add) zk \<Rightarrow> 'g pedersen \<Rightarrow> nat \<Rightarrow> 'g list \<Rightarrow> 's \<Rightarrow> ('s, 'g) gk_proof \<Rightarrow> bool" where
  "gk_holds Z key bits commitments x p \<longleftrightarrow>
     (\<forall>j < bits. gk_bit_holds Z key x p j)
     \<and> (\<Sum>i < length commitments. smul Z (gk_value bits x (gk_f p) i) (commitments ! i))
       = (\<Sum>k < bits. smul Z (x ^ k) (gk_gk p ! k)) + smul Z (gk_zd p) (gen_h key)"

definition gk_shape :: "nat \<Rightarrow> ('s, 'g) gk_proof \<Rightarrow> bool" where
  "gk_shape bits p \<longleftrightarrow> length (gk_f p) = bits \<and> length (gk_cl p) = bits \<and> length (gk_ca p) = bits
     \<and> length (gk_cb p) = bits \<and> length (gk_gk p) = bits \<and> length (gk_za p) = bits \<and> length (gk_zb p) = bits"

lemma gk_verify_iff:
  assumes Z: "lawful Z"
  shows "fst (gk_verify Z key T commitments p) \<longleftrightarrow>
    is_power_of_two (length commitments) \<and> 2 \<le> length commitments
    \<and> gk_shape (trailing_zeros (length commitments)) p
    \<and> gk_holds Z key (trailing_zeros (length commitments)) commitments (fst (challenge_for Z T commitments p)) p"
    (is "_ \<longleftrightarrow> ?pow \<and> ?two \<and> gk_shape ?b p \<and> gk_holds Z key ?b commitments ?x p")
proof (cases "?pow \<and> ?two \<and> gk_shape ?b p")
  case True
  then have gk: "length (gk_gk p) = ?b" by (simp add: gk_shape_def)
  have sum: "weighted Z (map (\<lambda>k. - (?x ^ k)) [0..<?b]) (gk_gk p) = - (\<Sum>k < ?b. smul Z (?x ^ k) (gk_gk p ! k))"
    using gk by (simp add: weighted_sum lawful_smul[OF Z] sum_negf)
  have vals: "weighted Z (map (gk_value ?b ?x (gk_f p)) [0..<length commitments]) commitments
      = (\<Sum>i < length commitments. smul Z (gk_value ?b ?x (gk_f p) i) (commitments ! i))"
    by (simp add: weighted_sum)
  have "msm Z (map (gk_value ?b ?x (gk_f p)) [0..<length commitments] @ map (\<lambda>k. - (?x ^ k)) [0..<?b] @ [- gk_zd p])
      (commitments @ gk_gk p @ [gen_h key]) = Some 0 \<longleftrightarrow>
      (\<Sum>i < length commitments. smul Z (gk_value ?b ?x (gk_f p) i) (commitments ! i))
       = (\<Sum>k < ?b. smul Z (?x ^ k) (gk_gk p ! k)) + smul Z (gk_zd p) (gen_h key)"
    using gk by (simp add: msm_three sum vals lawful_smul[OF Z] algebra_simps eq_neg_iff_add_eq_0 diff_eq_eq)
  note final = this
  have loop: "foldl (\<lambda>(ss, x_k) _. (ss @ [- x_k], x_k * ?x)) ([], 1) (gk_gk p)
      = (map (\<lambda>k. - (?x ^ k)) [0..<?b], ?x ^ ?b)"
    using power_loop[of ?x "[]" 1 "gk_gk p"] gk by simp
  have "fst (gk_verify Z key T commitments p) \<longleftrightarrow> list_all (gk_bit_holds Z key ?x p) [0..<?b]
      \<and> msm Z (map (gk_value ?b ?x (gk_f p)) [0..<length commitments] @ map (\<lambda>k. - (?x ^ k)) [0..<?b] @ [- gk_zd p])
      (commitments @ gk_gk p @ [gen_h key]) = Some 0"
    using True loop by (simp add: gk_verify_def Let_def gk_shape_def challenge_for_def case_prod_unfold)
  then show ?thesis using True unfolding final gk_holds_def by (auto simp: list_all_iff)
next
  case False
  then show ?thesis by (auto simp: gk_verify_def Let_def gk_shape_def)
qed

section \<open>Completeness\<close>

lemma zd_loop:
  "fst (foldl (\<lambda>(zd, x_k) rho_k. (zd - rho_k * x_k, x_k * x)) (z, c :: 's::field) rho)
     = z - c * evaluate rho x"
proof (induction rho arbitrary: z c)
  case (Cons r rho)
  show ?case using Cons.IH[of "z - r * c" "c * x"] by (simp add: algebra_simps)
qed simp

lemma power_fold: "foldl (\<lambda>v _. v * x) c [0..<n] = c * (x :: 's::field) ^ n"
  by (induction n) (simp_all add: mult.assoc)

lemma sum_smul: "lawful Z \<Longrightarrow> smul Z (\<Sum>k \<in> A. u k) P = (\<Sum>k \<in> A. smul Z (u k) P)"
  by (induction A rule: infinite_finite_induct) (simp_all add: lawful_smul)

lemma smul_sum: "lawful Z \<Longrightarrow> smul Z c (\<Sum>k \<in> A. P k) = (\<Sum>k \<in> A. smul Z c (P k))"
  by (induction A rule: infinite_finite_induct) (simp_all add: lawful_smul)

lemma evaluate_top:
  assumes "length q = Suc n"
  shows "evaluate q x = (\<Sum>k < n. q ! k * x ^ k) + last q * x ^ n"
  using assms by (simp add: evaluate_sum) (metis diff_Suc_1 last_conv_nth length_0_conv nat.distinct(1))

text \<open>The sum over the set splits into the lower coefficients, which the prover commits to, and the member.\<close>

lemma member_sum:
  assumes Z: "lawful Z" and "length Cs = 2 ^ bits" and "l < 2 ^ bits"
    and "\<And>j. j < bits \<Longrightarrow> ell ! j = (if index_bit l j then 1 else 0)"
  shows "(\<Sum>i < length Cs. smul Z (evaluate (poly_coefficients i bits a ell) x) (Cs ! i))
    = (\<Sum>k < bits. smul Z (x ^ k) (\<Sum>i < length Cs. smul Z (poly_coefficients i bits a ell ! k) (Cs ! i)))
      + smul Z (x ^ bits) (Cs ! l)"
proof -
  let ?c = "\<lambda>i. poly_coefficients i bits a ell"
  have summand: "smul Z (evaluate (?c i) x) (Cs ! i)
      = (\<Sum>k < bits. smul Z (x ^ k) (smul Z (?c i ! k) (Cs ! i))) + (if i = l then smul Z (x ^ bits) (Cs ! l) else 0)"
    if i: "i < length Cs" for i
  proof -
    have "length (?c i) = Suc bits" using poly_coefficients_props[of i bits a ell x] by blast
    moreover have "last (?c i) = (if i = l then 1 else 0)"
      by (rule leading_coefficient[OF _ assms(3,4)]) (use i assms(2) in simp_all)
    ultimately have "evaluate (?c i) x = (\<Sum>k < bits. x ^ k * ?c i ! k) + (if i = l then x ^ bits else 0)"
      using evaluate_top[of "?c i" bits x] by (simp add: mult.commute)
    then show ?thesis by (simp only: lawful_smul[OF Z] sum_smul[OF Z]) (simp add: lawful_smul[OF Z])
  qed
  have "(\<Sum>i < length Cs. smul Z (evaluate (?c i) x) (Cs ! i))
      = (\<Sum>i < length Cs. \<Sum>k < bits. smul Z (x ^ k) (smul Z (?c i ! k) (Cs ! i)))
        + (\<Sum>i < length Cs. if i = l then smul Z (x ^ bits) (Cs ! l) else 0)"
    by (simp add: summand sum.distrib)
  also have "(\<Sum>i < length Cs. \<Sum>k < bits. smul Z (x ^ k) (smul Z (?c i ! k) (Cs ! i)))
      = (\<Sum>k < bits. smul Z (x ^ k) (\<Sum>i < length Cs. smul Z (?c i ! k) (Cs ! i)))"
    by (subst sum.swap) (simp add: smul_sum[OF Z])
  finally show ?thesis using assms(2,3) by (simp add: sum.delta)
qed

definition draws_for :: "nat \<Rightarrow> 's gk_draws \<Rightarrow> bool" where
  "draws_for bits d \<longleftrightarrow> length (dr_a d) = bits \<and> length (dr_r d) = bits \<and> length (dr_s d) = bits
     \<and> length (dr_t d) = bits \<and> length (dr_rho d) = bits"

lemma honest_bit:
  assumes Z: "lawful Z" and "ell = 0 \<or> ell = (1 :: 's::field)"
  shows "commit Z key (ell * x + a) (r * x + s) = smul Z x (commit Z key ell r) + commit Z key a s"
    and "commit Z key 0 (r * (x - (ell * x + a)) + t)
      = smul Z (x - (ell * x + a)) (commit Z key ell r) + commit Z key (ell * a) t"
  using assms(2) by (auto simp: commit_def lawful_smul[OF Z] algebra_simps)

lemma gk_complete:
  assumes Z: "lawful Z" and "gk_prove Z key T Cs index randomness d = Inr (p, T')"
    and "draws_for (trailing_zeros (length Cs)) d" and "Cs ! index = smul Z randomness (gen_h key)"
  shows "fst (gk_verify Z key T Cs p)"
proof -
  define bits where "bits = trailing_zeros (length Cs)"
  define ell where "ell = map (\<lambda>j. if index_bit index j then 1 else (0 :: 'a)) [0..<bits]"
  have size: "is_power_of_two (length Cs)" "2 \<le> length Cs" and i: "index < length Cs"
    using assms(2) by (auto simp: gk_prove_def Let_def split: if_splits)
  have pow: "length Cs = 2 ^ bits" using power_of_two_bits[OF size(1)] by (simp add: bits_def)
  define x where "x = fst (challenge_for Z T Cs p)"
  have p: "gk_cl p = map (\<lambda>j. commit Z key (ell ! j) (dr_r d ! j)) [0..<bits]"
      "gk_ca p = map (\<lambda>j. commit Z key (dr_a d ! j) (dr_s d ! j)) [0..<bits]"
      "gk_cb p = map (\<lambda>j. commit Z key (ell ! j * dr_a d ! j) (dr_t d ! j)) [0..<bits]"
      "gk_gk p = map (\<lambda>k. weighted Z (map (\<lambda>i. poly_coefficients i bits (dr_a d) ell ! k) [0..<length Cs]) Cs
         + smul Z (dr_rho d ! k) (gen_h key)) [0..<bits]"
    and f: "gk_f p = map (\<lambda>j. ell ! j * x + dr_a d ! j) [0..<bits]"
    and za: "gk_za p = map (\<lambda>j. dr_r d ! j * x + dr_s d ! j) [0..<bits]"
    and zb: "gk_zb p = map (\<lambda>j. dr_r d ! j * (x - gk_f p ! j) + dr_t d ! j) [0..<bits]"
    and zd: "gk_zd p = randomness * x ^ bits - evaluate (dr_rho d) x"
    using assms(2) size i
    by (auto simp: gk_prove_def Let_def case_prod_unfold bits_def ell_def x_def challenge_for_def power_fold
        zd_loop[unfolded case_prod_unfold] comp_def)
  have shape: "gk_shape bits p" by (simp add: gk_shape_def p f za zb)
  have bit: "gk_bit_holds Z key x p j" if "j < bits" for j
    using honest_bit[OF Z, of "ell ! j"] that by (auto simp: gk_bit_holds_def p f za zb ell_def)
  have "(\<Sum>i < length Cs. smul Z (gk_value bits x (gk_f p) i) (Cs ! i))
      = (\<Sum>k < bits. smul Z (x ^ k) (\<Sum>i < length Cs. smul Z (poly_coefficients i bits (dr_a d) ell ! k) (Cs ! i)))
        + smul Z (x ^ bits) (Cs ! index)"
  proof -
    have "gk_value bits x (gk_f p) i = evaluate (poly_coefficients i bits (dr_a d) ell) x" for i
      by (rule gk_value_evaluate) (simp add: f)
    then show ?thesis using member_sum[OF Z pow, of index ell "dr_a d" x] i pow by (simp add: ell_def)
  qed
  also have "\<dots> = (\<Sum>k < bits. smul Z (x ^ k) (gk_gk p ! k)) + smul Z (gk_zd p) (gen_h key)"
  proof -
    have "(\<Sum>k < bits. smul Z (x ^ k) (gk_gk p ! k))
        = (\<Sum>k < bits. smul Z (x ^ k) (\<Sum>i < length Cs. smul Z (poly_coefficients i bits (dr_a d) ell ! k) (Cs ! i)))
          + smul Z (evaluate (dr_rho d) x) (gen_h key)"
      using assms(3) by (simp add: p weighted_sum lawful_smul[OF Z] sum.distrib evaluate_sum sum_smul[OF Z]
          draws_for_def bits_def mult.commute)
    then show ?thesis by (simp add: zd assms(4) lawful_smul[OF Z] mult.commute)
  qed
  finally have "gk_holds Z key bits Cs x p" using bit by (simp add: gk_holds_def)
  then show ?thesis using gk_verify_iff[OF Z] size shape by (simp add: bits_def x_def)
qed

section \<open>Reading off a coefficient\<close>

text \<open>Weights that read the leading coefficient off the values at the points.\<close>

definition unit_vector :: "nat \<Rightarrow> nat \<Rightarrow> 's::field list" where
  "unit_vector n m = map (\<lambda>k. if k = m then 1 else 0) [0..<n]"

definition top_weight :: "'s::field list \<Rightarrow> nat \<Rightarrow> 's" where
  "top_weight xs m = last (interpolate xs (unit_vector (length xs) m))"

lemma same_coefficients:
  assumes "distinct xs" and "length p = length xs" and "length q = length xs"
    and "\<And>j. j < length xs \<Longrightarrow> evaluate p (xs ! j) = evaluate q (xs ! j)"
  shows "p = q"
proof (rule nth_equalityI)
  have "list_all (\<lambda>v. v = 0) (difference p q)"
  proof (rule too_many_roots)
    show "length (difference p q) \<le> card (set xs)" using assms(1-3) by (simp add: distinct_card)
    show "evaluate (difference p q) x = 0" if "x \<in> set xs" for x
      using that assms(4) by (auto simp: in_set_conv_nth evaluate_difference)
  qed simp
  then show "p ! k = q ! k" if "k < length p" for k
    using that assms(2,3) by (simp add: list_all_length difference_def coefficient_def)
qed (simp add: assms)

lemma top_coefficient:
  assumes "distinct xs" and "length q = length xs" and "xs \<noteq> []"
  shows "(\<Sum>m < length xs. top_weight xs m * evaluate q (xs ! m)) = last q"
proof -
  let ?n = "length xs" and ?u = "\<lambda>m. interpolate xs (unit_vector (length xs) m)"
  let ?p = "map (\<lambda>k. \<Sum>m < ?n. evaluate q (xs ! m) * ?u m ! k) [0..<?n]"
  have ulen: "length (?u m) = ?n" for m using interpolate_length[OF assms(1)] by simp
  have "?p = q"
  proof (rule same_coefficients[OF assms(1) _ assms(2)])
    fix j
    assume j: "j < ?n"
    have "evaluate ?p (xs ! j) = (\<Sum>m < ?n. evaluate q (xs ! m) * evaluate (?u m) (xs ! j))"
      by (simp add: evaluate_sum ulen sum_distrib_right sum_distrib_left mult.assoc) (rule sum.swap)
    also have "\<dots> = (\<Sum>m < ?n. if m = j then evaluate q (xs ! j) else 0)"
      by (rule sum.cong) (use j interpolate_through[OF assms(1)] in \<open>auto simp: unit_vector_def\<close>)
    finally show "evaluate ?p (xs ! j) = evaluate q (xs ! j)" using j by simp
  qed simp
  then have "last q = ?p ! (?n - 1)" using assms by (metis last_conv_nth length_0_conv)
  also have "\<dots> = (\<Sum>m < ?n. evaluate q (xs ! m) * top_weight xs m)"
    using assms(3) ulen by (simp add: top_weight_def last_conv_nth flip: length_greater_0_conv)
  finally show ?thesis by (simp add: mult.commute)
qed

lemma top_power:
  assumes "distinct xs" and "length xs = Suc n" and "k \<le> n"
  shows "(\<Sum>m < length xs. top_weight xs m * xs ! m ^ k) = (if k = n then 1 else 0)"
proof -
  let ?q = "unit_vector (Suc n) k :: 'a list"
  have e: "evaluate ?q x = x ^ k" for x
  proof -
    have "evaluate ?q x = (\<Sum>i < Suc n. if i = k then x ^ k else 0)"
      unfolding evaluate_sum by (rule sum.cong) (auto simp: unit_vector_def simp del: upt_Suc)
    then show ?thesis using assms(3) by (simp del: sum.lessThan_Suc)
  qed
  have "last ?q = (if k = n then 1 else 0)" by (simp add: unit_vector_def)
  moreover have "(\<Sum>m < length xs. top_weight xs m * evaluate ?q (xs ! m)) = last ?q"
    by (rule top_coefficient[OF assms(1)]) (use assms(2) in \<open>auto simp: unit_vector_def\<close>)
  ultimately show ?thesis unfolding e by simp
qed

section \<open>Soundness\<close>

definition slope :: "'s::field list \<Rightarrow> ('p \<Rightarrow> 's list) \<Rightarrow> 'p list \<Rightarrow> nat \<Rightarrow> 's" where
  "slope xs get ps j = (get (ps ! 0) ! j - get (ps ! 1) ! j) / (xs ! 0 - xs ! 1)"

definition offset :: "'s::field list \<Rightarrow> ('p \<Rightarrow> 's list) \<Rightarrow> 'p list \<Rightarrow> nat \<Rightarrow> 's" where
  "offset xs get ps j = get (ps ! 0) ! j - slope xs get ps j * xs ! 0"

definition on_line :: "'s::field list \<Rightarrow> ('p \<Rightarrow> 's list) \<Rightarrow> 'p list \<Rightarrow> nat \<Rightarrow> nat \<Rightarrow> 's" where
  "on_line xs get ps m j = slope xs get ps j * xs ! m + offset xs get ps j"

datatype 's gk_witness = Member nat 's | Dlog 's

text \<open>The extractor: answers off the line through the first two, or a slope that is not a bit, give a discrete
  logarithm; otherwise the slopes are the bits of the index.\<close>

definition gk_extract :: "'s::field list \<Rightarrow> ('s, 'g) gk_proof list \<Rightarrow> 's gk_witness" where
  "gk_extract xs ps =
     (let bits = length xs - 1;
          gap = (\<lambda>j. (xs ! 0 - gk_f (ps ! 0) ! j) - (xs ! 1 - gk_f (ps ! 1) ! j))
      in case List.find (\<lambda>(m, j). gk_f (ps ! m) ! j \<noteq> on_line xs gk_f ps m j) (List.product [0..<length xs] [0..<bits]) of
           Some (m, j) \<Rightarrow> Dlog ((on_line xs gk_za ps m j - gk_za (ps ! m) ! j)
                                 / (gk_f (ps ! m) ! j - on_line xs gk_f ps m j))
         | None \<Rightarrow> (case List.find (\<lambda>j. gap j * slope xs gk_f ps j \<noteq> 0) [0..<bits] of
             Some j \<Rightarrow> Dlog ((gap j * slope xs gk_za ps j - (gk_zb (ps ! 0) ! j - gk_zb (ps ! 1) ! j))
                              / (0 - gap j * slope xs gk_f ps j))
           | None \<Rightarrow> Member (index_of bits (\<lambda>j. slope xs gk_f ps j = 1))
                       (\<Sum>m < length xs. top_weight xs m * gk_zd (ps ! m))))"

lemma commit_dlog:
  assumes Z: "lawful Z" and "commit Z key v r = commit Z key v' r'" and "v \<noteq> v'"
  shows "gen_g key = smul Z ((r' - r) / (v - v')) (gen_h key)"
proof -
  have "smul Z (v - v') (gen_g key) = smul Z (r' - r) (gen_h key)"
    using assms(2) by (simp add: commit_def lawful_smul[OF Z] algebra_simps)
  then have "smul Z (inverse (v - v')) (smul Z (v - v') (gen_g key)) = smul Z (inverse (v - v')) (smul Z (r' - r) (gen_h key))"
    by simp
  then show ?thesis using assms(3) by (simp add: lawful_smul(3,4)[OF Z] divide_inverse mult.commute)
qed

lemma commit_linear:
  "lawful Z \<Longrightarrow> smul Z x (commit Z key l r) + commit Z key a s = commit Z key (l * x + a) (r * x + s)"
  "lawful Z \<Longrightarrow> commit Z key v r - commit Z key v' r' = commit Z key (v - v') (r - r')"
  "lawful Z \<Longrightarrow> smul Z c (commit Z key v r) = commit Z key (c * v) (c * r)"
  by (simp_all add: commit_def lawful_smul algebra_simps)

text \<open>The committed bit and its mask are the line through two answers.\<close>

lemma line_commitments:
  assumes Z: "lawful Z" and "gk_bit_holds Z key (xs ! 0) (ps ! 0) j" and "gk_bit_holds Z key (xs ! 1) (ps ! 1) j"
    and "xs ! 0 \<noteq> xs ! 1" and "gk_cl (ps ! 1) = gk_cl (ps ! 0)" and "gk_ca (ps ! 1) = gk_ca (ps ! 0)"
  shows "gk_cl (ps ! 0) ! j = commit Z key (slope xs gk_f ps j) (slope xs gk_za ps j)"
    and "gk_ca (ps ! 0) ! j = commit Z key (offset xs gk_f ps j) (offset xs gk_za ps j)"
proof -
  show cl: "gk_cl (ps ! 0) ! j = commit Z key (slope xs gk_f ps j) (slope xs gk_za ps j)"
    unfolding slope_def
    by (rule commit_extract[OF Z _ _ assms(4), where t = "gk_ca (ps ! 0) ! j"])
      (use assms(2,3,5,6) in \<open>simp_all add: gk_bit_holds_def add.commute\<close>)
  have "gk_ca (ps ! 0) ! j = commit Z key (gk_f (ps ! 0) ! j) (gk_za (ps ! 0) ! j) - smul Z (xs ! 0) (gk_cl (ps ! 0) ! j)"
    using assms(2) by (simp add: gk_bit_holds_def)
  then show "gk_ca (ps ! 0) ! j = commit Z key (offset xs gk_f ps j) (offset xs gk_za ps j)"
    unfolding cl commit_linear(3)[OF Z] commit_linear(2)[OF Z] offset_def by (simp add: mult.commute)
qed

lemma on_line_commit:
  assumes Z: "lawful Z" and "gk_bit_holds Z key (xs ! 0) (ps ! 0) j" and "gk_bit_holds Z key (xs ! 1) (ps ! 1) j"
    and "xs ! 0 \<noteq> xs ! 1" and "gk_cl (ps ! 1) = gk_cl (ps ! 0)" and "gk_ca (ps ! 1) = gk_ca (ps ! 0)"
    and "gk_bit_holds Z key (xs ! m) (ps ! m) j" and "gk_cl (ps ! m) = gk_cl (ps ! 0)" and "gk_ca (ps ! m) = gk_ca (ps ! 0)"
  shows "commit Z key (gk_f (ps ! m) ! j) (gk_za (ps ! m) ! j) = commit Z key (on_line xs gk_f ps m j) (on_line xs gk_za ps m j)"
proof -
  have "commit Z key (gk_f (ps ! m) ! j) (gk_za (ps ! m) ! j) = smul Z (xs ! m) (gk_cl (ps ! 0) ! j) + gk_ca (ps ! 0) ! j"
    using assms(7-9) by (simp add: gk_bit_holds_def)
  then show ?thesis
    unfolding line_commitments[OF assms(1-6)] commit_linear(1)[OF Z] on_line_def .
qed

lemma gap_commit:
  assumes Z: "lawful Z" and "gk_bit_holds Z key (xs ! 0) (ps ! 0) j" and "gk_bit_holds Z key (xs ! 1) (ps ! 1) j"
    and "xs ! 0 \<noteq> xs ! 1" and "gk_cl (ps ! 1) = gk_cl (ps ! 0)" and "gk_ca (ps ! 1) = gk_ca (ps ! 0)"
    and "gk_cb (ps ! 1) = gk_cb (ps ! 0)"
    and "gap = (xs ! 0 - gk_f (ps ! 0) ! j) - (xs ! 1 - gk_f (ps ! 1) ! j)"
  shows "commit Z key 0 (gk_zb (ps ! 0) ! j - gk_zb (ps ! 1) ! j)
    = commit Z key (gap * slope xs gk_f ps j) (gap * slope xs gk_za ps j)"
proof -
  have "commit Z key 0 (gk_zb (ps ! 0) ! j) - commit Z key 0 (gk_zb (ps ! 1) ! j) = smul Z gap (gk_cl (ps ! 0) ! j)"
    using assms(2,3,5,7,8) by (simp add: gk_bit_holds_def lawful_smul[OF Z])
  then show ?thesis
    unfolding line_commitments[OF assms(1-6)] commit_linear(2,3)[OF Z] by simp
qed

text \<open>When every answer lies on a line whose slope is a bit, the weighted sum of the last equations opens the member.\<close>

lemma member_extract:
  assumes Z: "lawful Z" and "distinct xs" and "length xs = Suc bits" and "length Cs = 2 ^ bits" and "l < 2 ^ bits"
    and ell: "\<And>j. j < bits \<Longrightarrow> ell ! j = (if index_bit l j then 1 else 0)"
    and f: "\<And>m j. m < length xs \<Longrightarrow> j < bits \<Longrightarrow> gk_f (ps ! m) ! j = ell ! j * xs ! m + a ! j"
    and holds: "\<And>m. m < length xs \<Longrightarrow> gk_holds Z key bits Cs (xs ! m) (ps ! m)"
    and gk: "\<And>m. m < length xs \<Longrightarrow> gk_gk (ps ! m) = gk"
  shows "Cs ! l = smul Z (\<Sum>m < length xs. top_weight xs m * gk_zd (ps ! m)) (gen_h key)"
proof -
  let ?w = "top_weight xs"
  define G where "G k = (\<Sum>i < length Cs. smul Z (poly_coefficients i bits a ell ! k) (Cs ! i)) - gk ! k" for k
  have one: "smul Z (gk_zd (ps ! m)) (gen_h key) = (\<Sum>k < bits. smul Z (xs ! m ^ k) (G k)) + smul Z (xs ! m ^ bits) (Cs ! l)"
    if m: "m < length xs" for m
  proof -
    have "gk_value bits (xs ! m) (gk_f (ps ! m)) i = evaluate (poly_coefficients i bits a ell) (xs ! m)" for i
      by (rule gk_value_evaluate) (rule f[OF m])
    then show ?thesis
      using holds[OF m] member_sum[OF Z assms(4,5) ell, of a "xs ! m"] gk[OF m]
      by (simp add: gk_holds_def G_def lawful_smul[OF Z] sum_subtractf algebra_simps)
  qed
  have "smul Z (\<Sum>m < length xs. ?w m * gk_zd (ps ! m)) (gen_h key)
      = (\<Sum>m < length xs. smul Z (?w m) (smul Z (gk_zd (ps ! m)) (gen_h key)))"
    by (simp add: sum_smul[OF Z] lawful_smul[OF Z])
  also have "\<dots> = (\<Sum>m < length xs. smul Z (?w m) ((\<Sum>k < bits. smul Z (xs ! m ^ k) (G k)) + smul Z (xs ! m ^ bits) (Cs ! l)))"
    by (simp add: one)
  also have "\<dots> = (\<Sum>m < length xs. \<Sum>k < bits. smul Z (?w m * xs ! m ^ k) (G k))
      + (\<Sum>m < length xs. smul Z (?w m * xs ! m ^ bits) (Cs ! l))"
    by (simp add: lawful_smul[OF Z] smul_sum[OF Z] sum.distrib)
  also have "(\<Sum>m < length xs. \<Sum>k < bits. smul Z (?w m * xs ! m ^ k) (G k)) = 0"
  proof -
    have "(\<Sum>m < length xs. \<Sum>k < bits. smul Z (?w m * xs ! m ^ k) (G k))
        = (\<Sum>k < bits. smul Z (\<Sum>m < length xs. ?w m * xs ! m ^ k) (G k))"
      by (subst sum.swap) (simp add: sum_smul[OF Z])
    then show ?thesis using top_power[OF assms(2,3)] by (simp add: lawful_smul[OF Z])
  qed
  also have "(\<Sum>m < length xs. smul Z (?w m * xs ! m ^ bits) (Cs ! l)) = Cs ! l"
    using top_power[OF assms(2,3), of bits] by (simp add: sum_smul[OF Z, symmetric] lawful_smul[OF Z])
  finally show ?thesis by simp
qed

lemma find_none_product:
  "List.find P (List.product [0..<n] [0..<b]) = None \<Longrightarrow> m < n \<Longrightarrow> j < b \<Longrightarrow> \<not> P (m, j)"
  by (auto simp: find_None_iff)

lemma find_some_product:
  "List.find P (List.product [0..<n] [0..<b]) = Some (m, j) \<Longrightarrow> m < n \<and> j < b \<and> P (m, j)"
  by (auto simp: find_Some_iff) (metis atLeastLessThan_iff mem_Sigma_iff nth_mem set_product set_upt length_product
      length_upt diff_zero)+

lemma gk_extract_right:
  assumes Z: "lawful Z" and "distinct xs" and "length xs = Suc bits" and "0 < bits" and "length Cs = 2 ^ bits"
    and holds: "\<And>m. m < length xs \<Longrightarrow> gk_holds Z key bits Cs (xs ! m) (ps ! m)"
    and same: "\<And>m. m < length xs \<Longrightarrow> gk_cl (ps ! m) = gk_cl (ps ! 0) \<and> gk_ca (ps ! m) = gk_ca (ps ! 0)
        \<and> gk_cb (ps ! m) = gk_cb (ps ! 0) \<and> gk_gk (ps ! m) = gk_gk (ps ! 0)"
  shows "case gk_extract xs ps of
      Member i z \<Rightarrow> i < length Cs \<and> Cs ! i = smul Z z (gen_h key)
    | Dlog w \<Rightarrow> gen_g key = smul Z w (gen_h key)"
proof -
  let ?l = "slope xs gk_f ps"
  define gap where "gap = (\<lambda>j. (xs ! 0 - gk_f (ps ! 0) ! j) - (xs ! 1 - gk_f (ps ! 1) ! j))"
  have ne: "xs ! 0 \<noteq> xs ! 1" using assms(2-4) by (simp add: nth_eq_iff_index_eq)
  have bit: "gk_bit_holds Z key (xs ! m) (ps ! m) j" if "m < length xs" "j < bits" for m j
    using holds[OF that(1)] that(2) by (simp add: gk_holds_def)
  have two: "0 < length xs" "1 < length xs" using assms(3,4) by simp_all
  define off where "off = List.find (\<lambda>(m, j). gk_f (ps ! m) ! j \<noteq> on_line xs gk_f ps m j)
      (List.product [0..<length xs] [0..<bits])"
  define nb where "nb = List.find (\<lambda>j. gap j * ?l j \<noteq> 0) [0..<bits]"
  have ext: "gk_extract xs ps = (case off of
      Some (m, j) \<Rightarrow> Dlog ((on_line xs gk_za ps m j - gk_za (ps ! m) ! j) / (gk_f (ps ! m) ! j - on_line xs gk_f ps m j))
    | None \<Rightarrow> (case nb of
        Some j \<Rightarrow> Dlog ((gap j * slope xs gk_za ps j - (gk_zb (ps ! 0) ! j - gk_zb (ps ! 1) ! j)) / (0 - gap j * ?l j))
      | None \<Rightarrow> Member (index_of bits (\<lambda>j. ?l j = 1)) (\<Sum>m < length xs. top_weight xs m * gk_zd (ps ! m))))"
    using assms(3) by (simp only: gk_extract_def Let_def off_def nb_def gap_def diff_Suc_1)
  consider (off) m j where "off = Some (m, j)" | (nb) j where "off = None" "nb = Some j" | (member) "off = None" "nb = None"
    by (cases off; cases nb) auto
  then show ?thesis
  proof cases
    case off
    then have mj: "m < length xs" "j < bits" "gk_f (ps ! m) ! j \<noteq> on_line xs gk_f ps m j"
      using find_some_product unfolding off_def by fastforce+
    have "gen_g key = smul Z ((on_line xs gk_za ps m j - gk_za (ps ! m) ! j) / (gk_f (ps ! m) ! j - on_line xs gk_f ps m j)) (gen_h key)"
      by (rule commit_dlog[OF Z on_line_commit[OF Z bit[OF two(1)] bit[OF two(2)] ne _ _ bit[OF mj(1)]] mj(3)])
        (use mj(2) same[OF mj(1)] same[OF two(2)] in simp_all)
    then show ?thesis by (simp add: ext off)
  next
    case nb
    then have j: "j < bits" "gap j * ?l j \<noteq> 0" unfolding nb_def by (auto simp: find_Some_iff)
    have "gen_g key = smul Z ((gap j * slope xs gk_za ps j - (gk_zb (ps ! 0) ! j - gk_zb (ps ! 1) ! j)) / (0 - gap j * ?l j)) (gen_h key)"
      by (rule commit_dlog[OF Z gap_commit[OF Z bit[OF two(1)] bit[OF two(2)] ne _ _ _ fun_cong[OF gap_def]]])
        (use j same[OF two(2)] in auto)
    then show ?thesis by (simp add: ext nb)
  next
    case member
    define l where "l = index_of bits (\<lambda>j. ?l j = 1)"
    have l: "l < 2 ^ bits" unfolding l_def by (rule index_of_bound)
    have line: "gk_f (ps ! m) ! j = ?l j * xs ! m + offset xs gk_f ps j" if "m < length xs" "j < bits" for m j
      using find_none_product[OF member(1)[unfolded off_def] that] by (simp add: on_line_def)
    have bits: "?l j = (if index_bit l j then 1 else 0)" if j: "j < bits" for j
    proof -
      have "gap j = (xs ! 0 - xs ! 1) * (1 - ?l j)" using line[of 0 j] line[of 1 j] j two by (simp add: gap_def algebra_simps)
      moreover have "gap j * ?l j = 0" using member(2) j unfolding nb_def by (auto simp: find_None_iff)
      ultimately have "?l j = 0 \<or> ?l j = 1" using ne by auto
      then show ?thesis using index_bit_index_of[OF j, of "\<lambda>j. ?l j = 1"] by (auto simp: l_def)
    qed
    have "Cs ! l = smul Z (\<Sum>m < length xs. top_weight xs m * gk_zd (ps ! m)) (gen_h key)"
      by (rule member_extract[OF Z assms(2,3,5) l, where ell = "map ?l [0..<bits]" and a = "map (offset xs gk_f ps) [0..<bits]"
            and gk = "gk_gk (ps ! 0)"])
        (use bits line holds same in \<open>simp_all\<close>)
    then show ?thesis using l assms(5) by (simp add: ext member l_def)
  qed
qed

end
