(* ===== verification/Ring_Properties.thy ===== *)
theory Ring_Properties
  imports Adaptor One_Of_Many_Sound Sigma_Properties
begin

text \<open>
  Properties of the registry membership proofs, of the one-out-of-many proofs and of adaptor signatures. The
  witnesses use the rationals of \<open>Sigma_Properties\<close>.
\<close>

section \<open>Membership with a nullifier\<close>

text \<open>C24: A prover that holds the secret of a registered point, and only such a prover, obtains a proof; the
  proof verifies and carries the nullifier of that secret in the scope.\<close>

theorem membership_complete:
  assumes "lawful Z"
  shows "case or_prove Z st secret index draws of
      Inr p \<Rightarrow> index < length (st_points st) \<and> st_points st ! index = smul Z secret (basepoint Z)
        \<and> or_verify Z st p \<and> or_nullifier p = nullifier Z (st_scope st) secret
        \<and> size_bytes p = 32 + 64 * length (st_points st)
    | Inl NotInRegistry \<Rightarrow> length (st_points st) \<le> index
    | Inl SecretDoesNotOpen \<Rightarrow> index < length (st_points st) \<and> st_points st ! index \<noteq> smul Z secret (basepoint Z)"
proof (cases "or_prove Z st secret index draws")
  case (Inl e)
  then show ?thesis by (cases e) (auto simp: or_prove_def Let_def split: if_splits)
next
  case (Inr p)
  have v: "or_verify Z st p" by (rule or_complete[OF assms Inr])
  then have "size_bytes p = 32 + 64 * length (st_points st)"
    by (simp add: size_bytes_def or_verify_def Let_def split: if_splits)
  then show ?thesis using Inr v by (auto elim!: or_prove_Inr)
qed

definition demo_registry :: "rat statement" where
  "demo_registry = \<lparr>registry_id = [], st_points = [5, 7], st_scope = [], context_hash = []\<rparr>"

definition demo_member :: "rat \<Rightarrow> (rat, rat) or_proof" where
  "demo_member c = \<lparr>or_nullifier = 7, challenges = [2, c - 2], responses = [3, 4 + (c - 2) * 7]\<rparr>"

lemma demo_member_proved:
  "or_prove (demo_zk c) demo_registry 7 1 (\<lambda>k. if k = 0 then 4 else if k = 1 then 2 else 3) = Inr (demo_member c)"
  by (simp add: or_prove_def demo_registry_def demo_member_def scope_generator_def or_challenge_def Let_def)
    (simp add: demo_zk_def algebra_simps)

theorem membership_complete_witness:
  "or_verify (demo_zk 9) demo_registry (demo_member 9)"
  using membership_complete[OF demo_lawful[of 9], where st = demo_registry and secret = 7 and index = 1
      and draws = "\<lambda>k. if k = 0 then 4 else if k = 1 then 2 else 3"]
  unfolding demo_member_proved by simp

text \<open>C25: Membership proofs are sound. Let one proof be accepted, and a second one with the transcript oracle reprogrammed, where
  the two proofs send the oracle the same transcript and it answers differently there. Then an explicit function of the
  two proofs gives a registered entry and the secret behind it; the nullifier of the proof is that secret's, and
  every secret behind the entry has the same one. So one entity spends one nullifier per scope, whatever
  wallet it proves from. Points have one compressed form.\<close>

theorem membership_sound:
  assumes "lawful Z" and "inj (compress Z)" and "basepoint Z \<noteq> 0"
    and "or_verify Z st p" and "or_verify (Z\<lparr>merlin := answers\<rparr>) st q"
    and "proof_transcript Z st q = proof_transcript Z st p"
    and "fst (challenge_scalar (Z\<lparr>merlin := answers\<rparr>) (ascii ''c'') (proof_transcript Z st p))
      \<noteq> fst (challenge_scalar Z (ascii ''c'') (proof_transcript Z st p))"
  shows "case or_extract p q of None \<Rightarrow> False
    | Some (i, s) \<Rightarrow> i < length (st_points st) \<and> st_points st ! i = smul Z s (basepoint Z)
        \<and> (\<forall>u. st_points st ! i = smul Z u (basepoint Z) \<longrightarrow> or_nullifier p = nullifier Z (st_scope st) u)"
proof -
  obtain i s where e: "or_extract p q = Some (i, s)" and i: "i < length (st_points st)"
    and s: "st_points st ! i = smul Z s (basepoint Z)" and n: "or_nullifier p = nullifier Z (st_scope st) s"
    by (rule or_sound[OF assms(1,2,4-7)]) (rule that)
  have "\<forall>u. st_points st ! i = smul Z u (basepoint Z) \<longrightarrow> or_nullifier p = nullifier Z (st_scope st) u"
  proof (intro allI impI)
    fix u
    assume "st_points st ! i = smul Z u (basepoint Z)"
    then have "s = u" using secret_unique[OF assms(1) _ assms(3), of s u] s by simp
    then show "or_nullifier p = nullifier Z (st_scope st) u" using n by simp
  qed
  then show ?thesis unfolding e option.case prod.case using i s by (intro conjI)
qed

text \<open>The rationals with an injective byte form, and an oracle whose answer is one byte.\<close>

definition rat_bytes :: "rat \<Rightarrow> bytes" where
  "rat_bytes r = (case quotient_of r of (a, b) \<Rightarrow>
     (if a < 0 then 1 else 0) # replicate (nat \<bar>a\<bar>) 1 @ 0 # replicate (nat b) 1)"

lemma unary_inj: "replicate m 1 @ 0 # xs = replicate n 1 @ 0 # (ys :: bytes) \<Longrightarrow> m = n \<and> xs = ys"
proof (induction m arbitrary: n)
  case 0
  then show ?case by (cases n) simp_all
next
  case (Suc m)
  then show ?case by (cases n) simp_all
qed

lemma rat_bytes_inj: "inj rat_bytes"
proof (rule injI)
  fix r r' assume eq: "rat_bytes r = rat_bytes r'"
  obtain a b a' b' where q: "quotient_of r = (a, b)" "quotient_of r' = (a', b')" by fastforce
  have pos: "0 < b" "0 < b'" using quotient_of_denom_pos[OF q(1)] quotient_of_denom_pos[OF q(2)] .
  have sign: "a < 0 \<longleftrightarrow> a' < 0" using eq by (auto simp: rat_bytes_def q split: if_splits)
  have "replicate (nat \<bar>a\<bar>) 1 @ 0 # replicate (nat b) 1 = (replicate (nat \<bar>a'\<bar>) 1 @ 0 # replicate (nat b') 1 :: bytes)"
    using eq by (simp add: rat_bytes_def q)
  from unary_inj[OF this] have "nat \<bar>a\<bar> = nat \<bar>a'\<bar>" "nat b = nat b'" by (auto dest: arg_cong[where f = length])
  then have "a = a'" "b = b'" using sign pos by auto
  then show "r = r'" using q by (metis quotient_of_inject)
qed

definition member_zk :: "u8 \<Rightarrow> (rat, rat) zk" where
  "member_zk m = (demo_zk 0)\<lparr>compress := rat_bytes, merlin := (\<lambda>_ _ _. [m]), wide_scalar := (\<lambda>bs. of_nat (unat (hd bs)))\<rparr>"

lemma member_accepted: "or_verify (member_zk m) demo_registry (demo_member (of_nat (unat m)))"
  by (simp add: or_verify_def or_challenge_def challenge_scalar_def member_zk_def demo_registry_def demo_member_def)

theorem membership_sound_witness:
  "case or_extract (demo_member 9) (demo_member 4) of None \<Rightarrow> False
    | Some (i, s) \<Rightarrow> i < length (st_points demo_registry)
        \<and> st_points demo_registry ! i = smul (member_zk 9) s (basepoint (member_zk 9))
        \<and> (\<forall>u. st_points demo_registry ! i = smul (member_zk 9) u (basepoint (member_zk 9))
             \<longrightarrow> or_nullifier (demo_member 9) = nullifier (member_zk 9) (st_scope demo_registry) u)"
proof (rule membership_sound[where answers = "\<lambda>_ _ _. [4]"])
  show "lawful (member_zk 9)" using demo_lawful[of 0] by (simp add: lawful_def member_zk_def)
  show "inj (compress (member_zk 9))" by (simp add: member_zk_def rat_bytes_inj)
  show "basepoint (member_zk 9) \<noteq> 0" by (simp add: member_zk_def demo_zk_def)
  show "or_verify (member_zk 9) demo_registry (demo_member 9)" using member_accepted[of 9] by simp
  have "(member_zk 9)\<lparr>merlin := \<lambda>_ _ _. [4]\<rparr> = member_zk 4" by (simp add: member_zk_def)
  then show "or_verify ((member_zk 9)\<lparr>merlin := \<lambda>_ _ _. [4]\<rparr>) demo_registry (demo_member 4)" using member_accepted[of 4] by simp
  show "proof_transcript (member_zk 9) demo_registry (demo_member 4) = proof_transcript (member_zk 9) demo_registry (demo_member 9)"
    by (simp add: proof_transcript_def or_commit_g_def or_commit_h_def demo_member_def demo_registry_def scope_generator_def
        member_zk_def demo_zk_def)
qed (simp add: challenge_scalar_def member_zk_def)

section \<open>One out of many\<close>

text \<open>C26: Groth-Kohlweiss completeness: for a set whose size is a power of two, at least two, and an index within
  it, the prover always produces a proof, and when the indexed commitment opens to zero with the given
  randomness the proof verifies; every other input is refused with the error of the source.\<close>

theorem one_of_many_complete:
  assumes "lawful Z" and "draws_for (trailing_zeros (length Cs)) d"
  shows "case gk_prove Z key T Cs index randomness d of
      Inl SetNotPowerOfTwo \<Rightarrow> \<not> (\<exists>k < 64. length Cs = 2 ^ k) \<or> length Cs < 2
    | Inl IndexOutsideSet \<Rightarrow> (\<exists>k < 64. length Cs = 2 ^ k) \<and> 2 \<le> length Cs \<and> length Cs \<le> index
    | Inr (p, T') \<Rightarrow> index < length Cs
        \<and> (Cs ! index = smul Z randomness (gen_h key) \<longrightarrow> fst (gk_verify Z key T Cs p))"
proof (cases "gk_prove Z key T Cs index randomness d")
  case (Inl e)
  then show ?thesis
    by (cases e) (auto simp: gk_prove_def Let_def is_power_of_two_def list_ex_iff case_prod_unfold split: if_splits)
next
  case (Inr r)
  obtain p T' where r: "r = (p, T')" by fastforce
  have "index < length Cs" using Inr by (auto simp: gk_prove_def Let_def split: if_splits)
  then show ?thesis using gk_complete[OF assms(1) Inr[unfolded r] assms(2)] Inr r by auto
qed

definition demo_draws :: "rat gk_draws" where
  "demo_draws = \<lparr>dr_a = [3], dr_r = [4], dr_s = [6], dr_t = [8], dr_rho = [9]\<rparr>"

definition demo_gk :: "rat \<Rightarrow> (rat, rat) gk_proof" where
  "demo_gk x = \<lparr>gk_cl = [9], gk_ca = [15], gk_cb = [19], gk_gk = [45], gk_f = [x + 3], gk_za = [4 * x + 6],
     gk_zb = [-4], gk_zd = 7 * x - 9\<rparr>"

lemma demo_gk_moves:
  "gk_cl (demo_gk x) = [9]" "gk_ca (demo_gk x) = [15]" "gk_cb (demo_gk x) = [19]" "gk_gk (demo_gk x) = [45]"
  by (simp_all add: demo_gk_def)

lemma two_bits [simp]: "is_power_of_two (Suc (Suc 0))" "trailing_zeros (Suc (Suc 0)) = Suc 0"
  by code_simp+

lemma demo_gk_challenge: "fst (challenge_for (demo_zk x) T Cs p) = x"
  by (simp add: challenge_for_def gk_challenge_def)

lemma demo_gk_proved: "\<exists>T'. gk_prove (demo_zk x) demo_key [] [5, 14] 1 7 demo_draws = Inr (demo_gk x, T')"
  by (simp add: gk_prove_def demo_draws_def demo_gk_def Let_def gk_challenge_def commit_def demo_key_def
      index_bit_def poly_coefficients_def times_linear_def weighted_def)

lemma demo_gk_accepted: "fst (gk_verify (demo_zk x) demo_key [] [5, 14] (demo_gk x))"
proof -
  obtain T' where p: "gk_prove (demo_zk x) demo_key [] [5, 14] 1 7 demo_draws = Inr (demo_gk x, T')"
    using demo_gk_proved by blast
  show ?thesis
    by (rule gk_complete[OF demo_lawful p]) (simp_all add: draws_for_def demo_draws_def demo_key_def)
qed

theorem one_of_many_complete_witness:
  "case gk_prove (demo_zk 5) demo_key [] [5, 14] 1 7 demo_draws of
      Inl SetNotPowerOfTwo \<Rightarrow> \<not> (\<exists>k < 64. length [5 :: rat, 14] = 2 ^ k) \<or> length [5 :: rat, 14] < 2
    | Inl IndexOutsideSet \<Rightarrow> (\<exists>k < 64. length [5 :: rat, 14] = 2 ^ k) \<and> 2 \<le> length [5 :: rat, 14] \<and> length [5 :: rat, 14] \<le> 1
    | Inr (p, T') \<Rightarrow> 1 < length [5 :: rat, 14]
        \<and> ([5, 14] ! 1 = smul (demo_zk 5) 7 (gen_h demo_key) \<longrightarrow> fst (gk_verify (demo_zk 5) demo_key [] [5, 14] p))"
  by (rule one_of_many_complete[OF demo_lawful]) (simp add: draws_for_def demo_draws_def)

lemma gk_holds_smul: "smul Z' = smul Z \<Longrightarrow> gk_holds Z' = gk_holds Z"
  by (simp add: fun_eq_iff gk_holds_def gk_bit_holds_def commit_def)

lemma lawful_cong: "smul Z' = smul Z \<Longrightarrow> lawful Z' = lawful Z"
  by (simp add: lawful_def)

text \<open>C27: Groth-Kohlweiss special soundness: accepted proofs with the same first moves and as many different
  challenges as the index has bits, plus one, give by an explicit function either the position of a
  commitment in the set and the scalar that opens it to zero, or the discrete logarithm between the two
  generators of the key.\<close>

theorem one_of_many_sound:
  assumes "lawful Z" and "length runs = trailing_zeros (length Cs) + 1"
    and "\<And>Z' p. (Z', p) \<in> set runs \<Longrightarrow> smul Z' = smul Z \<and> fst (gk_verify Z' key T Cs p)
          \<and> gk_cl p = cl \<and> gk_ca p = ca \<and> gk_cb p = cb \<and> gk_gk p = gk"
    and "xs = map (\<lambda>(Z', p). fst (challenge_for Z' T Cs p)) runs" and "distinct xs"
  shows "case gk_extract xs (map snd runs) of
      Member i z \<Rightarrow> i < length Cs \<and> Cs ! i = smul Z z (gen_h key)
    | Dlog w \<Rightarrow> gen_g key = smul Z w (gen_h key)"
proof -
  let ?bits = "trailing_zeros (length Cs)"
  have run: "is_power_of_two (length Cs) \<and> 2 \<le> length Cs \<and> gk_holds Z key ?bits Cs (xs ! m) (map snd runs ! m)
      \<and> gk_cl (map snd runs ! m) = cl \<and> gk_ca (map snd runs ! m) = ca \<and> gk_cb (map snd runs ! m) = cb
      \<and> gk_gk (map snd runs ! m) = gk" if m: "m < length xs" for m
  proof -
    obtain Z' p where r: "runs ! m = (Z', p)" by fastforce
    then have in_runs: "(Z', p) \<in> set runs" using m assms(4) by (metis length_map nth_mem)
    then have s: "smul Z' = smul Z" and v: "fst (gk_verify Z' key T Cs p)"
      and first: "gk_cl p = cl" "gk_ca p = ca" "gk_cb p = cb" "gk_gk p = gk" using assms(3) by blast+
    have "lawful Z'" using assms(1) lawful_cong[OF s] by simp
    from v gk_verify_iff[OF this] have "is_power_of_two (length Cs) \<and> 2 \<le> length Cs
        \<and> gk_holds Z key ?bits Cs (fst (challenge_for Z' T Cs p)) p" unfolding gk_holds_smul[OF s] by blast
    then show ?thesis using m r first assms(4) by simp
  qed
  have len: "length xs = Suc ?bits" using assms(2,4) by simp
  have size: "is_power_of_two (length Cs)" "2 \<le> length Cs" using run[of 0] len by simp_all
  have pow: "length Cs = 2 ^ ?bits" by (rule power_of_two_bits[OF size(1)])
  have "0 < ?bits" using pow size(2) by (cases "?bits = 0") auto
  then show ?thesis
    by (intro gk_extract_right[OF assms(1,5) len _ pow]) (use run len in auto)
qed

theorem one_of_many_sound_witness:
  "case gk_extract [5, 6] [demo_gk 5, demo_gk 6] of
      Member i z \<Rightarrow> i < length [5 :: rat, 14] \<and> [5, 14] ! i = smul (demo_zk 5) z (gen_h demo_key)
    | Dlog w \<Rightarrow> gen_g demo_key = smul (demo_zk 5) w (gen_h demo_key)"
proof -
  let ?runs = "[(demo_zk 5, demo_gk 5), (demo_zk 6, demo_gk 6)]"
  have "case gk_extract [5, 6] (map snd ?runs) of
      Member i z \<Rightarrow> i < length [5 :: rat, 14] \<and> [5, 14] ! i = smul (demo_zk 5) z (gen_h demo_key)
    | Dlog w \<Rightarrow> gen_g demo_key = smul (demo_zk 5) w (gen_h demo_key)"
  proof (rule one_of_many_sound[OF demo_lawful])
    show "smul Z' = smul (demo_zk 5) \<and> fst (gk_verify Z' demo_key [] [5, 14] p)
        \<and> gk_cl p = [9] \<and> gk_ca p = [15] \<and> gk_cb p = [19] \<and> gk_gk p = [45]" if "(Z', p) \<in> set ?runs" for Z' p
      using that demo_gk_accepted by (auto simp: demo_gk_moves)
  qed (simp_all add: demo_gk_challenge)
  then show ?thesis by simp
qed

section \<open>Adaptor signatures\<close>

text \<open>C28: The exchange an adaptor signature stands for: an honest pre-signature passes the check; a checked
  pre-signature, whoever made it, is finished by a secret exactly when that secret stands behind the adaptor's
  point; and any signature that appears under the adapted nonce hands that secret to the holder of the
  pre-signature.\<close>

theorem adaptor_exchange:
  assumes "lawful Z" and "verify_pre_signature Z key Y m pre"
  shows "verify_pre_signature Z (public_key Z x) Y m (pre_sign Z x Y m r)
    \<and> (\<forall>a. ad_point a = Y \<longrightarrow> (adaptor_verify Z key m (adapt pre a) \<longleftrightarrow> Y = public_key Z (ad_secret a)))
    \<and> (\<forall>sig. adaptor_verify Z key m sig \<longrightarrow> sig_r sig = pre_r pre + Y \<longrightarrow> Y = public_key Z (extract_secret pre sig))"
proof (intro conjI allI impI)
  show "verify_pre_signature Z (public_key Z x) Y m (pre_sign Z x Y m r)" by (rule pre_sign_verifies[OF assms(1)])
next
  fix a :: "('a, 'b) adaptor"
  assume Y: "ad_point a = Y"
  show "adaptor_verify Z key m (adapt pre a) \<longleftrightarrow> Y = public_key Z (ad_secret a)"
    using adapt_verifies_iff[OF assms(1), of key a m pre] assms(2) by (simp add: Y public_key_def)
next
  fix sig :: "('a, 'b) signature"
  assume "adaptor_verify Z key m sig" and "sig_r sig = pre_r pre + Y"
  then show "Y = public_key Z (extract_secret pre sig)"
    unfolding public_key_def by (rule published_gives_secret[OF assms])
qed

theorem adaptor_exchange_witness:
  "adaptor_verify (demo_zk 5) (public_key (demo_zk 5) 8) [] (adapt (pre_sign (demo_zk 5) 8 3 [] 4) (adaptor_random (demo_zk 5) 3))"
proof -
  have "verify_pre_signature (demo_zk 5) (public_key (demo_zk 5) 8) 3 [] (pre_sign (demo_zk 5) 8 3 [] 4)"
    by (rule pre_sign_verifies[OF demo_lawful])
  from adaptor_exchange[OF demo_lawful this] show ?thesis
    by (simp add: adaptor_random_def public_key_def demo_zk_def)
qed

end
