(* ===== verification/Dsl.thy ===== *)
theory Dsl
  imports Ordered_Maps
begin

text \<open>
  \<^verbatim>\<open>src/rust/qomm-dsl/src/interval.rs\<close> and \<^verbatim>\<open>parse.rs\<close>: interval arithmetic on \<open>i128\<close>, and the tokenizer and
  parser of the price-rule language. Source text is ASCII, a list of \<open>char\<close>. The argument \<open>checks\<close> says whether the
  build checks arithmetic overflow: with checks an overflow panics (\<open>Panicked\<close>), without them it wraps. The text
  of an error is represented by a constructor with its arguments. The recursive descent runs on fuel, since a
  call hands on what an earlier call left over; \<open>OutOfFuel\<close> is never returned by \<open>parse_expression\<close>
  (\<open>Dsl_Parser\<close>).
\<close>

section \<open>Errors and integers\<close>

text \<open>The errors of the tokenizer and parser, of the declarations, of the checker and of evaluation and
  registration.\<close>

datatype syntax_error =
  IntegerDoesNotFit string
| NoDivision
| NotPartOfLanguage char
| EmptyExpression
| TrailingInput
| ChainedComparison
| Expected string
| OnlyIntrinsicsCalled

datatype declaration_error =
  ExpectedDeclarationOrAssignment
| BadOutputName string
| AlreadyDeclared string
| NeedsRange string
| NoClosingBracket string
| ExpectedTwoBounds string
| NotAnInteger string string
| EmptyRange string int int
| ForbiddenInput string
| NoDeclarations

datatype check_error =
  ForbiddenName string
| NotDeclared string
| DegreeAboveTwo
| AndNeedsConditions
| OnlyIntrinsics
| TakesTwoArguments string
| ClampArguments
| ClampBoundsNotConstant
| SignedArguments
| SignedNeedsCondition
| UnknownIntrinsic string
| NeverUsed "string list"

datatype late_error =
  NoValue string
| CannotEvaluate string
| BindingMissing string
| DeclaredBindingMissing string
| DigestMarkers
| DigestNotCanonical
| GeneratedFromAnotherRule

datatype rule_error =
  Panicked
| OutOfFuel
| EmptyInterval int int
| Syntax nat syntax_error
| Declared nat declaration_error
| NoParameters
| NoOutputs
| Refused check_error
| Late late_error

definition fits :: "int \<Rightarrow> bool" where
  "fits v \<longleftrightarrow> - (2 ^ 127) \<le> v \<and> v < 2 ^ 127"

definition wrap :: "int \<Rightarrow> int" where
  "wrap v = (v + 2 ^ 127) mod 2 ^ 128 - 2 ^ 127"

definition arith :: "bool \<Rightarrow> int \<Rightarrow> rule_error + int" where
  "arith checks v = (if fits v then Inr v else if checks then Inl Panicked else Inr (wrap v))"

section \<open>Intervals\<close>

record interval =
  lo :: int
  hi :: int

definition interval_new :: "int \<Rightarrow> int \<Rightarrow> rule_error + interval" where
  "interval_new l h = (if h < l then Inl (EmptyInterval l h) else Inr \<lparr>lo = l, hi = h\<rparr>)"

definition point :: "int \<Rightarrow> interval" where
  "point v = \<lparr>lo = v, hi = v\<rparr>"

definition is_condition :: "interval \<Rightarrow> bool" where
  "is_condition i \<longleftrightarrow> lo i = 0 \<and> hi i = 1"

definition plus :: "bool \<Rightarrow> interval \<Rightarrow> interval \<Rightarrow> rule_error + interval" where
  "plus checks i j =
     and_then (arith checks (lo i + lo j)) (\<lambda>l.
     and_then (arith checks (hi i + hi j)) (\<lambda>h. Inr \<lparr>lo = l, hi = h\<rparr>))"

definition minus :: "bool \<Rightarrow> interval \<Rightarrow> interval \<Rightarrow> rule_error + interval" where
  "minus checks i j =
     and_then (arith checks (lo i - hi j)) (\<lambda>l.
     and_then (arith checks (hi i - lo j)) (\<lambda>h. Inr \<lparr>lo = l, hi = h\<rparr>))"

definition times :: "bool \<Rightarrow> interval \<Rightarrow> interval \<Rightarrow> rule_error + interval" where
  "times checks i j =
     and_then (arith checks (lo i * lo j)) (\<lambda>a.
     and_then (arith checks (lo i * hi j)) (\<lambda>b.
     and_then (arith checks (hi i * lo j)) (\<lambda>c.
     and_then (arith checks (hi i * hi j)) (\<lambda>d.
       Inr \<lparr>lo = min (min (min a b) c) d, hi = max (max (max a b) c) d\<rparr>))))"

definition negated :: "bool \<Rightarrow> interval \<Rightarrow> rule_error + interval" where
  "negated checks i =
     and_then (arith checks (- hi i)) (\<lambda>l.
     and_then (arith checks (- lo i)) (\<lambda>h. Inr \<lparr>lo = l, hi = h\<rparr>))"

definition union :: "interval \<Rightarrow> interval \<Rightarrow> interval" where
  "union i j = \<lparr>lo = min (lo i) (lo j), hi = max (hi i) (hi j)\<rparr>"

text \<open>\<open>128 - leading_zeros\<close> of an unsigned number: the length of its binary representation.\<close>

fun bit_length :: "nat \<Rightarrow> nat" where
  "bit_length n = (if n = 0 then 0 else Suc (bit_length (n div 2)))"

declare bit_length.simps [simp del]

definition width_bits :: "interval \<Rightarrow> nat" where
  "width_bits i =
     (let magnitude = max (nat \<bar>lo i\<bar>) (nat \<bar>hi i\<bar>) in max (bit_length magnitude + 1) 2)"

section \<open>Expressions\<close>

definition FORBIDDEN :: "string list" where
  "FORBIDDEN = [''wallet'', ''address'', ''entity'', ''entity_id'', ''user'', ''user_id'', ''client'', ''counterparty'',
     ''name'', ''kyc_id'', ''nullifier'', ''ip'']"

definition INTRINSICS :: "string list" where
  "INTRINSICS = [''min'', ''max'', ''clamp'', ''signed'']"

datatype cmp = Lt | Le | Gt | Ge | Eq | Ne

fun cmp_str :: "cmp \<Rightarrow> string" where
  "cmp_str Lt = ''<''"
| "cmp_str Le = ''<=''"
| "cmp_str Gt = ''>''"
| "cmp_str Ge = ''>=''"
| "cmp_str Eq = ''==''"
| "cmp_str Ne = ''!=''"

datatype expr =
  Const int
| Name string
| Neg expr
| Add expr expr
| Sub expr expr
| Mul expr expr
| Compare expr cmp expr
| And "expr list"
| Call string "expr list"

fun join :: "string \<Rightarrow> string list \<Rightarrow> string" where
  "join sep [] = ''''"
| "join sep [s] = s"
| "join sep (s # t # ts) = s @ sep @ join sep (t # ts)"

fun render :: "expr \<Rightarrow> string" where
  "render (Const v) = show_int v"
| "render (Name n) = n"
| "render (Neg e) = ''-'' @ render e"
| "render (Add a b) = render a @ '' + '' @ render b"
| "render (Sub a b) = render a @ '' - '' @ render b"
| "render (Mul a b) = render a @ '' * '' @ render b"
| "render (Compare a oper b) = render a @ '' '' @ cmp_str oper @ '' '' @ render b"
| "render (And parts) = join '' and '' (map render parts)"
| "render (Call f args) = f @ ''('' @ join '', '' (map render args) @ '')''"

fun names :: "expr \<Rightarrow> string list" where
  "names (Const v) = []"
| "names (Name n) = [n]"
| "names (Neg e) = names e"
| "names (Add a b) = names a @ names b"
| "names (Sub a b) = names a @ names b"
| "names (Mul a b) = names a @ names b"
| "names (Compare a oper b) = names a @ names b"
| "names (And parts) = concat (map names parts)"
| "names (Call f args) = concat (map names args)"

section \<open>Tokens\<close>

datatype token =
  TInt int
| Ident string
| Plus
| Minus
| Star
| LParen
| RParen
| Comma
| TCmp cmp
| TAnd

definition is_whitespace :: "char \<Rightarrow> bool" where
  "is_whitespace c \<longleftrightarrow> of_char c = (32 :: nat) \<or> 9 \<le> (of_char c :: nat) \<and> (of_char c :: nat) \<le> 13"

definition is_ascii_digit :: "char \<Rightarrow> bool" where
  "is_ascii_digit c \<longleftrightarrow> 48 \<le> (of_char c :: nat) \<and> (of_char c :: nat) \<le> 57"

definition is_alphabetic :: "char \<Rightarrow> bool" where
  "is_alphabetic c \<longleftrightarrow> 65 \<le> (of_char c :: nat) \<and> (of_char c :: nat) \<le> 90
     \<or> 97 \<le> (of_char c :: nat) \<and> (of_char c :: nat) \<le> 122"

definition word_start :: "char \<Rightarrow> bool" where
  "word_start c \<longleftrightarrow> is_alphabetic c \<or> c = CHR ''_''"

definition word_part :: "char \<Rightarrow> bool" where
  "word_part c \<longleftrightarrow> is_alphabetic c \<or> is_ascii_digit c \<or> c = CHR ''_''"

definition digits_value :: "string \<Rightarrow> int" where
  "digits_value ds = foldl (\<lambda>v c. v * 10 + (int (of_char c) - 48)) 0 ds"

definition two_char_token :: "string \<Rightarrow> token option" where
  "two_char_token s =
     (if s = ''<='' then Some (TCmp Le) else if s = ''>='' then Some (TCmp Ge)
      else if s = ''=='' then Some (TCmp Eq) else if s = ''!='' then Some (TCmp Ne) else None)"

definition one_char_token :: "nat \<Rightarrow> char \<Rightarrow> rule_error + token" where
  "one_char_token lineno c =
     (if c = CHR ''+'' then Inr Plus else if c = CHR ''-'' then Inr Minus else if c = CHR ''*'' then Inr Star
      else if c = CHR ''('' then Inr LParen else if c = CHR '')'' then Inr RParen else if c = CHR '','' then Inr Comma
      else if c = CHR ''<'' then Inr (TCmp Lt) else if c = CHR ''>'' then Inr (TCmp Gt)
      else if c = CHR ''/'' then Inl (Syntax lineno NoDivision) else Inl (Syntax lineno (NotPartOfLanguage c)))"

function tokenize :: "nat \<Rightarrow> string \<Rightarrow> rule_error + token list" where
  "tokenize lineno [] = Inr []"
| "tokenize lineno (c # cs) =
     (if is_whitespace c then tokenize lineno cs
      else if is_ascii_digit c then
        (let ds = takeWhile is_ascii_digit (c # cs)
         in if digits_value ds < 2 ^ 127
            then and_then (tokenize lineno (dropWhile is_ascii_digit cs)) (\<lambda>ts. Inr (TInt (digits_value ds) # ts))
            else Inl (Syntax lineno (IntegerDoesNotFit ds)))
      else if word_start c then
        (let word = takeWhile word_part (c # cs)
         in and_then (tokenize lineno (dropWhile word_part cs)) (\<lambda>ts.
              Inr ((if word = ''and'' then TAnd else Ident word) # ts)))
      else
        (case two_char_token (take 2 (c # cs)) of
           Some t \<Rightarrow> and_then (tokenize lineno (drop 1 cs)) (\<lambda>ts. Inr (t # ts))
         | None \<Rightarrow> and_then (one_char_token lineno c) (\<lambda>t.
                     and_then (tokenize lineno cs) (\<lambda>ts. Inr (t # ts)))))"
  by pat_completeness auto
termination
  by (relation "measure (length \<circ> snd)") (auto simp: le_imp_less_Suc length_dropWhile_le)

section \<open>The parser\<close>

text \<open>The parser's position is what is left of the tokens. \<open>peek\<close> is the first of them, \<open>eat\<close> drops it when it is the
  expected one. The loops of the source are the functions \<open>conj_loop\<close>, \<open>sum_loop\<close>, \<open>product_loop\<close> and \<open>args_loop\<close>.\<close>

type_synonym 'a parsed = "rule_error + 'a \<times> token list"

definition eat :: "token \<Rightarrow> token list \<Rightarrow> token list option" where
  "eat t ts = (case ts of u # us \<Rightarrow> if u = t then Some us else None | [] \<Rightarrow> None)"

function (sequential) conjunction :: "nat \<Rightarrow> nat \<Rightarrow> token list \<Rightarrow> expr parsed"
and conj_loop :: "nat \<Rightarrow> nat \<Rightarrow> expr list \<Rightarrow> token list \<Rightarrow> expr list parsed"
and comparison :: "nat \<Rightarrow> nat \<Rightarrow> token list \<Rightarrow> expr parsed"
and sum_of :: "nat \<Rightarrow> nat \<Rightarrow> token list \<Rightarrow> expr parsed"
and sum_loop :: "nat \<Rightarrow> nat \<Rightarrow> expr \<Rightarrow> token list \<Rightarrow> expr parsed"
and product_of :: "nat \<Rightarrow> nat \<Rightarrow> token list \<Rightarrow> expr parsed"
and product_loop :: "nat \<Rightarrow> nat \<Rightarrow> expr \<Rightarrow> token list \<Rightarrow> expr parsed"
and unary :: "nat \<Rightarrow> nat \<Rightarrow> token list \<Rightarrow> expr parsed"
and atom :: "nat \<Rightarrow> nat \<Rightarrow> token list \<Rightarrow> expr parsed"
and args_loop :: "nat \<Rightarrow> nat \<Rightarrow> expr list \<Rightarrow> token list \<Rightarrow> expr list parsed" where
  "conjunction 0 lineno ts = Inl OutOfFuel"
| "conjunction (Suc n) lineno ts =
     and_then (comparison n lineno ts) (\<lambda>(first, us).
       if eat TAnd us = None then Inr (first, us)
       else and_then (conj_loop n lineno [first] us) (\<lambda>(parts, vs). Inr (And parts, vs)))"
| "conj_loop 0 lineno parts ts = Inl OutOfFuel"
| "conj_loop (Suc n) lineno parts ts =
     (case eat TAnd ts of
        None \<Rightarrow> Inr (parts, ts)
      | Some us \<Rightarrow> and_then (comparison n lineno us) (\<lambda>(p, vs). conj_loop n lineno (parts @ [p]) vs))"
| "comparison 0 lineno ts = Inl OutOfFuel"
| "comparison (Suc n) lineno ts =
     and_then (sum_of n lineno ts) (\<lambda>(left, us).
       case us of
         TCmp oper # vs \<Rightarrow>
           and_then (sum_of n lineno vs) (\<lambda>(right, ws).
             case ws of
               TCmp _ # _ \<Rightarrow> Inl (Syntax lineno ChainedComparison)
             | _ \<Rightarrow> Inr (Compare left oper right, ws))
       | _ \<Rightarrow> Inr (left, us))"
| "sum_of 0 lineno ts = Inl OutOfFuel"
| "sum_of (Suc n) lineno ts = and_then (product_of n lineno ts) (\<lambda>(left, us). sum_loop n lineno left us)"
| "sum_loop 0 lineno left ts = Inl OutOfFuel"
| "sum_loop (Suc n) lineno left ts =
     (case eat Plus ts of
        Some us \<Rightarrow> and_then (product_of n lineno us) (\<lambda>(right, vs). sum_loop n lineno (Add left right) vs)
      | None \<Rightarrow>
          (case eat Minus ts of
             Some us \<Rightarrow> and_then (product_of n lineno us) (\<lambda>(right, vs). sum_loop n lineno (Sub left right) vs)
           | None \<Rightarrow> Inr (left, ts)))"
| "product_of 0 lineno ts = Inl OutOfFuel"
| "product_of (Suc n) lineno ts = and_then (unary n lineno ts) (\<lambda>(left, us). product_loop n lineno left us)"
| "product_loop 0 lineno left ts = Inl OutOfFuel"
| "product_loop (Suc n) lineno left ts =
     (case eat Star ts of
        Some us \<Rightarrow> and_then (unary n lineno us) (\<lambda>(right, vs). product_loop n lineno (Mul left right) vs)
      | None \<Rightarrow> Inr (left, ts))"
| "unary 0 lineno ts = Inl OutOfFuel"
| "unary (Suc n) lineno ts =
     (case eat Minus ts of
        Some us \<Rightarrow> and_then (unary n lineno us) (\<lambda>(e, vs). Inr (Neg e, vs))
      | None \<Rightarrow> (case eat Plus ts of Some us \<Rightarrow> unary n lineno us | None \<Rightarrow> atom n lineno ts))"
| "atom 0 lineno ts = Inl OutOfFuel"
| "atom (Suc n) lineno ts =
     (case ts of
        TInt v # us \<Rightarrow> Inr (Const v, us)
      | LParen # us \<Rightarrow>
          and_then (conjunction n lineno us) (\<lambda>(inner, vs).
            case eat RParen vs of
              Some ws \<Rightarrow> Inr (inner, ws)
            | None \<Rightarrow> Inl (Syntax lineno (Expected ''a closing parenthesis'')))
      | Ident f # us \<Rightarrow>
          (case eat LParen us of
             None \<Rightarrow> Inr (Name f, us)
           | Some vs \<Rightarrow>
               if f \<notin> set INTRINSICS then Inl (Syntax lineno OnlyIntrinsicsCalled)
               else
                 (case eat RParen vs of
                    Some ws \<Rightarrow> Inr (Call f [], ws)
                  | None \<Rightarrow> and_then (args_loop n lineno [] vs) (\<lambda>(args, ws). Inr (Call f args, ws))))
      | _ \<Rightarrow> Inl (Syntax lineno (Expected ''a value'')))"
| "args_loop 0 lineno args ts = Inl OutOfFuel"
| "args_loop (Suc n) lineno args ts =
     and_then (conjunction n lineno ts) (\<lambda>(a, us).
       case eat RParen us of
         Some vs \<Rightarrow> Inr (args @ [a], vs)
       | None \<Rightarrow>
           (case eat Comma us of
              Some vs \<Rightarrow> args_loop n lineno (args @ [a]) vs
            | None \<Rightarrow> Inl (Syntax lineno (Expected '',' or ')''))))"
  by pat_completeness auto
termination
  by (relation "measure (case_sum (case_sum (case_sum fst fst) (case_sum fst (case_sum fst fst)))
      (case_sum (case_sum fst fst) (case_sum fst (case_sum fst fst))))") auto

definition parser_fuel :: "token list \<Rightarrow> nat" where
  "parser_fuel ts = 10 * length ts + 6"

definition parse_expression :: "nat \<Rightarrow> string \<Rightarrow> rule_error + expr" where
  "parse_expression lineno text =
     and_then (tokenize lineno text) (\<lambda>tokens.
       if tokens = [] then Inl (Syntax lineno EmptyExpression)
       else and_then (conjunction (parser_fuel tokens) lineno tokens) (\<lambda>(e, rest).
         if rest \<noteq> [] then Inl (Syntax lineno TrailingInput) else Inr e))"

end
