(* ===== verification/Dsl_Rule.thy ===== *)
theory Dsl_Rule
  imports Dsl
begin

text \<open>
  \<^verbatim>\<open>src/rust/qomm-dsl/src/rule.rs\<close>: declarations, the analysis of a rule and what it derives. A method that indexes
  a map or calls \<open>expect\<close> returns an option, \<open>None\<close> where it panics.
\<close>

section \<open>Declarations and rules\<close>

datatype role = Param | State | Input

fun is_secret :: "role \<Rightarrow> bool" where
  "is_secret Param = True"
| "is_secret State = True"
| "is_secret Input = False"

definition role_parse :: "string \<Rightarrow> role option" where
  "role_parse w =
     (if w = ''param'' then Some Param else if w = ''state'' then Some State
      else if w = ''input'' then Some Input else None)"

fun role_str :: "role \<Rightarrow> string" where
  "role_str Param = ''param''"
| "role_str State = ''state''"
| "role_str Input = ''input''"

record decl =
  decl_name :: string
  decl_interval :: interval
  decl_role :: role

record obligation =
  ob_kind :: string
  ob_target :: string
  ob_detail :: string
  ob_bits :: nat

type_synonym declarations = "(string, decl) btree"

record rule =
  rule_name :: string
  rule_declarations :: declarations
  rule_outputs :: "(string \<times> expr) list"
  rule_source :: string
  rule_intervals :: "(string, interval) btree"
  rule_degrees :: "(string, nat) btree"
  rule_obligations :: "obligation list"

definition secrets :: "rule \<Rightarrow> string list" where
  "secrets r = map decl_name (filter (\<lambda>d. is_secret (decl_role d)) (map snd (rule_declarations r)))"

definition inputs :: "rule \<Rightarrow> string list" where
  "inputs r = map decl_name (filter (\<lambda>d. decl_role d = Input) (map snd (rule_declarations r)))"

fun combine_outputs :: "(string, interval) btree \<Rightarrow> interval option \<Rightarrow> (string \<times> expr) list \<Rightarrow> interval option option" where
  "combine_outputs intervals combined [] = Some combined"
| "combine_outputs intervals combined ((nm, e) # outs) =
     (case bt_get intervals nm of
        None \<Rightarrow> None
      | Some i \<Rightarrow> combine_outputs intervals (Some (case combined of None \<Rightarrow> i | Some c \<Rightarrow> union c i)) outs)"

definition output_interval :: "rule \<Rightarrow> interval option" where
  "output_interval r = Option.bind (combine_outputs (rule_intervals r) None (rule_outputs r)) id"

definition required_bits :: "rule \<Rightarrow> nat option" where
  "required_bits r = map_option width_bits (output_interval r)"

definition max_degree :: "rule \<Rightarrow> nat" where
  "max_degree r = foldr max (map snd (rule_degrees r)) 0"

section \<open>Text\<close>

definition split_once :: "char \<Rightarrow> string \<Rightarrow> (string \<times> string) option" where
  "split_once c s = (if c \<in> set s then Some (takeWhile (\<lambda>d. d \<noteq> c) s, drop 1 (dropWhile (\<lambda>d. d \<noteq> c) s)) else None)"

definition trim_start :: "string \<Rightarrow> string" where
  "trim_start s = dropWhile is_whitespace s"

definition trim_end :: "string \<Rightarrow> string" where
  "trim_end s = rev (dropWhile is_whitespace (rev s))"

definition trim :: "string \<Rightarrow> string" where
  "trim s = trim_end (trim_start s)"

definition newline :: char where
  "newline = char_of (10 :: nat)"

definition strip_cr :: "string \<Rightarrow> string" where
  "strip_cr s = (if s \<noteq> [] \<and> last s = char_of (13 :: nat) then butlast s else s)"

function lines :: "string \<Rightarrow> string list" where
  "lines s =
     (if s = [] then []
      else
        let l = takeWhile (\<lambda>c. c \<noteq> newline) s; rest = dropWhile (\<lambda>c. c \<noteq> newline) s
        in if rest = [] then [l] else strip_cr l # lines (drop 1 rest))"
  by pat_completeness auto
termination
proof (relation "measure length", goal_cases)
  case (2 s l rest)
  then have "length rest \<le> length s" "0 < length rest" by (simp_all add: length_dropWhile_le)
  then have "length (drop 1 rest) < length s" unfolding length_drop by linarith
  then show ?case by simp
qed simp

declare lines.simps [simp del]

definition is_identifier :: "string \<Rightarrow> bool" where
  "is_identifier s \<longleftrightarrow> (case s of [] \<Rightarrow> False | c # cs \<Rightarrow> word_start c \<and> list_all word_part cs)"

definition parse_i128 :: "string \<Rightarrow> int option" where
  "parse_i128 s =
     (let (sign, ds) = (case s of
            c # cs \<Rightarrow> if c = CHR ''-'' then (-1, cs) else if c = CHR ''+'' then (1, cs) else (1, s)
          | [] \<Rightarrow> (1, []))
      in if ds = [] \<or> \<not> list_all is_ascii_digit ds \<or> \<not> fits (sign * digits_value ds) then None
         else Some (sign * digits_value ds))"

section \<open>Parsing declarations and rules\<close>

definition parse_bound :: "nat \<Rightarrow> string \<Rightarrow> string \<Rightarrow> rule_error + int" where
  "parse_bound lineno nm t = ok_or (parse_i128 (trim t)) (Declared lineno (NotAnInteger nm (trim t)))"

definition parse_range :: "role \<Rightarrow> nat \<Rightarrow> string \<Rightarrow> string \<Rightarrow> rule_error + decl \<times> string" where
  "parse_range role lineno nm remainder =
     (case remainder of
        c # cs \<Rightarrow>
          if c \<noteq> CHR ''['' then Inl (Declared lineno (NeedsRange nm))
          else
            (case split_once (CHR '']'') cs of
               None \<Rightarrow> Inl (Declared lineno (NoClosingBracket nm))
             | Some (bounds, after) \<Rightarrow>
                 and_then (ok_or (split_once (CHR '','') bounds) (Declared lineno (ExpectedTwoBounds nm))) (\<lambda>(l, h).
                 and_then (parse_bound lineno nm l) (\<lambda>l.
                 and_then (parse_bound lineno nm h) (\<lambda>h.
                 and_then (map_err (\<lambda>_. Declared lineno (EmptyRange nm l h)) (interval_new l h)) (\<lambda>i.
                   if nm \<in> set FORBIDDEN then Inl (Declared lineno (ForbiddenInput nm))
                   else Inr (\<lparr>decl_name = nm, decl_interval = i, decl_role = role\<rparr>, after))))))
      | [] \<Rightarrow> Inl (Declared lineno (NeedsRange nm)))"

lemma parse_range_shorter:
  "parse_range role lineno nm remainder = Inr (d, after) \<Longrightarrow> length after < length remainder"
  by (auto simp: parse_range_def split_once_def result_simps split: list.splits if_splits option.splits)
    (metis One_nat_def diff_le_self le_imp_less_Suc le_trans length_dropWhile_le)

text \<open>The tokens of the line are read from the left; after a declaration the loop resumes behind its bracket.\<close>

function parse_declarations_loop :: "role \<Rightarrow> nat \<Rightarrow> decl list \<Rightarrow> string \<Rightarrow> rule_error + decl list" where
  "parse_declarations_loop role lineno acc [] = Inr acc"
| "parse_declarations_loop role lineno acc (c # cs) =
     (if \<not> word_start c then parse_declarations_loop role lineno acc cs
      else
        (case parse_range role lineno (takeWhile word_part (c # cs)) (trim_start (dropWhile word_part cs)) of
           Inl e \<Rightarrow> Inl e
         | Inr (d, after) \<Rightarrow> parse_declarations_loop role lineno (acc @ [d]) after))"
  by pat_completeness auto
termination
proof (relation "measure (\<lambda>(_, _, _, s). length s)", goal_cases)
  case (3 role lineno acc c cs r d after)
  then have "length after < length (trim_start (dropWhile word_part cs))" using parse_range_shorter by metis
  also have "\<dots> \<le> length cs" unfolding trim_start_def by (meson le_trans length_dropWhile_le)
  finally show ?case by simp
qed simp_all

definition parse_declarations :: "role \<Rightarrow> string \<Rightarrow> nat \<Rightarrow> rule_error + decl list" where
  "parse_declarations role rest lineno =
     and_then (parse_declarations_loop role lineno [] rest) (\<lambda>ds.
       if ds = [] then Inl (Declared lineno NoDeclarations) else Inr ds)"

text \<open>One line of a rule: a declaration or an assignment.\<close>

definition parse_line ::
  "nat \<Rightarrow> string \<Rightarrow> declarations \<times> (string \<times> expr) list \<Rightarrow> rule_error + declarations \<times> (string \<times> expr) list" where
  "parse_line lineno raw = (\<lambda>(decls, outs).
     let line = trim (takeWhile (\<lambda>c. c \<noteq> CHR ''#'') raw)
     in if line = [] then Inr (decls, outs)
        else
          let (head, rest) = (case split_once (CHR '' '') line of None \<Rightarrow> (line, []) | Some p \<Rightarrow> p)
          in case role_parse head of
               Some role \<Rightarrow>
                 and_then (parse_declarations role rest lineno) (\<lambda>ds.
                   Inr (foldl (\<lambda>m d. bt_insert (decl_name d) d m) decls ds, outs))
             | None \<Rightarrow>
                 and_then (ok_or (split_once (CHR ''='') line) (Declared lineno ExpectedDeclarationOrAssignment)) (\<lambda>(target, expression).
                   let target = trim target
                   in if target = [] \<or> \<not> is_identifier target then Inl (Declared lineno (BadOutputName target))
                      else if bt_contains decls target then Inl (Declared lineno (AlreadyDeclared target))
                      else and_then (parse_expression lineno (trim expression)) (\<lambda>e.
                        Inr (decls, outs @ [(target, e)]))))"

definition parse_rule :: "string \<Rightarrow> string \<Rightarrow> rule_error + rule" where
  "parse_rule source nm =
     and_then (try_fold (\<lambda>s (index, raw). parse_line (Suc index) raw s) ([], []) (enumerate 0 (lines source))) (\<lambda>(decls, outs).
       if decls = [] then Inl NoParameters
       else if outs = [] then Inl NoOutputs
       else Inr \<lparr>rule_name = nm, rule_declarations = decls, rule_outputs = outs, rule_source = source,
                 rule_intervals = [], rule_degrees = [], rule_obligations = []\<rparr>)"

section \<open>Analysis\<close>

type_synonym analysis = "rule_error + interval \<times> nat \<times> obligation list"

definition note_ob :: "string \<Rightarrow> string \<Rightarrow> string \<Rightarrow> nat \<Rightarrow> obligation list \<Rightarrow> obligation list" where
  "note_ob label kind detail bits obs =
     obs @ [\<lparr>ob_kind = kind, ob_target = label, ob_detail = detail, ob_bits = bits\<rparr>]"

definition name_analysis :: "declarations \<Rightarrow> string \<Rightarrow> rule_error + interval \<times> nat" where
  "name_analysis decls nm =
     (if nm \<in> set FORBIDDEN then Inl (Refused (ForbiddenName nm))
      else and_then (ok_or (bt_get decls nm) (Refused (NotDeclared nm))) (\<lambda>d. Inr (decl_interval d, 1)))"

definition product_analysis ::
  "bool \<Rightarrow> string \<Rightarrow> expr \<Rightarrow> expr \<Rightarrow> interval \<Rightarrow> nat \<Rightarrow> interval \<Rightarrow> nat \<Rightarrow> obligation list \<Rightarrow> analysis" where
  "product_analysis checks label a b ia da ib db obs =
     (let degree = da + db
      in if 2 < degree then Inl (Refused DegreeAboveTwo)
         else
           let obs = (if degree = 2 then note_ob label ''product'' (render a @ '' * '' @ render b) 0 obs else obs)
           in and_then (times checks ia ib) (\<lambda>i. Inr (i, degree, obs)))"

definition comparison_analysis ::
  "bool \<Rightarrow> string \<Rightarrow> string \<Rightarrow> cmp \<Rightarrow> interval \<Rightarrow> interval \<Rightarrow> obligation list \<Rightarrow> analysis" where
  "comparison_analysis checks label text oper ia ib obs =
     (let obs = note_ob label ''bit'' (''result of '' @ text) 0 obs
      in if oper = Eq \<or> oper = Ne then
           let obs = note_ob label ''product'' (text @ '': the bit sends the difference to zero'') 0 obs;
               obs = note_ob label ''product'' (text @ '': the difference is invertible when the bit is 0'') 0 obs
           in and_then (interval_new 0 1) (\<lambda>i. Inr (i, 0, obs))
         else
           and_then (if oper = Gt \<or> oper = Ge then minus checks ia ib else minus checks ib ia) (\<lambda>difference.
             let obs = note_ob label ''product'' (text @ '': the bit against the difference'') 0 obs
             in and_then (minus checks difference (point 1)) (\<lambda>d.
                let obs = note_ob label ''range'' text (width_bits d + 1) obs
                in and_then (interval_new 0 1) (\<lambda>i. Inr (i, 0, obs)))))"

definition min_max_analysis ::
  "bool \<Rightarrow> string \<Rightarrow> string \<Rightarrow> (interval \<times> nat) list \<Rightarrow> obligation list \<Rightarrow> analysis" where
  "min_max_analysis checks label f parts obs =
     (case parts of
        [(a, da), (b, db)] \<Rightarrow>
          and_then (minus checks a b) (\<lambda>d.
            let obs = note_ob label ''range'' (f @ '' comparison'') (width_bits d) obs;
                obs = note_ob label ''product'' (f @ '' selection'') 0 obs;
                merged = (if f = ''min'' then \<lparr>lo = min (lo a) (lo b), hi = min (hi a) (hi b)\<rparr>
                          else \<lparr>lo = max (lo a) (lo b), hi = max (hi a) (hi b)\<rparr>)
            in Inr (merged, max da db, obs))
      | _ \<Rightarrow> Inl (Refused (TakesTwoArguments f)))"

definition clamp_analysis :: "bool \<Rightarrow> string \<Rightarrow> (interval \<times> nat) list \<Rightarrow> obligation list \<Rightarrow> analysis" where
  "clamp_analysis checks label parts obs =
     (case parts of
        [(v, degree), (l, _), (h, _)] \<Rightarrow>
          if lo l \<noteq> hi l \<or> lo h \<noteq> hi h then Inl (Refused ClampBoundsNotConstant)
          else
            and_then (minus checks v l) (\<lambda>below.
              let obs = note_ob label ''range'' ''clamp lower bound'' (width_bits below) obs
              in and_then (minus checks h v) (\<lambda>beyond.
                 let obs = note_ob label ''range'' ''clamp upper bound'' (width_bits beyond) obs;
                     obs = note_ob label ''product'' ''clamp selection'' 0 obs
                 in and_then (interval_new (lo l) (hi h)) (\<lambda>i. Inr (i, degree, obs))))
      | _ \<Rightarrow> Inl (Refused ClampArguments))"

definition signed_analysis :: "bool \<Rightarrow> string \<Rightarrow> (interval \<times> nat) list \<Rightarrow> obligation list \<Rightarrow> analysis" where
  "signed_analysis checks label parts obs =
     (case parts of
        [(side, _), (magnitude, degree)] \<Rightarrow>
          if \<not> is_condition side then Inl (Refused SignedNeedsCondition)
          else
            let obs = note_ob label ''product'' ''signed selection'' 0 obs
            in and_then (arith checks (- hi magnitude)) (\<lambda>l.
               and_then (interval_new l (hi magnitude)) (\<lambda>i. Inr (i, degree, obs)))
      | _ \<Rightarrow> Inl (Refused SignedArguments))"

definition call_analysis ::
  "bool \<Rightarrow> string \<Rightarrow> string \<Rightarrow> (interval \<times> nat) list \<Rightarrow> obligation list \<Rightarrow> analysis" where
  "call_analysis checks label f parts obs =
     (if f = ''min'' \<or> f = ''max'' then min_max_analysis checks label f parts obs
      else if f = ''clamp'' then clamp_analysis checks label parts obs
      else if f = ''signed'' then signed_analysis checks label parts obs
      else Inl (Refused (UnknownIntrinsic f)))"

text \<open>\<open>visit\<close> with its loops over the arguments of a call and over the parts of a conjunction.\<close>

fun visit :: "bool \<Rightarrow> declarations \<Rightarrow> string \<Rightarrow> expr \<Rightarrow> obligation list \<Rightarrow> analysis"
and visit_all :: "bool \<Rightarrow> declarations \<Rightarrow> string \<Rightarrow> expr list \<Rightarrow> obligation list
      \<Rightarrow> rule_error + (interval \<times> nat) list \<times> obligation list"
and visit_conditions :: "bool \<Rightarrow> declarations \<Rightarrow> string \<Rightarrow> expr list \<Rightarrow> obligation list \<Rightarrow> rule_error + obligation list" where
  "visit checks decls label (Const v) obs = Inr (point v, 0, obs)"
| "visit checks decls label (Name nm) obs = and_then (name_analysis decls nm) (\<lambda>(i, d). Inr (i, d, obs))"
| "visit checks decls label (Neg e) obs =
     and_then (visit checks decls label e obs) (\<lambda>(i, d, obs).
     and_then (negated checks i) (\<lambda>j. Inr (j, d, obs)))"
| "visit checks decls label (Add a b) obs =
     and_then (visit checks decls label a obs) (\<lambda>(ia, da, obs).
     and_then (visit checks decls label b obs) (\<lambda>(ib, db, obs).
     and_then (plus checks ia ib) (\<lambda>i. Inr (i, max da db, obs))))"
| "visit checks decls label (Sub a b) obs =
     and_then (visit checks decls label a obs) (\<lambda>(ia, da, obs).
     and_then (visit checks decls label b obs) (\<lambda>(ib, db, obs).
     and_then (minus checks ia ib) (\<lambda>i. Inr (i, max da db, obs))))"
| "visit checks decls label (Mul a b) obs =
     and_then (visit checks decls label a obs) (\<lambda>(ia, da, obs).
     and_then (visit checks decls label b obs) (\<lambda>(ib, db, obs).
       product_analysis checks label a b ia da ib db obs))"
| "visit checks decls label (Compare a oper b) obs =
     and_then (visit checks decls label a obs) (\<lambda>(ia, _, obs).
     and_then (visit checks decls label b obs) (\<lambda>(ib, _, obs).
       comparison_analysis checks label (render (Compare a oper b)) oper ia ib obs))"
| "visit checks decls label (And parts) obs =
     and_then (visit_conditions checks decls label parts obs) (\<lambda>obs.
     let obs = ((\<lambda>obs. note_ob label ''product'' ''conjunction of two conditions'' 0 obs) ^^ (length parts - 1)) obs
     in and_then (interval_new 0 1) (\<lambda>i. Inr (i, 0, obs)))"
| "visit checks decls label (Call f args) obs =
     (if f \<notin> set INTRINSICS then Inl (Refused OnlyIntrinsics)
      else and_then (visit_all checks decls label args obs) (\<lambda>(parts, obs). call_analysis checks label f parts obs))"
| "visit_all checks decls label [] obs = Inr ([], obs)"
| "visit_all checks decls label (e # es) obs =
     and_then (visit checks decls label e obs) (\<lambda>(i, d, obs).
     and_then (visit_all checks decls label es obs) (\<lambda>(parts, obs). Inr ((i, d) # parts, obs)))"
| "visit_conditions checks decls label [] obs = Inr obs"
| "visit_conditions checks decls label (e # es) obs =
     and_then (visit checks decls label e obs) (\<lambda>(i, _, obs).
       if \<not> is_condition i then Inl (Refused AndNeedsConditions)
       else visit_conditions checks decls label es obs)"

section \<open>Checking\<close>

type_synonym facts = "(string, interval) btree \<times> (string, nat) btree \<times> obligation list"

definition check_output :: "bool \<Rightarrow> declarations \<Rightarrow> facts \<Rightarrow> string \<times> expr \<Rightarrow> rule_error + facts" where
  "check_output checks decls = (\<lambda>(intervals, degrees, obs) (label, tree).
     and_then (visit checks decls label tree obs) (\<lambda>(i, d, obs).
       Inr (bt_insert label i intervals, bt_insert label d degrees, obs)))"

definition declared_obligation :: "bool \<Rightarrow> decl \<Rightarrow> rule_error + obligation" where
  "declared_obligation checks d =
     and_then (arith checks (hi (decl_interval d) - lo (decl_interval d))) (\<lambda>extent.
       Inr \<lparr>ob_kind = ''range'', ob_target = decl_name d,
            ob_detail = decl_name d @ '' in ['' @ show_int (lo (decl_interval d)) @ '', '' @ show_int (hi (decl_interval d)) @ '']'',
            ob_bits = max (bit_length (nat \<bar>extent\<bar>)) 1\<rparr>)"

definition check :: "bool \<Rightarrow> rule \<Rightarrow> rule_error + rule" where
  "check checks r =
     and_then (try_fold (check_output checks (rule_declarations r)) ([], [], []) (rule_outputs r)) (\<lambda>(intervals, degrees, obs).
     and_then (try_map (declared_obligation checks)
         (filter (\<lambda>d. is_secret (decl_role d)) (map snd (rule_declarations r)))) (\<lambda>declared.
       let read = concat (map (\<lambda>(_, e). names e) (rule_outputs r));
           unused = filter (\<lambda>n. n \<notin> set read) (map fst (rule_declarations r))
       in if unused \<noteq> [] then Inl (Refused (NeverUsed unused))
          else Inr (r\<lparr>rule_intervals := intervals, rule_degrees := degrees, rule_obligations := declared @ obs\<rparr>)))"

definition compile_rule :: "bool \<Rightarrow> string \<Rightarrow> string \<Rightarrow> rule_error + rule" where
  "compile_rule checks source nm = and_then (parse_rule source nm) (check checks)"

end
