(* ===== verification/Dsl_Emit.thy ===== *)
theory Dsl_Emit
  imports Dsl_Rule
begin

text \<open>
  \<^verbatim>\<open>src/rust/qomm-dsl/src/emit.rs\<close>: the obligation plan, the emitted circuit text, the evaluator.
\<close>

unbundle bit_operations_syntax

section \<open>The plan\<close>

record obligation_plan =
  plan_counts :: "(string, nat) btree"
  plan_total :: nat
  plan_range_bits :: "nat list"
  plan_total_bit_proofs :: nat
  plan_required_bits :: nat
  plan_output_intervals :: "(string, int \<times> int) btree"

definition count_obligation :: "(string, nat) btree \<times> nat list \<Rightarrow> obligation \<Rightarrow> (string, nat) btree \<times> nat list" where
  "count_obligation = (\<lambda>(counts, range_bits) ob.
     (bt_insert (ob_kind ob) (case bt_get counts (ob_kind ob) of None \<Rightarrow> 1 | Some n \<Rightarrow> n + 1) counts,
      if ob_kind ob = ''range'' then range_bits @ [ob_bits ob] else range_bits))"

definition obligation_plan_of :: "rule \<Rightarrow> obligation_plan option" where
  "obligation_plan_of r =
     (let (counts, range_bits) = foldl count_obligation ([], []) (rule_obligations r);
          range_bits = sort range_bits
      in map_option (\<lambda>bits.
           \<lparr>plan_counts = counts, plan_total = length (rule_obligations r), plan_range_bits = range_bits,
            plan_total_bit_proofs = sum_list range_bits + (case bt_get counts ''bit'' of None \<Rightarrow> 0 | Some n \<Rightarrow> n),
            plan_required_bits = bits,
            plan_output_intervals = map (\<lambda>(nm, i). (nm, (lo i, hi i))) (rule_intervals r)\<rparr>)
         (required_bits r))"

section \<open>The circuit\<close>

type_synonym bindings = "(string, string) btree"

fun mpc_cmp :: "cmp \<Rightarrow> string \<Rightarrow> string \<Rightarrow> string" where
  "mpc_cmp Lt l r = ''('' @ l @ '').__lt__('' @ r @ '')''"
| "mpc_cmp Le l r = ''('' @ l @ '').__le__('' @ r @ '')''"
| "mpc_cmp Gt l r = ''('' @ l @ '').__gt__('' @ r @ '')''"
| "mpc_cmp Ge l r = ''('' @ l @ '').__ge__('' @ r @ '')''"
| "mpc_cmp Eq l r = ''('' @ l @ '').__eq__('' @ r @ '')''"
| "mpc_cmp Ne l r = ''(1 - ('' @ l @ '').__eq__('' @ r @ ''))''"

definition mpc_call :: "string \<Rightarrow> string list \<Rightarrow> string" where
  "mpc_call f args =
     (case (f = ''min'', f = ''max'', f = ''clamp'', f = ''signed'', args) of
        (True, _, _, _, [a, b]) \<Rightarrow> ''(('' @ a @ '').__lt__('' @ b @ '').if_else('' @ a @ '', '' @ b @ ''))''
      | (_, True, _, _, [a, b]) \<Rightarrow> ''(('' @ a @ '').__lt__('' @ b @ '').if_else('' @ b @ '', '' @ a @ ''))''
      | (_, _, True, _, [v, l, h]) \<Rightarrow>
          ''((('' @ v @ '').__lt__('' @ l @ '')).if_else('' @ l @ '', (('' @ h @ '').__lt__('' @ v @ '')).if_else('' @ h @ '', '' @ v @ '')))''
      | (_, _, _, True, [s, m]) \<Rightarrow> ''(('' @ s @ '').if_else('' @ m @ '', -('' @ m @ '')))''
      | _ \<Rightarrow> ''/* unreachable: '' @ f @ '' */'')"

fun mpc :: "bindings option \<Rightarrow> expr \<Rightarrow> rule_error + string"
and mpc_all :: "bindings option \<Rightarrow> expr list \<Rightarrow> rule_error + string list" where
  "mpc bs (Const v) = Inr (''sint('' @ show_int v @ '')'')"
| "mpc bs (Name n) =
     (case bs of Some m \<Rightarrow> ok_or (bt_get m n) (Late (BindingMissing n)) | None \<Rightarrow> Inr (''col_'' @ n))"
| "mpc bs (Neg e) = and_then (mpc bs e) (\<lambda>t. Inr (''(-'' @ t @ '')''))"
| "mpc bs (Add a b) = and_then (mpc bs a) (\<lambda>s. and_then (mpc bs b) (\<lambda>t. Inr (''('' @ s @ '' + '' @ t @ '')'')))"
| "mpc bs (Sub a b) = and_then (mpc bs a) (\<lambda>s. and_then (mpc bs b) (\<lambda>t. Inr (''('' @ s @ '' - '' @ t @ '')'')))"
| "mpc bs (Mul a b) = and_then (mpc bs a) (\<lambda>s. and_then (mpc bs b) (\<lambda>t. Inr (''('' @ s @ '' * '' @ t @ '')'')))"
| "mpc bs (Compare a oper b) = and_then (mpc bs a) (\<lambda>l. and_then (mpc bs b) (\<lambda>r. Inr (mpc_cmp oper l r)))"
| "mpc bs (And parts) = and_then (mpc_all bs parts) (\<lambda>ts. Inr (''('' @ join '' * '' ts @ '')''))"
| "mpc bs (Call f args) = and_then (mpc_all bs args) (\<lambda>ts. Inr (mpc_call f ts))"
| "mpc_all bs [] = Inr []"
| "mpc_all bs (e # es) = and_then (mpc bs e) (\<lambda>t. and_then (mpc_all bs es) (\<lambda>ts. Inr (t # ts)))"

definition emit_output :: "bindings option \<Rightarrow> (string, string) btree \<Rightarrow> string \<times> expr \<Rightarrow> rule_error + (string, string) btree" where
  "emit_output bs m = (\<lambda>(nm, tree). and_then (mpc bs tree) (\<lambda>t. Inr (bt_insert nm t m)))"

text \<open>Without bindings no name can be missing; the \<open>expect\<close> never panics (\<open>to_mpc_Some\<close> in \<open>Dsl_Checked\<close>).\<close>

definition to_mpc :: "rule \<Rightarrow> (string, string) btree option" where
  "to_mpc r = (case try_fold (emit_output None) [] (rule_outputs r) of Inr m \<Rightarrow> Some m | Inl _ \<Rightarrow> None)"

definition to_mpc_with_bindings :: "rule \<Rightarrow> bindings \<Rightarrow> rule_error + (string, string) btree" where
  "to_mpc_with_bindings r bs =
     (case List.find (\<lambda>n. \<not> bt_contains bs n) (map fst (rule_declarations r)) of
        Some n \<Rightarrow> Inl (Late (DeclaredBindingMissing n))
      | None \<Rightarrow> try_fold (emit_output (Some bs)) [] (rule_outputs r))"

section \<open>Evaluation\<close>

type_synonym env = "(string, int) btree"

fun cmp_holds :: "cmp \<Rightarrow> int \<Rightarrow> int \<Rightarrow> bool" where
  "cmp_holds Lt l r \<longleftrightarrow> l < r"
| "cmp_holds Le l r \<longleftrightarrow> l \<le> r"
| "cmp_holds Gt l r \<longleftrightarrow> l > r"
| "cmp_holds Ge l r \<longleftrightarrow> l \<ge> r"
| "cmp_holds Eq l r \<longleftrightarrow> l = r"
| "cmp_holds Ne l r \<longleftrightarrow> l \<noteq> r"

definition eval_call :: "bool \<Rightarrow> string \<Rightarrow> int list \<Rightarrow> rule_error + int" where
  "eval_call checks f vs =
     (case (f = ''min'', f = ''max'', f = ''clamp'', f = ''signed'', vs) of
        (True, _, _, _, [a, c]) \<Rightarrow> Inr (min a c)
      | (_, True, _, _, [a, c]) \<Rightarrow> Inr (max a c)
      | (_, _, True, _, [v, l, h]) \<Rightarrow> if h < l then Inl Panicked else Inr (if v < l then l else if h < v then h else v)
      | (_, _, _, True, [side, magnitude]) \<Rightarrow> if side = 1 then Inr magnitude else arith checks (- magnitude)
      | _ \<Rightarrow> Inl (Late (CannotEvaluate f)))"

fun eval :: "bool \<Rightarrow> env \<Rightarrow> expr \<Rightarrow> rule_error + int"
and eval_all :: "bool \<Rightarrow> env \<Rightarrow> expr list \<Rightarrow> rule_error + int list"
and eval_and :: "bool \<Rightarrow> env \<Rightarrow> int \<Rightarrow> expr list \<Rightarrow> rule_error + int" where
  "eval checks b (Const v) = Inr v"
| "eval checks b (Name n) = ok_or (bt_get b n) (Late (NoValue n))"
| "eval checks b (Neg e) = and_then (eval checks b e) (\<lambda>v. arith checks (- v))"
| "eval checks b (Add x y) = and_then (eval checks b x) (\<lambda>v. and_then (eval checks b y) (\<lambda>w. arith checks (v + w)))"
| "eval checks b (Sub x y) = and_then (eval checks b x) (\<lambda>v. and_then (eval checks b y) (\<lambda>w. arith checks (v - w)))"
| "eval checks b (Mul x y) = and_then (eval checks b x) (\<lambda>v. and_then (eval checks b y) (\<lambda>w. arith checks (v * w)))"
| "eval checks b (Compare x oper y) =
     and_then (eval checks b x) (\<lambda>l. and_then (eval checks b y) (\<lambda>r. Inr (if cmp_holds oper l r then 1 else 0)))"
| "eval checks b (And parts) = eval_and checks b 1 parts"
| "eval checks b (Call f args) = and_then (eval_all checks b args) (eval_call checks f)"
| "eval_all checks b [] = Inr []"
| "eval_all checks b (e # es) = and_then (eval checks b e) (\<lambda>v. and_then (eval_all checks b es) (\<lambda>vs. Inr (v # vs)))"
| "eval_and checks b acc [] = Inr acc"
| "eval_and checks b acc (e # es) = and_then (eval checks b e) (\<lambda>v. eval_and checks b (acc AND v) es)"

definition evaluate_output :: "bool \<Rightarrow> env \<Rightarrow> env \<Rightarrow> string \<times> expr \<Rightarrow> rule_error + env" where
  "evaluate_output checks b m = (\<lambda>(nm, tree). and_then (eval checks b tree) (\<lambda>v. Inr (bt_insert nm v m)))"

definition evaluate_rule :: "bool \<Rightarrow> rule \<Rightarrow> env \<Rightarrow> rule_error + env" where
  "evaluate_rule checks r b = try_fold (evaluate_output checks b) [] (rule_outputs r)"

end
