(* ===== verification/Dsl_Parser.thy ===== *)
theory Dsl_Parser
  imports Dsl_Rule
begin

text \<open>
  The recursive descent of \<^verbatim>\<open>parse.rs\<close> ends: with the fuel \<open>parse_expression\<close> gives it, no call runs out, every
  call consumes input, and more fuel changes nothing.
\<close>

section \<open>Consumption\<close>

definition settles :: "(nat \<Rightarrow> nat \<Rightarrow> bool) \<Rightarrow> token list \<Rightarrow> 'a parsed \<Rightarrow> bool" where
  "settles rel ts r \<longleftrightarrow> (case r of Inl e \<Rightarrow> e \<noteq> OutOfFuel | Inr (x, us) \<Rightarrow> rel (length us) (length ts))"

lemma settles_simps [simp]:
  "settles rel ts (Inl e) \<longleftrightarrow> e \<noteq> OutOfFuel"
  "settles rel ts (Inr (x, us)) \<longleftrightarrow> rel (length us) (length ts)"
  by (simp_all add: settles_def)

lemma settles_and_then:
  assumes "settles rel us r" and "\<And>x vs. r = Inr (x, vs) \<Longrightarrow> rel (length vs) (length us) \<Longrightarrow> settles rel2 ts (f (x, vs))"
  shows "settles rel2 ts (and_then r f)"
  using assms by (cases r) (auto simp: settles_def and_then_def split: sum.splits)

lemma settles_mono:
  "settles (\<le>) us r \<Longrightarrow> length us < length ts \<Longrightarrow> settles (<) ts r"
  "settles (\<le>) us r \<Longrightarrow> length us \<le> length ts \<Longrightarrow> settles (\<le>) ts r"
  "settles (<) us r \<Longrightarrow> length us \<le> length ts \<Longrightarrow> settles (<) ts r"
  by (auto simp: settles_def split: sum.splits)

lemma eat_Some: "eat t ts = Some us \<Longrightarrow> ts = t # us"
  by (auto simp: eat_def split: list.splits if_splits)

lemma settles_then:
  "settles (<) us r \<Longrightarrow> (\<And>x vs. length vs < length us \<Longrightarrow> settles rel ts (f (x, vs))) \<Longrightarrow> settles rel ts (and_then r f)"
  "settles (\<le>) us q \<Longrightarrow> (\<And>x vs. length vs \<le> length us \<Longrightarrow> settles rel ts (g (x, vs))) \<Longrightarrow> settles rel ts (and_then q g)"
  by (rule settles_and_then, assumption, blast)+

definition parsers_settle :: "nat \<Rightarrow> nat \<Rightarrow> bool" where
  "parsers_settle n lineno \<longleftrightarrow>
     (\<forall>ts. 10 * length ts + 6 \<le> n \<longrightarrow> settles (<) ts (conjunction n lineno ts))
     \<and> (\<forall>ts parts. 10 * length ts + 1 \<le> n \<longrightarrow> settles (\<le>) ts (conj_loop n lineno parts ts))
     \<and> (\<forall>ts. 10 * length ts + 5 \<le> n \<longrightarrow> settles (<) ts (comparison n lineno ts))
     \<and> (\<forall>ts. 10 * length ts + 4 \<le> n \<longrightarrow> settles (<) ts (sum_of n lineno ts))
     \<and> (\<forall>ts left. 10 * length ts + 1 \<le> n \<longrightarrow> settles (\<le>) ts (sum_loop n lineno left ts))
     \<and> (\<forall>ts. 10 * length ts + 3 \<le> n \<longrightarrow> settles (<) ts (product_of n lineno ts))
     \<and> (\<forall>ts left. 10 * length ts + 1 \<le> n \<longrightarrow> settles (\<le>) ts (product_loop n lineno left ts))
     \<and> (\<forall>ts. 10 * length ts + 2 \<le> n \<longrightarrow> settles (<) ts (unary n lineno ts))
     \<and> (\<forall>ts. 10 * length ts + 1 \<le> n \<longrightarrow> settles (<) ts (atom n lineno ts))
     \<and> (\<forall>ts parts. 10 * length ts + 7 \<le> n \<longrightarrow> settles (<) ts (args_loop n lineno parts ts))"

lemma parsers_settleD:
  assumes "parsers_settle n lineno"
  shows "10 * length ts + 6 \<le> n \<Longrightarrow> settles (<) ts (conjunction n lineno ts)"
    and "10 * length ts + 1 \<le> n \<Longrightarrow> settles (\<le>) ts (conj_loop n lineno parts ts)"
    and "10 * length ts + 5 \<le> n \<Longrightarrow> settles (<) ts (comparison n lineno ts)"
    and "10 * length ts + 4 \<le> n \<Longrightarrow> settles (<) ts (sum_of n lineno ts)"
    and "10 * length ts + 1 \<le> n \<Longrightarrow> settles (\<le>) ts (sum_loop n lineno left ts)"
    and "10 * length ts + 3 \<le> n \<Longrightarrow> settles (<) ts (product_of n lineno ts)"
    and "10 * length ts + 1 \<le> n \<Longrightarrow> settles (\<le>) ts (product_loop n lineno left ts)"
    and "10 * length ts + 2 \<le> n \<Longrightarrow> settles (<) ts (unary n lineno ts)"
    and "10 * length ts + 1 \<le> n \<Longrightarrow> settles (<) ts (atom n lineno ts)"
    and "10 * length ts + 7 \<le> n \<Longrightarrow> settles (<) ts (args_loop n lineno parts ts)"
  using assms unfolding parsers_settle_def by blast+

lemma parsers_settle_Suc:
  assumes "parsers_settle n lineno"
  shows "parsers_settle (Suc n) lineno"
proof -
  note C = parsers_settleD(1)[OF assms] and CL = parsers_settleD(2)[OF assms] and M = parsers_settleD(3)[OF assms]
    and S = parsers_settleD(4)[OF assms] and SL = parsers_settleD(5)[OF assms] and P = parsers_settleD(6)[OF assms]
    and PL = parsers_settleD(7)[OF assms] and U = parsers_settleD(8)[OF assms] and A = parsers_settleD(9)[OF assms]
    and AL = parsers_settleD(10)[OF assms]
  have "settles (<) ts (conjunction (Suc n) lineno ts)" if "10 * length ts + 6 \<le> Suc n" for ts
    using that by (auto intro!: settles_then(1)[OF M] settles_then(2)[OF CL])
  moreover have "settles (\<le>) ts (conj_loop (Suc n) lineno parts ts)" if "10 * length ts + 1 \<le> Suc n" for ts parts
    using that by (auto intro!: settles_then(1)[OF M] settles_mono(2)[OF CL] dest!: eat_Some split: option.splits)
  moreover have "settles (<) ts (comparison (Suc n) lineno ts)" if "10 * length ts + 5 \<le> Suc n" for ts
    using that by (auto intro!: settles_then(1)[OF S] split: list.splits token.splits)
  moreover have "settles (<) ts (sum_of (Suc n) lineno ts)" if "10 * length ts + 4 \<le> Suc n" for ts
    using that by (auto intro!: settles_then(1)[OF P] settles_mono(1)[OF SL])
  moreover have "settles (\<le>) ts (sum_loop (Suc n) lineno left ts)" if "10 * length ts + 1 \<le> Suc n" for ts left
    using that by (auto intro!: settles_then(1)[OF P] settles_mono(2)[OF SL] dest!: eat_Some split: option.splits)
  moreover have "settles (<) ts (product_of (Suc n) lineno ts)" if "10 * length ts + 3 \<le> Suc n" for ts
    using that by (auto intro!: settles_then(1)[OF U] settles_mono(1)[OF PL])
  moreover have "settles (\<le>) ts (product_loop (Suc n) lineno left ts)" if "10 * length ts + 1 \<le> Suc n" for ts left
    using that by (auto intro!: settles_then(1)[OF U] settles_mono(2)[OF PL] dest!: eat_Some split: option.splits)
  moreover have "settles (<) ts (unary (Suc n) lineno ts)" if "10 * length ts + 2 \<le> Suc n" for ts
    using that by (auto intro!: settles_then(1)[OF U] settles_mono(3)[OF U] A dest!: eat_Some split: option.splits)
  moreover have "settles (<) ts (atom (Suc n) lineno ts)" if "10 * length ts + 1 \<le> Suc n" for ts
    using that by (auto intro!: settles_then(1)[OF C] settles_then(1)[OF AL] dest!: eat_Some
        split: option.splits list.splits token.splits)
  moreover have "settles (<) ts (args_loop (Suc n) lineno parts ts)" if "10 * length ts + 7 \<le> Suc n" for ts parts
    using that by (auto intro!: settles_then(1)[OF C] settles_mono(3)[OF AL] dest!: eat_Some split: option.splits)
  ultimately show ?thesis unfolding parsers_settle_def by blast
qed

lemma parsers_settle: "parsers_settle n lineno"
proof (induction n)
  case (Suc n)
  then show ?case by (rule parsers_settle_Suc)
qed (simp add: parsers_settle_def)

section \<open>More fuel changes nothing\<close>

definition extends :: "'a parsed \<Rightarrow> 'a parsed \<Rightarrow> bool" where
  "extends r q \<longleftrightarrow> (r \<noteq> Inl OutOfFuel \<longrightarrow> q = r)"

lemma extends_refl [simp]: "extends r r"
  by (simp add: extends_def)

lemma extends_and_then:
  assumes "extends r q" and "\<And>x us. extends (f (x, us)) (g (x, us))"
  shows "extends (and_then r f) (and_then q g)"
  using assms by (cases r) (fastforce simp: extends_def)+

definition parsers_extend :: "nat \<Rightarrow> nat \<Rightarrow> nat \<Rightarrow> bool" where
  "parsers_extend n m lineno \<longleftrightarrow>
     (\<forall>ts. extends (conjunction n lineno ts) (conjunction m lineno ts))
     \<and> (\<forall>ts parts. extends (conj_loop n lineno parts ts) (conj_loop m lineno parts ts))
     \<and> (\<forall>ts. extends (comparison n lineno ts) (comparison m lineno ts))
     \<and> (\<forall>ts. extends (sum_of n lineno ts) (sum_of m lineno ts))
     \<and> (\<forall>ts left. extends (sum_loop n lineno left ts) (sum_loop m lineno left ts))
     \<and> (\<forall>ts. extends (product_of n lineno ts) (product_of m lineno ts))
     \<and> (\<forall>ts left. extends (product_loop n lineno left ts) (product_loop m lineno left ts))
     \<and> (\<forall>ts. extends (unary n lineno ts) (unary m lineno ts))
     \<and> (\<forall>ts. extends (atom n lineno ts) (atom m lineno ts))
     \<and> (\<forall>ts parts. extends (args_loop n lineno parts ts) (args_loop m lineno parts ts))"

lemma parsers_extendD:
  assumes "parsers_extend n m lineno"
  shows "extends (conjunction n lineno ts) (conjunction m lineno ts)"
    and "extends (conj_loop n lineno parts ts) (conj_loop m lineno parts ts)"
    and "extends (comparison n lineno ts) (comparison m lineno ts)"
    and "extends (sum_of n lineno ts) (sum_of m lineno ts)"
    and "extends (sum_loop n lineno left ts) (sum_loop m lineno left ts)"
    and "extends (product_of n lineno ts) (product_of m lineno ts)"
    and "extends (product_loop n lineno left ts) (product_loop m lineno left ts)"
    and "extends (unary n lineno ts) (unary m lineno ts)"
    and "extends (atom n lineno ts) (atom m lineno ts)"
    and "extends (args_loop n lineno parts ts) (args_loop m lineno parts ts)"
  using assms unfolding parsers_extend_def by blast+

lemma parsers_extend: "n \<le> m \<Longrightarrow> parsers_extend n m lineno"
proof (induction n arbitrary: m)
  case (Suc n)
  then obtain k where m: "m = Suc k" and "n \<le> k" by (cases m) auto
  note D = parsers_extendD[OF Suc.IH[OF \<open>n \<le> k\<close>]]
  show ?case
    unfolding parsers_extend_def m conjunction.simps conj_loop.simps comparison.simps sum_of.simps sum_loop.simps
      product_of.simps product_loop.simps unary.simps atom.simps args_loop.simps
    by (intro conjI allI; auto intro!: extends_and_then D split: option.splits list.splits token.splits)
qed (simp add: parsers_extend_def extends_def)

lemma conjunction_more_fuel:
  "conjunction n lineno ts \<noteq> Inl OutOfFuel \<Longrightarrow> n \<le> m \<Longrightarrow> conjunction m lineno ts = conjunction n lineno ts"
  using parsers_extendD(1)[OF parsers_extend, of n m lineno ts] by (simp add: extends_def)

section \<open>What the parser produces\<close>

text \<open>Integers are \<open>i128\<close> values, names are identifiers, calls are to intrinsics, and a conjunction has two parts or
  more.\<close>

fun expr_wf :: "expr \<Rightarrow> bool" where
  "expr_wf (Const v) \<longleftrightarrow> fits v"
| "expr_wf (Name n) \<longleftrightarrow> is_identifier n"
| "expr_wf (Neg e) \<longleftrightarrow> expr_wf e"
| "expr_wf (Add a b) \<longleftrightarrow> expr_wf a \<and> expr_wf b"
| "expr_wf (Sub a b) \<longleftrightarrow> expr_wf a \<and> expr_wf b"
| "expr_wf (Mul a b) \<longleftrightarrow> expr_wf a \<and> expr_wf b"
| "expr_wf (Compare a oper b) \<longleftrightarrow> expr_wf a \<and> expr_wf b"
| "expr_wf (And parts) \<longleftrightarrow> 2 \<le> length parts \<and> (\<forall>p \<in> set parts. expr_wf p)"
| "expr_wf (Call f args) \<longleftrightarrow> f \<in> set INTRINSICS \<and> (\<forall>a \<in> set args. expr_wf a)"

fun token_wf :: "token \<Rightarrow> bool" where
  "token_wf (TInt v) \<longleftrightarrow> fits v"
| "token_wf (Ident w) \<longleftrightarrow> is_identifier w"
| "token_wf _ \<longleftrightarrow> True"

definition yields :: "('a \<Rightarrow> bool) \<Rightarrow> 'a parsed \<Rightarrow> bool" where
  "yields P r \<longleftrightarrow> (\<forall>x us. r = Inr (x, us) \<longrightarrow> P x \<and> list_all token_wf us)"

lemma yields_simps [simp]:
  "yields P (Inl e)" "yields P (Inr (x, us)) \<longleftrightarrow> P x \<and> list_all token_wf us"
  by (simp_all add: yields_def)

lemma yields_then:
  assumes "yields P r" and "\<And>x us. P x \<Longrightarrow> list_all token_wf us \<Longrightarrow> yields Q (f (x, us))"
  shows "yields Q (and_then r f)"
  using assms by (cases r) (auto simp: yields_def)

abbreviation grown :: "expr list \<Rightarrow> expr list \<Rightarrow> bool" where
  "grown parts qs \<equiv> length parts \<le> length qs \<and> (\<forall>q \<in> set qs. expr_wf q)"

definition parsers_yield :: "nat \<Rightarrow> nat \<Rightarrow> bool" where
  "parsers_yield n lineno \<longleftrightarrow> (\<forall>ts. list_all token_wf ts \<longrightarrow>
     yields expr_wf (conjunction n lineno ts)
     \<and> (\<forall>parts. (\<forall>p \<in> set parts. expr_wf p) \<longrightarrow>
           yields (\<lambda>qs. grown parts qs \<and> (eat TAnd ts \<noteq> None \<longrightarrow> length parts < length qs)) (conj_loop n lineno parts ts))
     \<and> yields expr_wf (comparison n lineno ts) \<and> yields expr_wf (sum_of n lineno ts)
     \<and> (\<forall>left. expr_wf left \<longrightarrow> yields expr_wf (sum_loop n lineno left ts))
     \<and> yields expr_wf (product_of n lineno ts)
     \<and> (\<forall>left. expr_wf left \<longrightarrow> yields expr_wf (product_loop n lineno left ts))
     \<and> yields expr_wf (unary n lineno ts) \<and> yields expr_wf (atom n lineno ts)
     \<and> (\<forall>parts. (\<forall>p \<in> set parts. expr_wf p) \<longrightarrow> yields (\<lambda>qs. \<forall>q \<in> set qs. expr_wf q) (args_loop n lineno parts ts)))"

lemma parsers_yieldD:
  assumes "parsers_yield n lineno" and "list_all token_wf ts"
  shows "yields expr_wf (conjunction n lineno ts)"
    and "(\<And>p. p \<in> set parts \<Longrightarrow> expr_wf p) \<Longrightarrow>
      yields (\<lambda>qs. grown parts qs \<and> (eat TAnd ts \<noteq> None \<longrightarrow> length parts < length qs)) (conj_loop n lineno parts ts)"
    and "yields expr_wf (comparison n lineno ts)" and "yields expr_wf (sum_of n lineno ts)"
    and "expr_wf left \<Longrightarrow> yields expr_wf (sum_loop n lineno left ts)"
    and "yields expr_wf (product_of n lineno ts)"
    and "expr_wf left \<Longrightarrow> yields expr_wf (product_loop n lineno left ts)"
    and "yields expr_wf (unary n lineno ts)" and "yields expr_wf (atom n lineno ts)"
    and "(\<And>p. p \<in> set parts \<Longrightarrow> expr_wf p) \<Longrightarrow> yields (\<lambda>qs. \<forall>q \<in> set qs. expr_wf q) (args_loop n lineno parts ts)"
  using assms unfolding parsers_yield_def by blast+

lemma parsers_yield_Suc:
  assumes "parsers_yield n lineno"
  shows "parsers_yield (Suc n) lineno"
proof -
  note D = parsers_yieldD[OF assms]
  have "yields expr_wf (conjunction (Suc n) lineno ts)" if "list_all token_wf ts" for ts
    using that by (auto intro!: yields_then[OF D(3)] yields_then[OF D(2)] split: option.splits)
  moreover have "yields (\<lambda>qs. grown parts qs \<and> (eat TAnd ts \<noteq> None \<longrightarrow> length parts < length qs))
      (conj_loop (Suc n) lineno parts ts)" if "list_all token_wf ts" "\<forall>p \<in> set parts. expr_wf p" for ts parts
  proof (cases "eat TAnd ts")
    case None
    then show ?thesis using that by simp
  next
    case (Some us)
    then have us: "list_all token_wf us" using that(1) by (auto dest: eat_Some)
    have "yields (\<lambda>qs. grown parts qs \<and> (eat TAnd ts \<noteq> None \<longrightarrow> length parts < length qs)) (conj_loop n lineno (parts @ [p]) vs)"
      if "expr_wf p" "list_all token_wf vs" for p vs
    proof -
      have "yields (\<lambda>qs. grown (parts @ [p]) qs \<and> (eat TAnd vs \<noteq> None \<longrightarrow> length (parts @ [p]) < length qs))
          (conj_loop n lineno (parts @ [p]) vs)"
        by (rule D(2)) (use that \<open>\<forall>p \<in> set parts. expr_wf p\<close> in auto)
      then show ?thesis by (auto simp: yields_def)
    qed
    then show ?thesis by (auto simp: Some intro!: yields_then[OF D(3)[OF us]])
  qed
  moreover have "yields expr_wf (comparison (Suc n) lineno ts)" if "list_all token_wf ts" for ts
    using that by (auto intro!: yields_then[OF D(4)] split: list.splits token.splits)
  moreover have "yields expr_wf (sum_of (Suc n) lineno ts)" if "list_all token_wf ts" for ts
    using that by (auto intro!: yields_then[OF D(6)] D(5))
  moreover have "yields expr_wf (sum_loop (Suc n) lineno left ts)" if "list_all token_wf ts" "expr_wf left" for ts left
    using that by (auto intro!: yields_then[OF D(6)] D(5) dest!: eat_Some split: option.splits)
  moreover have "yields expr_wf (product_of (Suc n) lineno ts)" if "list_all token_wf ts" for ts
    using that by (auto intro!: yields_then[OF D(8)] D(7))
  moreover have "yields expr_wf (product_loop (Suc n) lineno left ts)" if "list_all token_wf ts" "expr_wf left" for ts left
    using that by (auto intro!: yields_then[OF D(8)] D(7) dest!: eat_Some split: option.splits)
  moreover have "yields expr_wf (unary (Suc n) lineno ts)" if "list_all token_wf ts" for ts
    using that by (auto intro!: yields_then[OF D(8)] D(8,9) dest!: eat_Some split: option.splits)
  moreover have "yields expr_wf (atom (Suc n) lineno ts)" if "list_all token_wf ts" for ts
    using that by (auto intro!: yields_then[OF D(1)] yields_then[OF D(10)] dest!: eat_Some
        split: option.splits list.splits token.splits)
  moreover have "yields (\<lambda>qs. \<forall>q \<in> set qs. expr_wf q) (args_loop (Suc n) lineno parts ts)"
    if "list_all token_wf ts" "\<forall>p \<in> set parts. expr_wf p" for ts parts
    using that by (auto intro!: yields_then[OF D(1)] D(10) dest!: eat_Some split: option.splits)
  ultimately show ?thesis unfolding parsers_yield_def by blast
qed

lemma parsers_yield: "parsers_yield n lineno"
proof (induction n)
  case (Suc n)
  then show ?case by (rule parsers_yield_Suc)
qed (simp add: parsers_yield_def)

lemma digits_value_nonneg: "list_all is_ascii_digit ds \<Longrightarrow> 0 \<le> digits_value ds"
proof -
  have "list_all is_ascii_digit ds \<Longrightarrow> 0 \<le> a \<Longrightarrow> 0 \<le> foldl (\<lambda>v c. v * 10 + (int (of_char c) - 48)) a ds" for a :: int
  proof (induction ds arbitrary: a)
    case (Cons c ds)
    have "(48 :: nat) \<le> of_char c" using Cons.prems by (simp add: is_ascii_digit_def)
    then have "(48 :: int) \<le> int (of_char c)" by linarith
    then show ?case using Cons by simp
  qed simp
  then show "list_all is_ascii_digit ds \<Longrightarrow> 0 \<le> digits_value ds" by (simp add: digits_value_def)
qed

lemma list_all_takeWhile: "list_all P (takeWhile P xs)"
  by (auto simp: list_all_iff dest: set_takeWhileD)

lemma word_identifier: "word_start c \<Longrightarrow> is_identifier (takeWhile word_part (c # cs))"
  by (auto simp: is_identifier_def word_start_def word_part_def list_all_takeWhile)

lemma tokenize_wf: "tokenize lineno s = Inr ts \<Longrightarrow> list_all token_wf ts"
proof (induction lineno s arbitrary: ts rule: tokenize.induct)
  case (2 lineno c cs)
  have digits: "fits (digits_value (takeWhile is_ascii_digit (c # cs)))"
    if "digits_value (takeWhile is_ascii_digit (c # cs)) < 2 ^ 127"
    using that digits_value_nonneg[OF list_all_takeWhile, of "c # cs"] unfolding fits_def
    by (meson neg_le_0_iff_le order_trans zero_le_numeral zero_le_power)
  show ?case
    using 2 digits word_identifier[of c cs]
    by (auto simp: result_simps Let_def two_char_token_def one_char_token_def simp del: takeWhile.simps
        split: if_splits option.splits)
qed simp

lemma tokenize_fuel: "tokenize lineno s \<noteq> Inl OutOfFuel"
proof (induction lineno s rule: tokenize.induct)
  case (2 lineno c cs)
  then show ?case
    by (auto simp: result_simps Let_def one_char_token_def simp del: takeWhile.simps split: if_splits option.splits)
qed simp

lemma parse_expression_wf: "parse_expression lineno s = Inr e \<Longrightarrow> expr_wf e"
  using parsers_yieldD(1)[OF parsers_yield] tokenize_wf
  by (fastforce simp: parse_expression_def result_simps yields_def split: if_splits)

lemma parse_expression_fuel: "parse_expression lineno s \<noteq> Inl OutOfFuel"
proof -
  have "conjunction (parser_fuel ts) lineno ts \<noteq> Inl OutOfFuel" for ts
    using parsers_settleD(1)[OF parsers_settle, of ts "parser_fuel ts" lineno] by (auto simp: parser_fuel_def)
  then show ?thesis
    using tokenize_fuel[of lineno s] by (auto simp: parse_expression_def result_simps split: if_splits)
qed

section \<open>Parsed rules\<close>

definition decl_wf :: "string \<Rightarrow> decl \<Rightarrow> bool" where
  "decl_wf k d \<longleftrightarrow> decl_name d = k \<and> is_identifier k \<and> k \<notin> set FORBIDDEN
     \<and> lo (decl_interval d) \<le> hi (decl_interval d) \<and> fits (lo (decl_interval d)) \<and> fits (hi (decl_interval d))"

definition decls_wf :: "declarations \<Rightarrow> bool" where
  "decls_wf decls \<longleftrightarrow> bt_wf decls \<and> (\<forall>(k, d) \<in> set decls. decl_wf k d)"

definition outs_wf :: "(string \<times> expr) list \<Rightarrow> bool" where
  "outs_wf outs \<longleftrightarrow> (\<forall>(nm, e) \<in> set outs. is_identifier nm \<and> expr_wf e)"

lemma parse_i128_fits: "parse_i128 s = Some v \<Longrightarrow> fits v"
  by (auto simp: parse_i128_def Let_def split: if_splits prod.splits)

lemma parse_range_wf:
  "parse_range role lineno nm s = Inr (d, after) \<Longrightarrow> is_identifier nm \<Longrightarrow> decl_wf (decl_name d) d"
  by (auto simp: parse_range_def parse_bound_def result_simps interval_new_def decl_wf_def
      dest!: parse_i128_fits split: list.splits if_splits option.splits)

lemma parse_declarations_loop_wf:
  "parse_declarations_loop role lineno acc s = Inr ds \<Longrightarrow> (\<And>d. d \<in> set acc \<Longrightarrow> decl_wf (decl_name d) d) \<Longrightarrow>
     d \<in> set ds \<Longrightarrow> decl_wf (decl_name d) d"
proof (induction role lineno acc s arbitrary: d rule: parse_declarations_loop.induct)
  case (2 role lineno acc c cs)
  show ?case
  proof (cases "word_start c")
    case True
    then obtain d' after where
      r: "parse_range role lineno (takeWhile word_part (c # cs)) (trim_start (dropWhile word_part cs)) = Inr (d', after)"
      using "2.prems"(1) by (auto split: sum.splits simp del: takeWhile.simps)
    have "decl_wf (decl_name d') d'" by (rule parse_range_wf[OF r word_identifier[OF True]])
    then show ?thesis using "2.IH"(2)[OF _ r refl, of d] "2.prems" True r
      by (auto simp del: takeWhile.simps)
  qed (use 2 in auto)
qed auto

lemma bt_set_insert: "set (bt_insert k v m) \<subseteq> insert (k, v) (set m)"
  by (induction m) auto

lemma declare_wf:
  "decls_wf decls \<Longrightarrow> (\<And>d. d \<in> set ds \<Longrightarrow> decl_wf (decl_name d) d) \<Longrightarrow>
     decls_wf (foldl (\<lambda>m d. bt_insert (decl_name d) d m) decls ds)"
proof (induction ds arbitrary: decls)
  case (Cons d ds)
  have "decls_wf (bt_insert (decl_name d) d decls)"
    using Cons.prems bt_set_insert[of "decl_name d" d decls] by (auto simp: decls_wf_def)
  then show ?case using Cons by simp
qed simp

lemma parse_line_wf:
  assumes "parse_line lineno raw s = Inr s'" and "decls_wf (fst s)" and "outs_wf (snd s)"
  shows "decls_wf (fst s') \<and> outs_wf (snd s')"
proof -
  obtain decls outs where s: "s = (decls, outs)" by fastforce
  show ?thesis
    using assms parse_declarations_loop_wf[of _ lineno "[]"] parse_expression_wf[of lineno]
    by (auto simp: s parse_line_def Let_def result_simps parse_declarations_def outs_wf_def
        intro!: declare_wf split: if_splits option.splits prod.splits)
qed

lemma parse_rule_wf:
  assumes "parse_rule source nm = Inr r"
  shows "decls_wf (rule_declarations r) \<and> outs_wf (rule_outputs r) \<and> rule_outputs r \<noteq> [] \<and> rule_name r = nm"
proof -
  obtain decls outs where
    "try_fold (\<lambda>s (index, raw). parse_line (Suc index) raw s) ([], []) (enumerate 0 (lines source)) = Inr (decls, outs)"
    and r: "rule_declarations r = decls" "rule_outputs r = outs" "outs \<noteq> []" "rule_name r = nm"
    using assms by (auto simp: parse_rule_def result_simps split: if_splits)
  from this(1) have "decls_wf (fst (decls, outs)) \<and> outs_wf (snd (decls, outs))"
  proof (rule try_fold_invariant[where I = "\<lambda>s. decls_wf (fst s) \<and> outs_wf (snd s)"])
    show "decls_wf (fst t) \<and> outs_wf (snd t)"
      if "decls_wf (fst s) \<and> outs_wf (snd s)" "(case x of (index, raw) \<Rightarrow> parse_line (Suc index) raw s) = Inr t" for s x t
      using that by (cases x) (auto dest: parse_line_wf)
  qed (simp add: decls_wf_def outs_wf_def)
  then show ?thesis using r by simp
qed

end
