(* ===== verification/Dsl_Sound.thy ===== *)
theory Dsl_Sound
  imports Dsl_Emit Dsl_Parser
begin

text \<open>
  The interval analysis is sound. The locale \<open>interval_operation\<close> is the contract an abstract operation keeps towards
  the integer operation it stands for; addition, subtraction and multiplication are its interpretations. A rule that
  checks without overflow then evaluates without overflow, in every build, to values within the derived
  intervals.
\<close>

section \<open>The abstract operations\<close>

definition holds :: "interval \<Rightarrow> int \<Rightarrow> bool" where
  "holds i v \<longleftrightarrow> lo i \<le> v \<and> v \<le> hi i"

definition i128 :: "interval \<Rightarrow> bool" where
  "i128 i \<longleftrightarrow> fits (lo i) \<and> fits (hi i)"

lemma holds_fits: "i128 i \<Longrightarrow> holds i v \<Longrightarrow> fits v"
  by (auto simp: i128_def holds_def fits_def)

lemma arith_fits [simp]: "fits v \<Longrightarrow> arith c v = Inr v"
  by (simp add: arith_def)

lemma arith_checked [result_simps]: "arith True v = Inr w \<longleftrightarrow> fits v \<and> w = v"
  by (auto simp: arith_def)

locale interval_operation =
  fixes abstract :: "interval \<Rightarrow> interval \<Rightarrow> rule_error + interval"
    and concrete :: "int \<Rightarrow> int \<Rightarrow> int"
  assumes bounded: "abstract i j = Inr k \<Longrightarrow> i128 k"
    and enclosed: "abstract i j = Inr k \<Longrightarrow> holds i v \<Longrightarrow> holds j w \<Longrightarrow> holds k (concrete v w)"
begin

lemma exact: "abstract i j = Inr k \<Longrightarrow> holds i v \<Longrightarrow> holds j w \<Longrightarrow> arith c (concrete v w) = Inr (concrete v w)"
  by (rule arith_fits) (rule holds_fits[OF bounded enclosed])

end

interpretation addition: interval_operation "plus True" "(+)"
  by unfold_locales (auto simp: plus_def result_simps i128_def holds_def)

interpretation subtraction: interval_operation "minus True" "(-)"
  by unfold_locales (auto simp: minus_def result_simps i128_def holds_def)

lemma between_corners:
  fixes v w :: int
  assumes "a \<le> v" "v \<le> b" "c \<le> w" "w \<le> d"
  shows "min (min (min (a * c) (a * d)) (b * c)) (b * d) \<le> v * w"
    and "v * w \<le> max (max (max (a * c) (a * d)) (b * c)) (b * d)"
proof -
  have inner: "(v * c \<le> v * w \<and> v * w \<le> v * d) \<or> (v * d \<le> v * w \<and> v * w \<le> v * c)"
    using assms(3,4) by (cases "0 \<le> v") (simp_all add: mult_left_mono mult_left_mono_neg)
  have outer: "(a * x \<le> v * x \<and> v * x \<le> b * x) \<or> (b * x \<le> v * x \<and> v * x \<le> a * x)" for x
    using assms(1,2) by (cases "0 \<le> x") (simp_all add: mult_right_mono mult_right_mono_neg)
  have below: "a * c \<le> v * w \<or> a * d \<le> v * w \<or> b * c \<le> v * w \<or> b * d \<le> v * w"
    using inner outer[of c] outer[of d] order_trans[of _ "v * c" "v * w"] order_trans[of _ "v * d" "v * w"] by meson
  have over: "v * w \<le> a * c \<or> v * w \<le> a * d \<or> v * w \<le> b * c \<or> v * w \<le> b * d"
    using inner outer[of c] outer[of d] order_trans[of "v * w" "v * c"] order_trans[of "v * w" "v * d"] by meson
  show "min (min (min (a * c) (a * d)) (b * c)) (b * d) \<le> v * w" using below by (auto simp: min_le_iff_disj)
  show "v * w \<le> max (max (max (a * c) (a * d)) (b * c)) (b * d)" using over by (auto simp: le_max_iff_disj)
qed

lemma times_checked:
  assumes "times True i j = Inr k"
  shows "fits (lo i * lo j)" "fits (lo i * hi j)" "fits (hi i * lo j)" "fits (hi i * hi j)"
    and "k = \<lparr>lo = min (min (min (lo i * lo j) (lo i * hi j)) (hi i * lo j)) (hi i * hi j),
         hi = max (max (max (lo i * lo j) (lo i * hi j)) (hi i * lo j)) (hi i * hi j)\<rparr>"
  using assms unfolding times_def and_then_eq_Inr arith_checked by (blast, blast, blast, blast, blast)

lemma fits_min_max: "fits x \<Longrightarrow> fits y \<Longrightarrow> fits (min x y) \<and> fits (max x y)"
  by (simp add: min_def max_def)

interpretation multiplication: interval_operation "times True" "(*)"
proof
  show "i128 k" if "times True i j = Inr k" for i j k
    using times_checked[OF that] fits_min_max by (simp add: i128_def)
  show "holds k (v * w)" if "times True i j = Inr k" "holds i v" "holds j w" for i j k v w
    unfolding times_checked(5)[OF that(1)] holds_def interval.simps
    using that(2,3) between_corners[of "lo i" v "hi i" "lo j" w "hi j"] unfolding holds_def by blast
qed

lemma negated_sound:
  "negated True i = Inr k \<Longrightarrow> holds i v \<Longrightarrow> i128 k \<and> holds k (- v) \<and> arith c (- v) = Inr (- v)"
  by (auto simp: negated_def result_simps i128_def holds_def fits_def intro!: arith_fits)

text \<open>The width holds every value of the interval.\<close>

lemma magnitude_bound: "n < 2 ^ bit_length n"
proof (induction n rule: bit_length.induct)
  case (1 n)
  then show ?case by (subst bit_length.simps) (auto; linarith)
qed

lemma width_bits_bound:
  assumes "holds i v"
  shows "- (2 ^ (width_bits i - 1)) \<le> v \<and> v < 2 ^ (width_bits i - 1)"
proof -
  define m where "m = max (nat \<bar>lo i\<bar>) (nat \<bar>hi i\<bar>)"
  have w: "bit_length m \<le> width_bits i - 1" by (simp add: width_bits_def m_def Let_def)
  have "m < 2 ^ bit_length m" by (rule magnitude_bound)
  also have "\<dots> \<le> 2 ^ (width_bits i - 1)" using w by (intro power_increasing) simp_all
  finally have "int m < 2 ^ (width_bits i - 1)" by (metis of_nat_less_iff of_nat_numeral of_nat_power)
  moreover have "\<bar>v\<bar> \<le> int m" using assms by (auto simp: m_def holds_def)
  ultimately show ?thesis by linarith
qed

section \<open>Labels and obligations do not matter\<close>

definition forget :: "analysis \<Rightarrow> rule_error + interval \<times> nat" where
  "forget r = and_then r (\<lambda>(i, d, _). Inr (i, d))"

lemma forget_simps [simp]: "forget (Inl e) = Inl e" "forget (Inr (i, d, obs)) = Inr (i, d)"
  by (simp_all add: forget_def)

lemma forget_cases:
  assumes "forget r = forget q"
  obtains e where "r = Inl e" "q = Inl e" | i d obs obs' where "r = Inr (i, d, obs)" "q = Inr (i, d, obs')"
  using assms by (cases r; cases q) (auto simp: forget_def)

lemma forget_then:
  assumes "forget r = forget q" and "\<And>i d obs obs'. forget (f (i, d, obs)) = forget (g (i, d, obs'))"
  shows "forget (and_then r f) = forget (and_then q g)"
  using assms(1) by (rule forget_cases) (use assms(2) in auto)

lemma forget_inner: "(\<And>x. forget (f x) = forget (g x)) \<Longrightarrow> forget (and_then r f) = forget (and_then r g)"
  by (cases r) auto

lemma forget_product:
  "forget (product_analysis c l a b ia da ib db obs) = forget (product_analysis c l' a b ia da ib db obs')"
  by (cases "times c ia ib") (simp_all add: product_analysis_def Let_def)

lemma forget_comparison:
  "forget (comparison_analysis c l text oper ia ib obs) = forget (comparison_analysis c l' text oper ia ib obs')"
proof (cases "oper = Eq \<or> oper = Ne")
  case True
  then show ?thesis by (simp add: comparison_analysis_def Let_def interval_new_def)
next
  case False
  then show ?thesis
    by (simp add: comparison_analysis_def Let_def interval_new_def) (intro conjI impI forget_inner; simp)
qed

lemma forget_min_max:
  "forget (min_max_analysis c l f parts obs) = forget (min_max_analysis c l' f parts obs')"
  unfolding min_max_analysis_def Let_def
  by (cases parts rule: list.exhaust; simp add: case_prod_beta split: list.split) (intro conjI impI allI forget_inner; simp)

lemma forget_clamp: "forget (clamp_analysis c l parts obs) = forget (clamp_analysis c l' parts obs')"
  unfolding clamp_analysis_def Let_def interval_new_def
  by (simp add: case_prod_beta split: list.split) (intro conjI impI allI forget_inner; simp)

lemma forget_signed: "forget (signed_analysis c l parts obs) = forget (signed_analysis c l' parts obs')"
  unfolding signed_analysis_def Let_def interval_new_def
  by (simp add: case_prod_beta split: list.split) (intro conjI impI allI forget_inner; simp)

lemma forget_call: "forget (call_analysis c l f parts obs) = forget (call_analysis c l' f parts obs')"
  unfolding call_analysis_def using forget_min_max forget_clamp forget_signed by auto

lemma visit_forget: "forget (visit c decls l e obs) = forget (visit c decls l' e obs')"
proof (induction e arbitrary: l obs l' obs')
  case (And parts)
  have "is_ok (visit_conditions c decls l es obs) = is_ok (visit_conditions c decls l' es obs') \<and>
      (\<forall>e. visit_conditions c decls l es obs = Inl e \<longrightarrow> visit_conditions c decls l' es obs' = Inl e)"
    if "set es \<subseteq> set parts" for es obs obs'
    using that
  proof (induction es arbitrary: obs obs')
    case (Cons e es)
    have "forget (visit c decls l e obs) = forget (visit c decls l' e obs')" using And Cons.prems by simp
    then show ?case by (rule forget_cases) (use Cons in auto)
  qed simp
  from this[of parts obs obs'] show ?case
    by (cases "visit_conditions c decls l parts obs"; cases "visit_conditions c decls l' parts obs'")
      (auto simp: Let_def intro!: forget_inner)
next
  case (Call f args)
  have "and_then (visit_all c decls l es obs) (\<lambda>(ps, _). Inr ps) = and_then (visit_all c decls l' es obs') (\<lambda>(ps, _). Inr ps)"
    if "set es \<subseteq> set args" for es obs obs'
    using that
  proof (induction es arbitrary: obs obs')
    case (Cons e es)
    have "forget (visit c decls l e obs) = forget (visit c decls l' e obs')" using Call Cons.prems by simp
    then show ?case
    proof (rule forget_cases)
      fix i d o1 o2
      assume v: "visit c decls l e obs = Inr (i, d, o1)" "visit c decls l' e obs' = Inr (i, d, o2)"
      show ?case using Cons.IH[of o1 o2] Cons.prems v
        by (cases "visit_all c decls l es o1"; cases "visit_all c decls l' es o2") auto
    qed simp
  qed simp
  from this[of args obs obs'] show ?case
    by (cases "visit_all c decls l args obs"; cases "visit_all c decls l' args obs'") (auto intro!: forget_call)
qed (auto intro!: forget_then forget_inner forget_product forget_comparison)

section \<open>Soundness\<close>

definition env_ok :: "declarations \<Rightarrow> env \<Rightarrow> bool" where
  "env_ok decls env \<longleftrightarrow> (\<forall>(k, d) \<in> set decls. \<exists>v. bt_get env k = Some v \<and> holds (decl_interval d) v)"

text \<open>The analysis gives \<open>signed(side, m)\<close> the interval from the negated upper end of \<open>m\<close> to its upper end. An input escapes it
  where it takes \<open>m\<close> below that negated upper end. The second predicate is the static condition that excludes this.\<close>

fun signed_escapes :: "declarations \<Rightarrow> env \<Rightarrow> expr \<Rightarrow> bool" where
  "signed_escapes decls env (Const v) \<longleftrightarrow> False"
| "signed_escapes decls env (Name n) \<longleftrightarrow> False"
| "signed_escapes decls env (Neg e) \<longleftrightarrow> signed_escapes decls env e"
| "signed_escapes decls env (Add a b) \<longleftrightarrow> signed_escapes decls env a \<or> signed_escapes decls env b"
| "signed_escapes decls env (Sub a b) \<longleftrightarrow> signed_escapes decls env a \<or> signed_escapes decls env b"
| "signed_escapes decls env (Mul a b) \<longleftrightarrow> signed_escapes decls env a \<or> signed_escapes decls env b"
| "signed_escapes decls env (Compare a oper b) \<longleftrightarrow> signed_escapes decls env a \<or> signed_escapes decls env b"
| "signed_escapes decls env (And parts) \<longleftrightarrow> (\<exists>p \<in> set parts. signed_escapes decls env p)"
| "signed_escapes decls env (Call f args) \<longleftrightarrow> (\<exists>a \<in> set args. signed_escapes decls env a)
     \<or> f = ''signed'' \<and>
          (case args of
             [_, m] \<Rightarrow> (case (forget (visit True decls [] m []), eval True env m) of
                 (Inr (i, _), Inr v) \<Rightarrow> v < - hi i | _ \<Rightarrow> False)
           | _ \<Rightarrow> False)"

fun signed_magnitudes :: "declarations \<Rightarrow> expr \<Rightarrow> bool" where
  "signed_magnitudes decls (Const v) \<longleftrightarrow> True"
| "signed_magnitudes decls (Name n) \<longleftrightarrow> True"
| "signed_magnitudes decls (Neg e) \<longleftrightarrow> signed_magnitudes decls e"
| "signed_magnitudes decls (Add a b) \<longleftrightarrow> signed_magnitudes decls a \<and> signed_magnitudes decls b"
| "signed_magnitudes decls (Sub a b) \<longleftrightarrow> signed_magnitudes decls a \<and> signed_magnitudes decls b"
| "signed_magnitudes decls (Mul a b) \<longleftrightarrow> signed_magnitudes decls a \<and> signed_magnitudes decls b"
| "signed_magnitudes decls (Compare a oper b) \<longleftrightarrow> signed_magnitudes decls a \<and> signed_magnitudes decls b"
| "signed_magnitudes decls (And parts) \<longleftrightarrow> (\<forall>p \<in> set parts. signed_magnitudes decls p)"
| "signed_magnitudes decls (Call f args) \<longleftrightarrow> (\<forall>a \<in> set args. signed_magnitudes decls a)
     \<and> (f = ''signed'' \<longrightarrow>
          (case args of
             [_, m] \<Rightarrow> (case forget (visit True decls [] m []) of Inr (i, _) \<Rightarrow> - hi i \<le> lo i | Inl _ \<Rightarrow> True)
           | _ \<Rightarrow> True))"

abbreviation located :: "interval \<times> nat \<Rightarrow> int \<Rightarrow> bool" where
  "located p v \<equiv> i128 (fst p) \<and> holds (fst p) v"

lemma condition_value: "is_condition i \<Longrightarrow> holds i v \<Longrightarrow> v = 0 \<or> v = 1"
  by (auto simp: is_condition_def holds_def)

lemma min_max_sound:
  assumes "min_max_analysis True l f parts obs = Inr (i, d, obs')" and "f = ''min'' \<or> f = ''max''" and "list_all2 located parts vs"
  shows "i128 i \<and> (\<exists>v. (\<forall>c. eval_call c f vs = Inr v) \<and> holds i v)"
proof -
  obtain a da b db where parts: "parts = [(a, da), (b, db)]"
    using assms(1) by (auto simp: min_max_analysis_def split: list.splits prod.splits)
  then obtain v w where vs: "vs = [v, w]" and "i128 a" "holds a v" "i128 b" "holds b w"
    using assms(3) by (auto simp: list_all2_Cons1)
  then show ?thesis using assms(1,2)
    by (auto simp: min_max_analysis_def parts result_simps Let_def eval_call_def holds_def i128_def fits_min_max
        split: if_splits)
qed

lemma clamp_sound:
  assumes "clamp_analysis True l parts obs = Inr (i, d, obs')" and "list_all2 located parts vs"
  shows "i128 i \<and> (\<exists>v. (\<forall>c. eval_call c ''clamp'' vs = Inr v) \<and> holds i v)"
proof -
  obtain v dv low dl high dh where parts: "parts = [(v, dv), (low, dl), (high, dh)]"
    using assms(1) by (auto simp: clamp_analysis_def split: list.splits prod.splits)
  then obtain x y z where vs: "vs = [x, y, z]" and "i128 low" "i128 high" "holds v x" "holds low y" "holds high z"
    using assms(2) by (auto simp: list_all2_Cons1)
  then show ?thesis using assms(1)
    by (auto simp: clamp_analysis_def parts result_simps Let_def eval_call_def holds_def i128_def interval_new_def
        split: if_splits)
qed

lemma signed_sound:
  assumes "signed_analysis True l parts obs = Inr (i, d, obs')" and "list_all2 located parts vs"
    and "\<And>s m x y. parts = [s, m] \<Longrightarrow> vs = [x, y] \<Longrightarrow> - hi (fst m) \<le> y"
  shows "i128 i \<and> (\<exists>v. (\<forall>c. eval_call c ''signed'' vs = Inr v) \<and> holds i v)"
proof -
  obtain s ds m dm where parts: "parts = [(s, ds), (m, dm)]"
    using assms(1) by (auto simp: signed_analysis_def split: list.splits prod.splits)
  then obtain x y where vs: "vs = [x, y]" and y: "i128 m" "holds m y" and "holds s x"
    using assms(2) by (auto simp: list_all2_Cons1)
  have i: "i = \<lparr>lo = - hi m, hi = hi m\<rparr>" and f: "fits (- hi m)"
    using assms(1) by (auto simp: signed_analysis_def parts result_simps Let_def interval_new_def split: if_splits)
  have "- hi m \<le> y" using assms(3)[OF parts vs] by simp
  then have both: "holds i y" "holds i (- y)" using y by (auto simp: i holds_def)
  have "i128 i" using y(1) f by (simp add: i i128_def)
  then have "fits (- y)" using both(2) by (rule holds_fits)
  then show ?thesis using \<open>i128 i\<close> both by (auto simp: eval_call_def vs)
qed

lemma call_sound:
  assumes "call_analysis True l f parts obs = Inr (i, d, obs')" and "list_all2 located parts vs"
    and "\<And>s m x y. f = ''signed'' \<Longrightarrow> parts = [s, m] \<Longrightarrow> vs = [x, y] \<Longrightarrow> - hi (fst m) \<le> y"
  shows "i128 i \<and> (\<exists>v. (\<forall>c. eval_call c f vs = Inr v) \<and> holds i v)"
proof -
  consider (mm) "f = ''min'' \<or> f = ''max''" | (clamp) "f = ''clamp''" | (signed) "f = ''signed''"
    using assms(1) by (auto simp: call_analysis_def split: if_splits)
  then show ?thesis
  proof cases
    case mm
    then have "min_max_analysis True l f parts obs = Inr (i, d, obs')" using assms(1) by (auto simp: call_analysis_def)
    then show ?thesis using mm assms(2) by (rule min_max_sound)
  next
    case clamp
    then have "clamp_analysis True l parts obs = Inr (i, d, obs')" using assms(1) by (simp add: call_analysis_def)
    then show ?thesis unfolding clamp using assms(2) by (rule clamp_sound)
  next
    case signed
    then have "signed_analysis True l parts obs = Inr (i, d, obs')" using assms(1) by (simp add: call_analysis_def)
    then show ?thesis unfolding signed using assms(2,3) signed by (intro signed_sound) auto
  qed
qed

lemma env_value:
  assumes "decls_wf decls" and "env_ok decls env" and "name_analysis decls nm = Inr (i, d)"
  shows "i128 i \<and> (\<exists>v. bt_get env nm = Some v \<and> holds i v)"
proof -
  obtain q where q: "bt_get decls nm = Some q" "i = decl_interval q"
    using assms(3) by (auto simp: name_analysis_def result_simps split: if_splits)
  then have "(nm, q) \<in> set decls" by (rule_tac bt_get_Some_in)
  then show ?thesis using assms(1,2) q(2) by (auto simp: decls_wf_def decl_wf_def env_ok_def i128_def)
qed

lemma and_bits: "acc = 0 \<or> acc = 1 \<Longrightarrow> v = 0 \<or> v = 1 \<Longrightarrow> and acc v = 0 \<or> and acc v = (1 :: int)"
  by auto

definition sound_at :: "declarations \<Rightarrow> env \<Rightarrow> string \<Rightarrow> expr \<Rightarrow> bool" where
  "sound_at decls env label e \<longleftrightarrow> (\<forall>obs i d obs'. visit True decls label e obs = Inr (i, d, obs') \<longrightarrow>
     i128 i \<and> (\<exists>v. (\<forall>c. eval c env e = Inr v) \<and> holds i v))"

lemma sound_atE:
  assumes "sound_at decls env label e" and "visit True decls label e obs = Inr (i, d, obs')"
  obtains v where "i128 i" and "\<And>c. eval c env e = Inr v" and "holds i v"
  using assms unfolding sound_at_def by blast

lemma visit_all_sound:
  "visit_all True decls label es obs = Inr (parts, obs') \<Longrightarrow> (\<And>e. e \<in> set es \<Longrightarrow> sound_at decls env label e) \<Longrightarrow>
     \<exists>vs. (\<forall>c. eval_all c env es = Inr vs) \<and> list_all2 located parts vs"
proof (induction es arbitrary: obs parts)
  case (Cons e es)
  then obtain i d obs1 ps where e: "visit True decls label e obs = Inr (i, d, obs1)"
    and es: "visit_all True decls label es obs1 = Inr (ps, obs')" and parts: "parts = (i, d) # ps"
    by (auto simp: result_simps)
  obtain v where "i128 i" "\<And>c. eval c env e = Inr v" "holds i v"
    using sound_atE[OF Cons.prems(2) e] by auto
  moreover obtain vs where "\<forall>c. eval_all c env es = Inr vs" "list_all2 located ps vs"
    using Cons.IH[OF es] Cons.prems(2) by auto
  ultimately show ?case by (intro exI[of _ "v # vs"]) (simp add: parts)
qed simp

lemma visit_conditions_sound:
  "visit_conditions True decls label es obs = Inr obs' \<Longrightarrow> (\<And>e. e \<in> set es \<Longrightarrow> sound_at decls env label e) \<Longrightarrow>
     acc = 0 \<or> acc = 1 \<Longrightarrow> \<exists>v. (\<forall>c. eval_and c env acc es = Inr v) \<and> (v = 0 \<or> v = 1)"
proof (induction es arbitrary: obs acc)
  case (Cons e es)
  then obtain i d obs1 where e: "visit True decls label e obs = Inr (i, d, obs1)" and c: "is_condition i"
    and es: "visit_conditions True decls label es obs1 = Inr obs'"
    by (auto simp: result_simps split: if_splits)
  obtain v where v: "\<And>c. eval c env e = Inr v" "holds i v"
    using sound_atE[OF Cons.prems(2) e] by auto
  have "and acc v = 0 \<or> and acc v = 1" using and_bits[OF Cons.prems(3) condition_value[OF c v(2)]] .
  then show ?case using Cons.IH[OF es] Cons.prems(2) v(1) by auto
qed auto

lemma visit_all_second:
  assumes "visit_all True decls label [s, m] obs = Inr ([ps, pm], obs')"
  obtains o1 o2 where "visit True decls label m o1 = Inr (fst pm, snd pm, o2)"
proof -
  have "\<exists>o1. visit True decls label m o1 = Inr (fst pm, snd pm, obs')" using assms by (auto simp: result_simps)
  then show thesis using that by blast
qed

lemma visit_all_length: "visit_all c decls label es obs = Inr (parts, obs') \<Longrightarrow> length parts = length es"
  by (induction es arbitrary: obs parts) (auto simp: result_simps)

lemma signed_in_range:
  assumes "\<not> signed_escapes decls env (Call ''signed'' args)" and "visit_all True decls label args obs = Inr ([s, m], obs')"
    and "eval_all True env args = Inr [x, y]"
  shows "- hi (fst m) \<le> y"
proof -
  obtain a b where args: "args = [a, b]"
    using visit_all_length[OF assms(2)] by (cases args rule: remdups_adj.cases) auto
  obtain o1 o2 where "visit True decls label b o1 = Inr (fst m, snd m, o2)"
    using visit_all_second[OF assms(2)[unfolded args]] by blast
  then have "forget (visit True decls [] b []) = Inr (fst m, snd m)"
    using visit_forget[of True decls "[]" b "[]" label o1] by simp
  moreover have "eval True env b = Inr y" using assms(3) by (auto simp: args result_simps)
  ultimately show ?thesis using assms(1) by (simp add: args case_prod_unfold)
qed

lemma comparison_interval:
  "comparison_analysis True label text oper a b obs = Inr (i, d, obs') \<Longrightarrow> i128 i \<and> lo i = 0 \<and> hi i = 1"
  by (auto simp: result_simps comparison_analysis_def Let_def interval_new_def i128_def fits_def split: if_splits)

lemma comparison_sound:
  assumes "sound_at decls env label a" and "sound_at decls env label b"
  shows "sound_at decls env label (Compare a oper b)"
  unfolding sound_at_def
proof (intro allI impI)
  fix obs i d obs'
  assume "visit True decls label (Compare a oper b) obs = Inr (i, d, obs')"
  then obtain ia da o1 ib db o2 where a: "visit True decls label a obs = Inr (ia, da, o1)"
    and b: "visit True decls label b o1 = Inr (ib, db, o2)"
    and c: "comparison_analysis True label (render (Compare a oper b)) oper ia ib o2 = Inr (i, d, obs')"
    by (auto simp: result_simps)
  obtain v where v: "\<And>c. eval c env a = Inr v" by (rule sound_atE[OF assms(1) a]) (rule that)
  obtain w where w: "\<And>c. eval c env b = Inr w" by (rule sound_atE[OF assms(2) b]) (rule that)
  show "i128 i \<and> (\<exists>v. (\<forall>c. eval c env (Compare a oper b) = Inr v) \<and> holds i v)"
    using comparison_interval[OF c] by (simp add: v w holds_def)
qed

lemma visit_sound:
  assumes "decls_wf decls" and "env_ok decls env"
  shows "expr_wf e \<Longrightarrow> \<not> signed_escapes decls env e \<Longrightarrow> sound_at decls env label e"
proof (induction e)
  case (Const v)
  then show ?case by (simp add: sound_at_def point_def i128_def holds_def)
next
  case (Name nm)
  then show ?case using env_value[OF assms] by (auto simp: sound_at_def result_simps)
next
  case (Neg e)
  then have "sound_at decls env label e" by simp
  then show ?case using negated_sound by (fastforce simp: sound_at_def result_simps)
next
  case (Add a b)
  then have "sound_at decls env label a" "sound_at decls env label b" by simp_all
  then show ?case using addition.bounded addition.enclosed addition.exact
    by (fastforce simp: sound_at_def result_simps)
next
  case (Sub a b)
  then have "sound_at decls env label a" "sound_at decls env label b" by simp_all
  then show ?case using subtraction.bounded subtraction.enclosed subtraction.exact
    by (fastforce simp: sound_at_def result_simps)
next
  case (Mul a b)
  then have "sound_at decls env label a" "sound_at decls env label b" by simp_all
  then show ?case using multiplication.bounded multiplication.enclosed multiplication.exact
    by (fastforce simp: sound_at_def result_simps product_analysis_def Let_def split: if_splits)
next
  case (Compare a oper b)
  then have "sound_at decls env label a" "sound_at decls env label b" by simp_all
  then show ?case by (rule comparison_sound)
next
  case (And parts)
  then have "sound_at decls env label e" if "e \<in> set parts" for e using that by simp
  then show ?case using visit_conditions_sound[of decls label parts _ _ env 1]
    by (fastforce simp: sound_at_def result_simps Let_def interval_new_def i128_def fits_def holds_def)
next
  case (Call f args)
  then have all: "sound_at decls env label e" if "e \<in> set args" for e using that by simp
  show ?case unfolding sound_at_def
  proof (intro allI impI)
    fix obs i d obs'
    assume "visit True decls label (Call f args) obs = Inr (i, d, obs')"
    then obtain parts obs1 where p: "visit_all True decls label args obs = Inr (parts, obs1)"
      and c: "call_analysis True label f parts obs1 = Inr (i, d, obs')"
      by (auto simp: result_simps split: if_splits)
    obtain vs where vs: "\<forall>c. eval_all c env args = Inr vs" "list_all2 located parts vs"
      using visit_all_sound[OF p] all by blast
    have "i128 i \<and> (\<exists>v. (\<forall>c. eval_call c f vs = Inr v) \<and> holds i v)"
      by (rule call_sound[OF c vs(2)]) (use signed_in_range[of decls env args label obs] Call.prems(2) p vs(1) in blast)
    then show "i128 i \<and> (\<exists>v. (\<forall>c. eval c env (Call f args) = Inr v) \<and> holds i v)" using vs(1) by simp
  qed
qed

text \<open>Where every magnitude has its lower end at or above the negated upper end, as where it cannot be negative, no input
  escapes.\<close>

lemma magnitudes_never_escape:
  assumes "decls_wf decls" and "env_ok decls env"
  shows "expr_wf e \<Longrightarrow> signed_magnitudes decls e \<Longrightarrow> \<not> signed_escapes decls env e"
proof (induction e)
  case (Call f args)
  then have inner: "\<not> signed_escapes decls env a" if "a \<in> set args" for a using that by simp
  have "\<not> v < - hi i" if args: "f = ''signed''" "args = [s, m]" and i: "forget (visit True decls [] m []) = Inr (i, d)"
    and v: "eval True env m = Inr v" for s m i d v
  proof -
    obtain obs where vis: "visit True decls [] m [] = Inr (i, d, obs)"
      using i by (cases "visit True decls [] m []") auto
    have "sound_at decls env [] m" using visit_sound[OF assms] inner Call.prems(1) args(2) by simp
    then obtain w where w: "\<And>c. eval c env m = Inr w" "holds i w" using sound_atE[OF _ vis] by blast
    then have "lo i \<le> v" using v by (simp add: holds_def)
    moreover have "- hi i \<le> lo i" using Call.prems(2) args i by simp
    ultimately show ?thesis by simp
  qed
  then show ?case using inner by (auto split: list.splits sum.splits)
qed auto

end
