(* ===== verification/Dsl_Registry.thy ===== *)
theory Dsl_Registry
  imports Dsl_Emit
begin

text \<open>
  \<^verbatim>\<open>src/rust/qomm-dsl/src/registry.rs\<close>: the digests of rules and programs and the registries of approved ones.
  SHA-256 is the argument \<open>sha\<close>. The two slices of a digest in an error text are left out.
\<close>

definition RULE_DOMAIN :: bytes where
  "RULE_DOMAIN = ascii ''QOMM:RULE-DIGEST:v1''"

definition PROGRAM_DOMAIN :: bytes where
  "PROGRAM_DOMAIN = ascii ''QOMM:PROGRAM-DIGEST:v1''"

definition POLICY_RULE_DIGEST_MARKER :: string where
  "POLICY_RULE_DIGEST_MARKER = ''# QOMM_POLICY_RULE_DIGEST=''"

definition hex_digit :: "nat \<Rightarrow> char" where
  "hex_digit n = char_of (if n < 10 then 48 + n else 87 + n)"

definition hex :: "bytes \<Rightarrow> string" where
  "hex bs = concat (map (\<lambda>b. [hex_digit (unat b div 16), hex_digit (unat b mod 16)]) bs)"

definition canonical_declarations :: "declarations \<Rightarrow> string" where
  "canonical_declarations decls =
     concat (map (\<lambda>(nm, d). nm @ ''='' @ role_str (decl_role d)
       @ '':'' @ show_int (lo (decl_interval d)) @ '':'' @ show_int (hi (decl_interval d)) @ '';'') decls)"

definition canonical_circuit :: "(string, string) btree \<Rightarrow> string" where
  "canonical_circuit m = concat (map (\<lambda>(nm, e). nm @ ''='' @ e @ '';'') m)"

definition canonical :: "rule \<Rightarrow> string option" where
  "canonical r =
     Option.bind (to_mpc r) (\<lambda>m. Option.bind (required_bits r) (\<lambda>bits.
       Some (rule_name r @ [char_of (0 :: nat)] @ canonical_declarations (rule_declarations r) @ [char_of (0 :: nat)]
         @ canonical_circuit m @ ''bits='' @ show_nat bits @ '';degree='' @ show_nat (max_degree r))))"

definition rule_digest :: "(bytes \<Rightarrow> bytes) \<Rightarrow> rule \<Rightarrow> string option" where
  "rule_digest sha r = map_option (\<lambda>text. hex (sha (RULE_DOMAIN @ ascii text))) (canonical r)"

definition program_digest :: "(bytes \<Rightarrow> bytes) \<Rightarrow> string \<Rightarrow> string" where
  "program_digest sha source =
     hex (sha (PROGRAM_DOMAIN @ ascii (join [newline] (map trim_end (lines (trim source))))))"

definition strip_prefix :: "string \<Rightarrow> string \<Rightarrow> string option" where
  "strip_prefix p s = (if take (length p) s = p then Some (drop (length p) s) else None)"

definition embedded_policy_rule_digest :: "string \<Rightarrow> rule_error + string" where
  "embedded_policy_rule_digest source =
     (case List.map_filter (\<lambda>line. strip_prefix POLICY_RULE_DIGEST_MARKER (trim line)) (lines source) of
        [v] \<Rightarrow>
          if length v \<noteq> 64 \<or> \<not> list_all (\<lambda>c. is_ascii_digit c \<or> c \<in> set ''abcdef'') v
          then Inl (Late DigestNotCanonical) else Inr v
      | _ \<Rightarrow> Inl (Late DigestMarkers))"

section \<open>Approved rules\<close>

record approved_rule =
  ar_name :: string
  ar_digest :: string
  ar_required_bits :: nat
  ar_source :: string

type_synonym rule_registry = "(string, approved_rule) btree"

definition approve_rule ::
  "bool \<Rightarrow> (bytes \<Rightarrow> bytes) \<Rightarrow> rule_registry \<Rightarrow> string \<Rightarrow> string \<Rightarrow> rule_error + approved_rule \<times> rule_registry" where
  "approve_rule checks sha reg source nm =
     and_then (compile_rule checks source nm) (\<lambda>r.
     and_then (ok_or (rule_digest sha r) Panicked) (\<lambda>digest.
     and_then (ok_or (required_bits r) Panicked) (\<lambda>bits.
       let entry = \<lparr>ar_name = nm, ar_digest = digest, ar_required_bits = bits, ar_source = source\<rparr>
       in Inr (entry, bt_insert digest entry reg))))"

datatype registry_refusal = NotApproved | DoesNotCompile rule_error | Substituted | RegistryPanicked

definition check_rule ::
  "bool \<Rightarrow> (bytes \<Rightarrow> bytes) \<Rightarrow> rule_registry \<Rightarrow> string \<Rightarrow> string \<Rightarrow> string \<Rightarrow> registry_refusal + unit" where
  "check_rule checks sha reg source nm claimed =
     (if \<not> bt_contains reg claimed then Inl NotApproved
      else and_then (map_err DoesNotCompile (compile_rule checks source nm)) (\<lambda>r.
           and_then (ok_or (rule_digest sha r) RegistryPanicked) (\<lambda>digest.
             if digest \<noteq> claimed then Inl Substituted else Inr ())))"

section \<open>Approved circuits\<close>

record approved_circuit =
  ac_name :: string
  ac_rule_digest :: string
  ac_program_digest :: string
  ac_shape :: "u64 list"

datatype circuit_refusal = ShapeNotApproved | ProgramDiffers | NoCircuit

definition circuit_matches ::
  "(bytes \<Rightarrow> bytes) \<Rightarrow> approved_circuit \<Rightarrow> string \<Rightarrow> u64 list \<Rightarrow> circuit_refusal + unit" where
  "circuit_matches sha entry program shape =
     (if shape \<noteq> ac_shape entry then Inl ShapeNotApproved
      else if program_digest sha program \<noteq> ac_program_digest entry then Inl ProgramDiffers
      else Inr ())"

type_synonym circuit_registry = "(u64 list, approved_circuit) btree"

definition approve_circuit ::
  "bool \<Rightarrow> (bytes \<Rightarrow> bytes) \<Rightarrow> circuit_registry \<Rightarrow> string \<Rightarrow> string \<Rightarrow> string \<Rightarrow> u64 list
    \<Rightarrow> rule_error + approved_circuit \<times> circuit_registry" where
  "approve_circuit checks sha reg nm source program_source shape =
     and_then (compile_rule checks source nm) (\<lambda>r.
     and_then (ok_or (rule_digest sha r) Panicked) (\<lambda>expected.
     and_then (embedded_policy_rule_digest program_source) (\<lambda>embedded.
       if embedded \<noteq> expected then Inl (Late GeneratedFromAnotherRule)
       else
         let entry = \<lparr>ac_name = rule_name r, ac_rule_digest = expected,
                      ac_program_digest = program_digest sha program_source, ac_shape = shape\<rparr>
         in Inr (entry, bt_insert shape entry reg))))"

definition check_circuit ::
  "(bytes \<Rightarrow> bytes) \<Rightarrow> circuit_registry \<Rightarrow> string \<Rightarrow> u64 list \<Rightarrow> circuit_refusal + unit" where
  "check_circuit sha reg program shape =
     (case bt_get reg shape of
        None \<Rightarrow> Inl NoCircuit
      | Some entry \<Rightarrow> circuit_matches sha entry program shape)"

definition approved_shapes :: "circuit_registry \<Rightarrow> u64 list list" where
  "approved_shapes reg = map fst reg"

end
