(* ===== verification/Dsl_Checked.thy ===== *)
theory Dsl_Checked
  imports Dsl_Sound Dsl_Registry
begin

text \<open>
  What a rule that passed \<open>check\<close> is known to satisfy: its outputs stay within the derived intervals and width, it
  reads exactly its declared names, none of them forbidden, its degree is at most two, and emission cannot fail.
\<close>

section \<open>Outputs\<close>

abbreviation enclosing :: "string \<times> interval \<Rightarrow> string \<times> int \<Rightarrow> bool" where
  "enclosing p q \<equiv> fst p = fst q \<and> i128 (snd p) \<and> holds (snd p) (snd q)"

lemma enclosing_insert:
  "list_all2 enclosing m m' \<Longrightarrow> i128 i \<Longrightarrow> holds i v \<Longrightarrow> list_all2 enclosing (bt_insert k i m) (bt_insert k v m')"
  by (induction m m' rule: list_all2_induct) auto

lemma outputs_step:
  assumes "try_fold (check_output c decls) (intervals, degrees, obs) (out # outs) = Inr facts"
  obtains i d obs1 where "visit c decls (fst out) (snd out) obs = Inr (i, d, obs1)"
    "try_fold (check_output c decls) (bt_insert (fst out) i intervals, bt_insert (fst out) d degrees, obs1) outs = Inr facts"
proof -
  obtain s where s: "check_output c decls (intervals, degrees, obs) out = Inr s" "try_fold (check_output c decls) s outs = Inr facts"
    using assms by (auto simp: and_then_eq_Inr)
  show thesis using s that by (auto simp: check_output_def[of c decls] and_then_eq_Inr case_prod_unfold)
qed

lemma outputs_sound:
  assumes "decls_wf decls" and "env_ok decls env"
  shows "try_fold (check_output True decls) (intervals, degrees, obs) outs = Inr (intervals', degrees', obs') \<Longrightarrow>
    outs_wf outs \<Longrightarrow> \<forall>(l, e) \<in> set outs. \<not> signed_escapes decls env e \<Longrightarrow> list_all2 enclosing intervals m \<Longrightarrow>
    \<exists>m'. (\<forall>c. try_fold (evaluate_output c env) m outs = Inr m') \<and> list_all2 enclosing intervals' m'"
proof (induction outs arbitrary: intervals degrees obs m)
  case (Cons out outs)
  obtain l e where out: "out = (l, e)" by fastforce
  from Cons.prems(1) obtain i d obs1 where e: "visit True decls l e obs = Inr (i, d, obs1)"
    and rest: "try_fold (check_output True decls) (bt_insert l i intervals, bt_insert l d degrees, obs1) outs
      = Inr (intervals', degrees', obs')"
    unfolding out by (rule outputs_step) simp
  have "sound_at decls env l e"
    by (rule visit_sound[OF assms]) (use Cons.prems(2,3) in \<open>auto simp: out outs_wf_def\<close>)
  from sound_atE[OF this e] obtain v where v: "i128 i" "\<And>c. eval c env e = Inr v" "holds i v" by blast
  obtain m' where "\<forall>c. try_fold (evaluate_output c env) (bt_insert l v m) outs = Inr m'" "list_all2 enclosing intervals' m'"
    using Cons.IH[OF rest _ _ enclosing_insert[OF Cons.prems(4) v(1,3)]] Cons.prems(2,3) by (auto simp: outs_wf_def)
  moreover have "evaluate_output c env m out = Inr (bt_insert l v m)" for c by (simp add: out evaluate_output_def v(2))
  ultimately show ?case by (intro exI[of _ m']) simp
qed simp

lemma outputs_named:
  "try_fold (check_output c decls) (intervals, degrees, obs) outs = Inr (intervals', degrees', obs') \<Longrightarrow>
     fst ` set intervals' = fst ` set intervals \<union> fst ` set outs"
proof (induction outs arbitrary: intervals degrees obs)
  case (Cons out outs)
  from Cons.prems show ?case by (rule outputs_step) (simp add: Cons.IH fst_set_bt_insert)
qed simp

lemma outputs_bt_wf:
  "try_fold (check_output c decls) (intervals, degrees, obs) outs = Inr (intervals', degrees', obs') \<Longrightarrow>
     bt_wf intervals \<Longrightarrow> bt_wf degrees \<Longrightarrow> bt_wf intervals' \<and> bt_wf degrees'"
proof (induction outs arbitrary: intervals degrees obs)
  case (Cons out outs)
  from Cons.prems(1) show ?case by (rule outputs_step) (use Cons.IH Cons.prems(2,3) in fastforce)
qed simp

lemma checkE:
  assumes "check c r = Inr r'"
  obtains intervals degrees obs declared where
    "try_fold (check_output c (rule_declarations r)) ([], [], []) (rule_outputs r) = Inr (intervals, degrees, obs)"
    "r' = r\<lparr>rule_intervals := intervals, rule_degrees := degrees, rule_obligations := declared @ obs\<rparr>"
    "\<And>n. n \<in> fst ` set (rule_declarations r) \<Longrightarrow> \<exists>(l, e) \<in> set (rule_outputs r). n \<in> set (names e)"
proof -
  obtain intervals degrees obs declared where
    outs: "try_fold (check_output c (rule_declarations r)) ([], [], []) (rule_outputs r) = Inr (intervals, degrees, obs)"
    and used: "filter (\<lambda>n. n \<notin> set (concat (map (\<lambda>(_, e). names e) (rule_outputs r)))) (map fst (rule_declarations r)) = []"
    and r': "r' = r\<lparr>rule_intervals := intervals, rule_degrees := degrees, rule_obligations := declared @ obs\<rparr>"
    using assms unfolding check_def Let_def and_then_eq_Inr by (auto simp: and_then_eq_Inr split: if_splits)
  have "\<exists>(l, e) \<in> set (rule_outputs r). n \<in> set (names e)" if "n \<in> fst ` set (rule_declarations r)" for n
    using used that unfolding filter_empty_conv by auto
  then show thesis using that outs r' by blast
qed

lemma compile_ruleE:
  assumes "compile_rule c source nm = Inr r"
  obtains r0 where "parse_rule source nm = Inr r0" "check c r0 = Inr r"
  using assms by (auto simp: compile_rule_def result_simps)

section \<open>The output interval\<close>

definition within :: "interval \<Rightarrow> interval \<Rightarrow> bool" where
  "within i u \<longleftrightarrow> lo u \<le> lo i \<and> hi i \<le> hi u"

lemma within_refl [simp]: "within i i"
  and within_union [simp]: "within i (union i j)" "within j (union i j)"
  by (simp_all add: within_def union_def)

lemma within_trans: "within i j \<Longrightarrow> within j k \<Longrightarrow> within i k"
  by (auto simp: within_def)

lemma combine_outputs_encloses:
  assumes "\<And>n. n \<in> fst ` set outs \<Longrightarrow> bt_contains intervals n"
  shows "\<exists>u. combine_outputs intervals (Some c) outs = Some (Some u) \<and> within c u
      \<and> (\<forall>n \<in> fst ` set outs. \<forall>i. bt_get intervals n = Some i \<longrightarrow> within i u)"
  using assms
proof (induction outs arbitrary: c)
  case (Cons out outs)
  obtain n e where out: "out = (n, e)" by fastforce
  obtain i where i: "bt_get intervals n = Some i" using Cons.prems[of n] by (auto simp: out bt_contains_def)
  obtain u where u: "combine_outputs intervals (Some (union c i)) outs = Some (Some u)" "within (union c i) u"
    "\<forall>n \<in> fst ` set outs. \<forall>i. bt_get intervals n = Some i \<longrightarrow> within i u"
    using Cons.IH[of "union c i"] Cons.prems by auto
  then show ?case
    using within_trans[OF within_union(1) u(2)] within_trans[OF within_union(2) u(2)] by (auto simp: out i)
qed simp

lemma output_interval_encloses:
  assumes "\<And>n. n \<in> fst ` set (rule_outputs r) \<Longrightarrow> bt_contains (rule_intervals r) n" and "rule_outputs r \<noteq> []"
  obtains u where "output_interval r = Some u"
    "\<And>n i. n \<in> fst ` set (rule_outputs r) \<Longrightarrow> bt_get (rule_intervals r) n = Some i \<Longrightarrow> within i u"
proof -
  obtain n e outs where outs: "rule_outputs r = (n, e) # outs" using assms(2) by (cases "rule_outputs r") auto
  obtain i where i: "bt_get (rule_intervals r) n = Some i" using assms(1)[of n] by (auto simp: outs bt_contains_def)
  obtain u where u: "combine_outputs (rule_intervals r) (Some i) outs = Some (Some u)" "within i u"
    "\<forall>n \<in> fst ` set outs. \<forall>i. bt_get (rule_intervals r) n = Some i \<longrightarrow> within i u"
    using combine_outputs_encloses[of outs "rule_intervals r" i] assms(1) by (auto simp: outs)
  show thesis
  proof (rule that)
    show "output_interval r = Some u" by (simp add: output_interval_def outs i u(1))
    show "within j u" if "k \<in> fst ` set (rule_outputs r)" "bt_get (rule_intervals r) k = Some j" for k j
      using that i u(2,3) by (auto simp: outs)
  qed
qed

section \<open>Names and degrees\<close>

definition permitted :: "declarations \<Rightarrow> expr \<Rightarrow> bool" where
  "permitted decls e \<longleftrightarrow> (\<forall>n \<in> set (names e). bt_contains decls n \<and> n \<notin> set FORBIDDEN)"

lemma visit_all_permitted:
  "visit_all c decls label es obs = Inr (parts, obs') \<Longrightarrow>
     (\<And>e obs i d obs'. e \<in> set es \<Longrightarrow> visit c decls label e obs = Inr (i, d, obs') \<Longrightarrow> permitted decls e \<and> d \<le> 2) \<Longrightarrow>
     (\<forall>e \<in> set es. permitted decls e) \<and> list_all (\<lambda>p. snd p \<le> 2) parts"
proof (induction es arbitrary: obs parts)
  case (Cons e es)
  then obtain i d obs1 ps where "visit c decls label e obs = Inr (i, d, obs1)"
    "visit_all c decls label es obs1 = Inr (ps, obs')" "parts = (i, d) # ps"
    by (auto simp: result_simps)
  then show ?case using Cons.IH[of obs1 ps] Cons.prems(2) by fastforce
qed simp

lemma visit_conditions_permitted:
  "visit_conditions c decls label es obs = Inr obs' \<Longrightarrow>
     (\<And>e obs i d obs'. e \<in> set es \<Longrightarrow> visit c decls label e obs = Inr (i, d, obs') \<Longrightarrow> permitted decls e) \<Longrightarrow>
     \<forall>e \<in> set es. permitted decls e"
proof (induction es arbitrary: obs)
  case (Cons e es)
  then obtain i d obs1 where "visit c decls label e obs = Inr (i, d, obs1)" "visit_conditions c decls label es obs1 = Inr obs'"
    by (auto simp: result_simps split: if_splits)
  then show ?case using Cons.IH[of obs1] Cons.prems(2) by fastforce
qed simp

lemma call_analysis_degree:
  "call_analysis c label f parts obs = Inr (i, d, obs') \<Longrightarrow> list_all (\<lambda>p. snd p \<le> 2) parts \<Longrightarrow> d \<le> 2"
  by (auto simp: call_analysis_def min_max_analysis_def clamp_analysis_def signed_analysis_def result_simps Let_def
      split: if_splits list.splits)

lemma permitted_simps [simp]:
  "permitted decls (Const v)" "permitted decls (Neg e) \<longleftrightarrow> permitted decls e"
  "permitted decls (Add e e') \<longleftrightarrow> permitted decls e \<and> permitted decls e'"
  "permitted decls (Sub e e') \<longleftrightarrow> permitted decls e \<and> permitted decls e'"
  "permitted decls (Mul e e') \<longleftrightarrow> permitted decls e \<and> permitted decls e'"
  "permitted decls (Compare e oper e') \<longleftrightarrow> permitted decls e \<and> permitted decls e'"
  "permitted decls (And es) \<longleftrightarrow> (\<forall>e \<in> set es. permitted decls e)"
  "permitted decls (Call f es) \<longleftrightarrow> (\<forall>e \<in> set es. permitted decls e)"
  by (auto simp: permitted_def)

lemma visit_permitted: "visit c decls label e obs = Inr (i, d, obs') \<Longrightarrow> permitted decls e \<and> d \<le> 2"
proof (induction e arbitrary: obs i d obs')
  case (Name nm)
  then show ?case by (auto simp: result_simps permitted_def name_analysis_def bt_contains_def split: if_splits)
next
  case (Neg e)
  then show ?case by (auto simp: and_then_eq_Inr dest: Neg.IH)
next
  case (Add a b)
  then show ?case by (auto simp: and_then_eq_Inr dest: Add.IH)
next
  case (Sub a b)
  then show ?case by (auto simp: and_then_eq_Inr dest: Sub.IH)
next
  case (Mul a b)
  then show ?case by (auto simp: and_then_eq_Inr product_analysis_def Let_def dest: Mul.IH split: if_splits)
next
  case (Compare a oper b)
  then show ?case by (auto simp: and_then_eq_Inr comparison_analysis_def Let_def dest: Compare.IH split: if_splits)
next
  case (And parts)
  then show ?case using visit_conditions_permitted[of c decls label parts obs]
    by (auto simp: and_then_eq_Inr Let_def simp del: visit_conditions.simps)
next
  case (Call f args)
  then obtain parts obs1 where all: "visit_all c decls label args obs = Inr (parts, obs1)"
    and call: "call_analysis c label f parts obs1 = Inr (i, d, obs')"
    by (auto simp: and_then_eq_Inr split: if_splits)
  have "(\<forall>e \<in> set args. permitted decls e) \<and> list_all (\<lambda>p. snd p \<le> 2) parts"
    by (rule visit_all_permitted[OF all]) (rule Call.IH)
  then show ?case using call_analysis_degree[OF call] by simp
qed simp

lemma bt_insert_bounded: "\<forall>v \<in> snd ` set m. v \<le> (b :: nat) \<Longrightarrow> v \<le> b \<Longrightarrow> \<forall>v \<in> snd ` set (bt_insert k v m). v \<le> b"
  by (induction m) auto

lemma outputs_permitted:
  "try_fold (check_output c decls) (intervals, degrees, obs) outs = Inr (intervals', degrees', obs') \<Longrightarrow>
     \<forall>d \<in> snd ` set degrees. d \<le> 2 \<Longrightarrow> (\<forall>(l, e) \<in> set outs. permitted decls e) \<and> (\<forall>d \<in> snd ` set degrees'. d \<le> 2)"
proof (induction outs arbitrary: intervals degrees obs)
  case (Cons out outs)
  from Cons.prems(1) show ?case
  proof (rule outputs_step)
    fix i d obs1 assume e: "visit c decls (fst out) (snd out) obs = Inr (i, d, obs1)"
      and rest: "try_fold (check_output c decls) (bt_insert (fst out) i intervals, bt_insert (fst out) d degrees, obs1) outs
        = Inr (intervals', degrees', obs')"
    show ?case using Cons.IH[OF rest] visit_permitted[OF e] bt_insert_bounded[OF Cons.prems(2), of d "fst out"]
      by (auto simp: case_prod_unfold)
  qed
qed simp

lemma foldr_max_bounded: "\<forall>x \<in> set xs. x \<le> b \<Longrightarrow> foldr max xs (0 :: nat) \<le> b"
  by (induction xs) auto

section \<open>Emission\<close>

lemma mpc_all_total: "(\<And>e. e \<in> set es \<Longrightarrow> \<exists>t. mpc None e = Inr t) \<Longrightarrow> \<exists>ts. mpc_all None es = Inr ts"
  by (induction es) fastforce+

lemma mpc_total: "\<exists>t. mpc None e = Inr t"
proof (induction e)
  case (And parts)
  then show ?case using mpc_all_total[of parts] by auto
next
  case (Call f args)
  then show ?case using mpc_all_total[of args] by auto
qed auto

lemma emit_total: "\<exists>m'. try_fold (emit_output None) m outs = Inr m'"
proof (induction outs arbitrary: m)
  case (Cons out outs)
  then show ?case using mpc_total[of "snd out"] by (auto simp: emit_output_def case_prod_unfold)
qed simp

lemma to_mpc_Some: "\<exists>m. to_mpc r = Some m"
  using emit_total[of "[]" "rule_outputs r"] by (auto simp: to_mpc_def)

end
