(* ===== verification/Dsl_Digest.thy ===== *)
theory Dsl_Digest
  imports Dsl_Checked
begin

text \<open>
  What a rule digest pins. The canonical text is a sequence of delimited fields; its fields contain none of the
  delimiters, so equal texts have equal fields. The registry invariant then carries this to \<open>check_rule\<close>.
\<close>

section \<open>Delimited text\<close>

lemma split_at_char: "x \<notin> set a \<Longrightarrow> x \<notin> set a' \<Longrightarrow> a @ x # b = a' @ x # b' \<longleftrightarrow> a = a' \<and> b = b'"
proof (induction a arbitrary: a')
  case Nil
  then show ?case by (cases a') auto
next
  case (Cons y a)
  then show ?case by (cases a') auto
qed

lemma terminated_inj:
  assumes "\<And>s. s \<in> set xs \<union> set ys \<Longrightarrow> x \<notin> set s" and "x \<notin> set t" and "x \<notin> set t'"
    and "concat (map (\<lambda>s. s @ [x]) xs) @ t = concat (map (\<lambda>s. s @ [x]) ys) @ t'"
  shows "xs = ys \<and> t = t'"
  using assms
proof (induction xs arbitrary: ys)
  case Nil
  then show ?case by (cases ys) auto
next
  case (Cons s xs)
  obtain s' ys' where ys: "ys = s' # ys'" using Cons.prems(2-4) by (cases ys) auto
  have "s @ x # (concat (map (\<lambda>s. s @ [x]) xs) @ t) = s' @ x # (concat (map (\<lambda>s. s @ [x]) ys') @ t')"
    using Cons.prems(4) by (simp add: ys)
  then have "s = s'" "concat (map (\<lambda>s. s @ [x]) xs) @ t = concat (map (\<lambda>s. s @ [x]) ys') @ t'"
    using split_at_char[of x s s'] Cons.prems(1) by (auto simp: ys)
  then show ?case using Cons.IH[of ys'] Cons.prems(1-3) by (auto simp: ys)
qed

definition clean :: "string \<Rightarrow> bool" where
  "clean s \<longleftrightarrow> CHR '';'' \<notin> set s \<and> CHR ''='' \<notin> set s \<and> CHR 0x00 \<notin> set s"

lemma clean_Nil [simp]: "clean []"
  and clean_Cons [simp]: "clean (c # s) \<longleftrightarrow> c \<noteq> CHR '';'' \<and> c \<noteq> CHR ''='' \<and> c \<noteq> CHR 0x00 \<and> clean s"
  and clean_append [simp]: "clean (s @ t) \<longleftrightarrow> clean s \<and> clean t"
  by (auto simp: clean_def)

lemma clean_chars: "list_all word_part s \<Longrightarrow> clean s"
  by (auto simp: clean_def list_all_iff word_part_def is_alphabetic_def is_ascii_digit_def)

lemma clean_identifier: "is_identifier s \<Longrightarrow> clean s"
  by (rule clean_chars) (auto simp: is_identifier_def word_start_def word_part_def split: list.splits)

section \<open>Numbers\<close>

lemma show_nat_digits: "list_all is_ascii_digit (show_nat n)"
proof (induction n rule: show_nat.induct)
  case (1 n)
  then show ?case by (cases "n < 10") (simp_all add: show_nat.simps[of n] is_ascii_digit_def[of "char_of _"])
qed

lemma digits_value_snoc: "digits_value (ds @ [c]) = digits_value ds * 10 + (int (of_char c) - 48)"
  by (simp add: digits_value_def)

lemma digits_value_show_nat: "digits_value (show_nat n) = int n"
proof (induction n rule: show_nat.induct)
  case (1 n)
  show ?case
  proof (cases "n < 10")
    case True
    then show ?thesis by (simp add: show_nat.simps[of n] digits_value_def)
  next
    case False
    then show ?thesis using 1
      by (simp add: show_nat.simps[of n] digits_value_snoc zdiv_int zmod_int)
  qed
qed

lemma show_nat_inj: "show_nat m = show_nat n \<longleftrightarrow> m = n"
  by (metis digits_value_show_nat of_nat_eq_iff)

lemma show_nat_no_minus: "CHR ''-'' \<notin> set (show_nat n)"
  using show_nat_digits[of n] by (auto simp: list_all_iff is_ascii_digit_def)

lemma show_int_inj: "show_int v = show_int w \<longleftrightarrow> v = w"
  using show_nat_no_minus[of "nat v"] show_nat_no_minus[of "nat w"]
  by (auto simp: show_int_def show_nat_inj split: if_splits) (metis list.set_intros(1))+

lemma clean_show_nat [simp]: "clean (show_nat n)"
  by (rule clean_chars) (use show_nat_digits[of n] in \<open>auto simp: list_all_iff word_part_def\<close>)

lemma clean_show_int [simp]: "clean (show_int v)"
  by (simp add: show_int_def)

lemma show_int_no_colon: "CHR '':'' \<notin> set (show_int v)"
  using show_nat_digits[of "nat v"] show_nat_digits[of "nat (- v)"]
  by (auto simp: show_int_def list_all_iff is_ascii_digit_def)

section \<open>The declarations\<close>

definition decl_text :: "string \<times> decl \<Rightarrow> string" where
  "decl_text = (\<lambda>(nm, d). nm @ ''='' @ role_str (decl_role d)
     @ '':'' @ show_int (lo (decl_interval d)) @ '':'' @ show_int (hi (decl_interval d)))"

lemma canonical_declarations_text:
  "canonical_declarations decls = concat (map (\<lambda>s. s @ '';'') (map decl_text decls))"
  by (simp add: canonical_declarations_def decl_text_def case_prod_unfold comp_def)

lemma role_text: "clean (role_str x) \<and> CHR '':'' \<notin> set (role_str x)"
  by (cases x) simp_all

lemma role_str_inj: "role_str x = role_str y \<longleftrightarrow> x = y"
  by (cases x; cases y) simp_all

lemma decl_text_inj:
  assumes "decl_wf k d" and "decl_wf k' d'" and "decl_text (k, d) = decl_text (k', d')"
  shows "k = k' \<and> d = d'"
proof -
  have k: "clean k" "clean k'" using assms(1,2) by (auto simp: decl_wf_def intro: clean_identifier)
  have e: "k @ CHR ''='' # (role_str (decl_role d) @ CHR '':'' # (show_int (lo (decl_interval d)) @ CHR '':'' # show_int (hi (decl_interval d))))
    = k' @ CHR ''='' # (role_str (decl_role d') @ CHR '':'' # (show_int (lo (decl_interval d')) @ CHR '':'' # show_int (hi (decl_interval d'))))"
    using assms(3) by (simp add: decl_text_def)
  then have kk: "k = k'" and "role_str (decl_role d) = role_str (decl_role d')"
    and "show_int (lo (decl_interval d)) = show_int (lo (decl_interval d'))"
    and "show_int (hi (decl_interval d)) = show_int (hi (decl_interval d'))"
    using k role_text show_int_no_colon by (auto simp: split_at_char clean_def)
  then have "decl_name d = decl_name d'" "decl_role d = decl_role d'" "decl_interval d = decl_interval d'"
    using assms(1,2) by (auto simp: role_str_inj show_int_inj decl_wf_def)
  then show ?thesis using kk by simp
qed

lemma decl_text_clean:
  assumes "decl_wf k d"
  shows "CHR '';'' \<notin> set (decl_text (k, d)) \<and> CHR 0x00 \<notin> set (decl_text (k, d))"
proof -
  have "clean k" "clean (role_str (decl_role d))" "clean (show_int (lo (decl_interval d)))" "clean (show_int (hi (decl_interval d)))"
    using assms role_text by (auto simp: decl_wf_def intro: clean_identifier)
  then show ?thesis by (auto simp: decl_text_def clean_def)
qed

lemma decl_texts_inj:
  assumes "\<forall>(k, d) \<in> set xs. decl_wf k d" and "\<forall>(k, d) \<in> set ys. decl_wf k d" and "map decl_text xs = map decl_text ys"
  shows "xs = ys"
proof (rule map_inj_on[OF assms(3)], rule inj_onI)
  fix p q assume "p \<in> set xs \<union> set ys" "q \<in> set xs \<union> set ys" and e: "decl_text p = decl_text q"
  then have "decl_wf (fst p) (snd p)" "decl_wf (fst q) (snd q)" using assms(1,2) by auto
  then show "p = q" using decl_text_inj[of "fst p" "snd p" "fst q" "snd q"] e by (simp add: prod_eq_iff)
qed

lemma canonical_declarations_inj:
  assumes "decls_wf xs" and "decls_wf ys" and "canonical_declarations xs = canonical_declarations ys"
  shows "xs = ys"
proof (rule decl_texts_inj)
  show wf: "\<forall>(k, d) \<in> set xs. decl_wf k d" "\<forall>(k, d) \<in> set ys. decl_wf k d"
    using assms(1,2) by (simp_all add: decls_wf_def)
  have "CHR '';'' \<notin> set (decl_text p)" if "p \<in> set xs \<union> set ys" for p
    using wf that decl_text_clean[of "fst p" "snd p"] by auto
  then have "\<And>s. s \<in> set (map decl_text xs) \<union> set (map decl_text ys) \<Longrightarrow> CHR '';'' \<notin> set s" by auto
  then show "map decl_text xs = map decl_text ys"
    using terminated_inj[of "map decl_text xs" "map decl_text ys" "CHR '';''" "[]" "[]"] assms(3)
    by (simp add: canonical_declarations_text)
qed

lemma canonical_declarations_no_nul:
  assumes "decls_wf decls"
  shows "CHR 0x00 \<notin> set (canonical_declarations decls)"
proof -
  have "CHR 0x00 \<notin> set (decl_text p)" if "p \<in> set decls" for p
    using assms that decl_text_clean[of "fst p" "snd p"] by (auto simp: decls_wf_def)
  then show ?thesis by (auto simp: canonical_declarations_text)
qed

section \<open>The circuit\<close>

lemma clean_join: "clean sep \<Longrightarrow> \<forall>s \<in> set ss. clean s \<Longrightarrow> clean (join sep ss)"
  by (induction sep ss rule: join.induct) simp_all

lemma clean_mpc_cmp: "clean l \<Longrightarrow> clean r \<Longrightarrow> clean (mpc_cmp oper l r)"
  by (cases oper) simp_all

lemma clean_mpc_call: "f \<in> set INTRINSICS \<Longrightarrow> \<forall>s \<in> set ts. clean s \<Longrightarrow> clean (mpc_call f ts)"
  by (auto simp: mpc_call_def INTRINSICS_def split: list.splits)

lemma clean_mpc_all:
  "mpc_all None es = Inr ts \<Longrightarrow> \<forall>e \<in> set es. \<forall>t. mpc None e = Inr t \<longrightarrow> clean t \<Longrightarrow> \<forall>s \<in> set ts. clean s"
  by (induction es arbitrary: ts) (auto simp: and_then_eq_Inr)

lemma clean_mpc: "expr_wf e \<Longrightarrow> mpc None e = Inr t \<Longrightarrow> clean t"
proof (induction e arbitrary: t)
  case (Compare a oper b)
  then show ?case by (auto simp: and_then_eq_Inr intro!: clean_mpc_cmp)
next
  case (And parts)
  then show ?case using clean_mpc_all[of parts] by (auto simp: and_then_eq_Inr intro!: clean_join)
next
  case (Call f args)
  then show ?case using clean_mpc_all[of args] by (auto simp: and_then_eq_Inr intro!: clean_mpc_call)
qed (auto simp: and_then_eq_Inr clean_identifier)

definition circuit_wf :: "(string, string) btree \<Rightarrow> bool" where
  "circuit_wf m \<longleftrightarrow> (\<forall>(nm, e) \<in> set m. clean nm \<and> clean e)"

lemma emit_wf: "try_fold (emit_output None) m outs = Inr m' \<Longrightarrow> outs_wf outs \<Longrightarrow> circuit_wf m \<Longrightarrow> circuit_wf m'"
proof (induction outs arbitrary: m)
  case (Cons out outs)
  obtain nm e where out: "out = (nm, e)" by fastforce
  obtain s where s: "mpc None e = Inr s" and rest: "try_fold (emit_output None) (bt_insert nm s m) outs = Inr m'"
    using Cons.prems(1) by (auto simp: out emit_output_def[of None m] and_then_eq_Inr)
  have "clean nm" "clean s" "outs_wf outs"
    using Cons.prems(2) clean_mpc[OF _ s] by (auto simp: outs_wf_def out clean_identifier)
  then show ?case using Cons.IH[OF rest] Cons.prems(3) bt_set_insert[of nm s m] by (auto simp: circuit_wf_def)
qed simp

lemma to_mpc_wf: "to_mpc r = Some m \<Longrightarrow> outs_wf (rule_outputs r) \<Longrightarrow> circuit_wf m"
  using emit_wf[of "[]" "rule_outputs r" m] by (auto simp: to_mpc_def circuit_wf_def split: sum.splits)

definition circuit_text :: "string \<times> string \<Rightarrow> string" where
  "circuit_text = (\<lambda>(nm, e). nm @ ''='' @ e)"

lemma canonical_circuit_text: "canonical_circuit m = concat (map (\<lambda>s. s @ '';'') (map circuit_text m))"
  by (simp add: canonical_circuit_def circuit_text_def case_prod_unfold comp_def)

lemma circuit_text_inj: "clean k \<Longrightarrow> clean k' \<Longrightarrow> circuit_text (k, e) = circuit_text (k', e') \<Longrightarrow> k = k' \<and> e = e'"
  by (simp add: circuit_text_def clean_def split_at_char)

lemma circuit_texts_inj:
  assumes "circuit_wf m" and "circuit_wf m'" and "map circuit_text m = map circuit_text m'"
  shows "m = m'"
proof (rule map_inj_on[OF assms(3)], rule inj_onI)
  fix p q assume "p \<in> set m \<union> set m'" "q \<in> set m \<union> set m'" and e: "circuit_text p = circuit_text q"
  then have "clean (fst p)" "clean (fst q)" using assms(1,2) by (auto simp: circuit_wf_def)
  then show "p = q" using circuit_text_inj[of "fst p" "fst q" "snd p" "snd q"] e by (simp add: prod_eq_iff)
qed

lemma circuit_tail_inj:
  assumes "circuit_wf m" and "circuit_wf m'"
    and "canonical_circuit m @ ''bits='' @ show_nat b @ '';degree='' @ show_nat d
       = canonical_circuit m' @ ''bits='' @ show_nat b' @ '';degree='' @ show_nat d'"
  shows "m = m' \<and> b = b' \<and> d = d'"
proof -
  let ?items = "\<lambda>m b. map circuit_text m @ [''bits='' @ show_nat b]"
  have no: "CHR '';'' \<notin> set (show_nat n)" for n using clean_show_nat[of n] by (simp add: clean_def)
  have "CHR '';'' \<notin> set (circuit_text p)" if "p \<in> set m \<union> set m'" for p
    using that assms(1,2) by (auto simp: circuit_wf_def circuit_text_def clean_def)
  then have free: "\<And>s. s \<in> set (?items m b) \<union> set (?items m' b') \<Longrightarrow> CHR '';'' \<notin> set s" using no by auto
  have "?items m b = ?items m' b' \<and> ''degree='' @ show_nat d = ''degree='' @ show_nat d'"
    by (rule terminated_inj[OF free]) (use no assms(3) in \<open>simp_all add: canonical_circuit_text\<close>)
  then show ?thesis using circuit_texts_inj[OF assms(1,2)] by (simp add: show_nat_inj)
qed

section \<open>The canonical text\<close>

lemma nul: "char_of (0 :: nat) = CHR 0x00"
  by (simp add: char_of_def)

definition rule_wf :: "rule \<Rightarrow> bool" where
  "rule_wf r \<longleftrightarrow> decls_wf (rule_declarations r) \<and> outs_wf (rule_outputs r)"

definition tail_text :: "(string, string) btree \<Rightarrow> nat \<Rightarrow> nat \<Rightarrow> string" where
  "tail_text m b d = canonical_circuit m @ ''bits='' @ show_nat b @ '';degree='' @ show_nat d"

lemma canonicalE:
  assumes "canonical r = Some t"
  obtains m b where "to_mpc r = Some m" "required_bits r = Some b"
    "t = rule_name r @ CHR 0x00 # (canonical_declarations (rule_declarations r) @ CHR 0x00 # tail_text m b (max_degree r))"
  using assms that
  by (cases "to_mpc r"; cases "required_bits r") (simp_all add: canonical_def tail_text_def nul del: split_paired_All)

lemma canonical_inj:
  assumes "canonical r = Some t" and "canonical r' = Some t" and "rule_wf r" and "rule_wf r'"
    and "CHR 0x00 \<notin> set (rule_name r)" and "CHR 0x00 \<notin> set (rule_name r')"
  shows "rule_name r = rule_name r' \<and> rule_declarations r = rule_declarations r' \<and> to_mpc r = to_mpc r'
    \<and> required_bits r = required_bits r' \<and> max_degree r = max_degree r'"
proof -
  from assms(1) obtain m b where m: "to_mpc r = Some m" "required_bits r = Some b"
    and t: "t = rule_name r @ CHR 0x00 # (canonical_declarations (rule_declarations r) @ CHR 0x00 # tail_text m b (max_degree r))"
    by (rule canonicalE)
  from assms(2) obtain m' b' where m': "to_mpc r' = Some m'" "required_bits r' = Some b'"
    and t': "t = rule_name r' @ CHR 0x00 # (canonical_declarations (rule_declarations r') @ CHR 0x00 # tail_text m' b' (max_degree r'))"
    by (rule canonicalE)
  have d: "decls_wf (rule_declarations r)" "decls_wf (rule_declarations r')"
    using assms(3,4) by (simp_all add: rule_wf_def)
  have c: "circuit_wf m" "circuit_wf m'"
    using assms(3,4) to_mpc_wf[OF m(1)] to_mpc_wf[OF m'(1)] by (simp_all add: rule_wf_def)
  from t t' have e: "rule_name r = rule_name r'"
    "canonical_declarations (rule_declarations r) = canonical_declarations (rule_declarations r')"
    "tail_text m b (max_degree r) = tail_text m' b' (max_degree r')"
    using split_at_char[OF assms(5,6)]
      split_at_char[OF canonical_declarations_no_nul[OF d(1)] canonical_declarations_no_nul[OF d(2)]] by metis+
  show ?thesis
    using canonical_declarations_inj[OF d e(2)] circuit_tail_inj[OF c e(3)[unfolded tail_text_def]]
    by (simp add: m m' e(1))
qed

end
