(* ===== verification/Dsl_Properties.thy ===== *)
theory Dsl_Properties
  imports Dsl_Digest
begin

text \<open>
  The properties of the rule compiler: bounds of what a checked rule computes, the names it may read, termination of the
  parser, well-formed results, and what a registered digest pins. Four lemmas at the end record where the
  compiler falls short of its documentation.
\<close>

section \<open>Compiled rules\<close>

lemma compiled_wf:
  assumes "compile_rule c source nm = Inr r"
  shows "rule_wf r \<and> rule_outputs r \<noteq> [] \<and> rule_name r = nm"
proof -
  obtain r0 where p: "parse_rule source nm = Inr r0" and k: "check c r0 = Inr r" using assms by (rule compile_ruleE)
  from k show ?thesis by (rule checkE) (use parse_rule_wf[OF p] in \<open>simp add: rule_wf_def\<close>)
qed

lemma compiled_outputs:
  assumes "compile_rule c source nm = Inr r"
  obtains obs where
    "try_fold (check_output c (rule_declarations r)) ([], [], []) (rule_outputs r) = Inr (rule_intervals r, rule_degrees r, obs)"
    "\<And>n. n \<in> fst ` set (rule_declarations r) \<Longrightarrow> \<exists>(l, e) \<in> set (rule_outputs r). n \<in> set (names e)"
proof -
  obtain r0 where k: "check c r0 = Inr r" using assms by (rule compile_ruleE)
  from k show thesis by (rule checkE) (rule that, simp_all)
qed

lemma compiled_required_bits:
  assumes "compile_rule c source nm = Inr r"
  obtains u where "output_interval r = Some u" "required_bits r = Some (width_bits u)"
    "\<And>n i. bt_get (rule_intervals r) n = Some i \<Longrightarrow> within i u"
proof -
  obtain obs where o: "try_fold (check_output c (rule_declarations r)) ([], [], []) (rule_outputs r)
      = Inr (rule_intervals r, rule_degrees r, obs)"
    by (rule compiled_outputs[OF assms])
  have named: "fst ` set (rule_intervals r) = fst ` set (rule_outputs r)" using outputs_named[OF o] by simp
  have "bt_contains (rule_intervals r) n" if "n \<in> fst ` set (rule_outputs r)" for n
    using that by (simp add: bt_contains_iff named)
  then obtain u where u: "output_interval r = Some u"
    "\<And>n i. n \<in> fst ` set (rule_outputs r) \<Longrightarrow> bt_get (rule_intervals r) n = Some i \<Longrightarrow> within i u"
    using output_interval_encloses compiled_wf[OF assms] by blast
  have "n \<in> fst ` set (rule_outputs r)" if "bt_get (rule_intervals r) n = Some i" for n i
    using that bt_get_None_iff[of "rule_intervals r" n] by (auto simp: named)
  then show thesis using that[OF u(1)] u by (simp add: required_bits_def)
qed

lemma enclosing_member:
  "list_all2 enclosing m m' \<Longrightarrow> (n, v) \<in> set m' \<Longrightarrow> \<exists>i. (n, i) \<in> set m \<and> holds i v"
  by (induction m m' rule: list_all2_induct) auto

lemma enclosing_names: "list_all2 enclosing m m' \<Longrightarrow> map fst m = map fst m'"
  by (induction m m' rule: list_all2_induct) auto

text \<open>C29: What an accepted rule computes stays within what the checker derived, up to one identified exception. Let the checker
  accept a rule with overflow checks on. On every input within the declared bounds either the rule evaluates, in every
  build and without overflow, to one value per output, each within the derived interval of its output and within the
  signed width \<open>required_bits\<close>; or the input takes the magnitude of some \<open>signed\<close> call of the rule below the negated upper
  end of the interval derived for that magnitude. The second case occurs (\<open>signed_escapes_interval\<close>); it cannot where the
  derived magnitudes are symmetric or not negative (\<open>magnitudes_never_escape\<close>).
\<close>

theorem rule_outputs_bounded:
  assumes "compile_rule True source nm = Inr r"
    and "env_ok (rule_declarations r) env"
  shows "(\<exists>outs bits. (\<forall>c. evaluate_rule c r env = Inr outs) \<and> required_bits r = Some bits
      \<and> fst ` set outs = fst ` set (rule_outputs r)
      \<and> (\<forall>(n, v) \<in> set outs. (\<exists>i. bt_get (rule_intervals r) n = Some i \<and> holds i v)
            \<and> - (2 ^ (bits - 1)) \<le> v \<and> v < 2 ^ (bits - 1)))
    \<or> (\<exists>(l, e) \<in> set (rule_outputs r). signed_escapes (rule_declarations r) env e)"
proof (cases "\<exists>(l, e) \<in> set (rule_outputs r). signed_escapes (rule_declarations r) env e")
  case False
  then have safe: "\<forall>(l, e) \<in> set (rule_outputs r). \<not> signed_escapes (rule_declarations r) env e" by auto
  have wf: "decls_wf (rule_declarations r)" "outs_wf (rule_outputs r)" using compiled_wf[OF assms(1)] by (simp_all add: rule_wf_def)
  obtain obs where o: "try_fold (check_output True (rule_declarations r)) ([], [], []) (rule_outputs r)
      = Inr (rule_intervals r, rule_degrees r, obs)"
    by (rule compiled_outputs[OF assms(1)])
  obtain outs where outs: "\<forall>c. evaluate_rule c r env = Inr outs" "list_all2 enclosing (rule_intervals r) outs"
    using outputs_sound[OF wf(1) assms(2) o wf(2) safe, of "[]"] by (auto simp: evaluate_rule_def)
  obtain u where u: "required_bits r = Some (width_bits u)" "\<And>n i. bt_get (rule_intervals r) n = Some i \<Longrightarrow> within i u"
    by (rule compiled_required_bits[OF assms(1)]) (rule that; assumption)
  have bt: "bt_wf (rule_intervals r)" using outputs_bt_wf[OF o] by simp
  have "(\<exists>i. bt_get (rule_intervals r) n = Some i \<and> holds i v) \<and> holds u v" if nv: "(n, v) \<in> set outs" for n v
  proof -
    obtain i where i: "bt_get (rule_intervals r) n = Some i" "holds i v"
      using enclosing_member[OF outs(2) nv] bt_get_iff[OF bt] by blast
    then show ?thesis using u(2)[OF i(1)] by (auto simp: within_def holds_def)
  qed
  moreover have "fst ` set outs = fst ` set (rule_outputs r)"
    using enclosing_names[OF outs(2)] outputs_named[OF o] by (metis image_empty list.set(1) list.set_map sup_bot.left_neutral)
  ultimately show ?thesis using outs(1) u(1) width_bits_bound by blast
qed blast

definition demo_source :: string where
  "demo_source = ''param spread[0,9]'' @ [newline] @ ''input side[0,1] size[0,20]'' @ [newline]
     @ ''quote = 100 + signed(side > 0, spread) * 2'' @ [newline] @ ''fee = min(size, 5) - 1''"

definition demo_rule :: "bool \<Rightarrow> rule" where
  "demo_rule c = (case compile_rule c demo_source ''demo'' of Inr r \<Rightarrow> r
     | Inl _ \<Rightarrow> \<lparr>rule_name = [], rule_declarations = [], rule_outputs = [], rule_source = [], rule_intervals = [],
                 rule_degrees = [], rule_obligations = []\<rparr>)"

definition demo_env :: env where
  "demo_env = [(''side'', 0), (''size'', 7), (''spread'', 4)]"

lemma demo_compiles: "compile_rule True demo_source ''demo'' = Inr (demo_rule True)"
  by code_simp

lemma demo_env_ok: "env_ok (rule_declarations (demo_rule True)) demo_env"
proof -
  have "list_all (\<lambda>(k, d). case bt_get demo_env k of None \<Rightarrow> False
      | Some v \<Rightarrow> lo (decl_interval d) \<le> v \<and> v \<le> hi (decl_interval d)) (rule_declarations (demo_rule True))"
    by code_simp
  then show ?thesis by (auto simp: env_ok_def holds_def list_all_iff split: option.splits)
qed

theorem rule_outputs_bounded_witness:
  "\<exists>outs bits. evaluate_rule False (demo_rule True) demo_env = Inr outs \<and> required_bits (demo_rule True) = Some bits
    \<and> outs = [(''fee'', 4), (''quote'', 92)] \<and> (\<forall>(n, v) \<in> set outs. - (2 ^ (bits - 1)) \<le> v \<and> v < 2 ^ (bits - 1))"
proof -
  have e: "evaluate_rule False (demo_rule True) demo_env = Inr [(''fee'', 4), (''quote'', 92)]" by code_simp
  have "\<not> (\<exists>(l, e) \<in> set (rule_outputs (demo_rule True)). signed_escapes (rule_declarations (demo_rule True)) demo_env e)"
    by code_simp
  then show ?thesis using rule_outputs_bounded[OF demo_compiles demo_env_ok] e by fastforce
qed

text \<open>C30: A compiled rule reads exactly the names it declares: every name in an output is declared, none is on the list of
  forbidden identity names, and every declared name is read. No output exceeds degree two.
\<close>

theorem rule_reads_permitted:
  assumes "compile_rule c source nm = Inr r"
  shows "(\<Union>(l, e) \<in> set (rule_outputs r). set (names e)) = fst ` set (rule_declarations r)
    \<and> fst ` set (rule_declarations r) \<inter> set FORBIDDEN = {} \<and> max_degree r \<le> 2"
proof -
  from assms obtain obs where o: "try_fold (check_output c (rule_declarations r)) ([], [], []) (rule_outputs r)
      = Inr (rule_intervals r, rule_degrees r, obs)"
    and used: "\<And>n. n \<in> fst ` set (rule_declarations r) \<Longrightarrow> \<exists>(l, e) \<in> set (rule_outputs r). n \<in> set (names e)"
    by (rule compiled_outputs) (rule that; assumption)
  have p: "\<forall>(l, e) \<in> set (rule_outputs r). permitted (rule_declarations r) e" "\<forall>d \<in> snd ` set (rule_degrees r). d \<le> 2"
    using outputs_permitted[OF o] by simp_all
  have "(\<Union>(l, e) \<in> set (rule_outputs r). set (names e)) \<subseteq> fst ` set (rule_declarations r)"
    using p(1) by (fastforce simp: permitted_def bt_contains_iff)
  moreover have "fst ` set (rule_declarations r) \<subseteq> (\<Union>(l, e) \<in> set (rule_outputs r). set (names e))"
    using used by fastforce
  moreover have "fst ` set (rule_declarations r) \<inter> set FORBIDDEN = {}"
    using compiled_wf[OF assms] by (auto simp: rule_wf_def decls_wf_def decl_wf_def)
  moreover have "max_degree r \<le> 2" using p(2) by (auto simp: max_degree_def intro!: foldr_max_bounded)
  ultimately show ?thesis by blast
qed

theorem rule_reads_permitted_witness:
  "fst ` set (rule_declarations (demo_rule True)) \<inter> set FORBIDDEN = {} \<and> max_degree (demo_rule True) \<le> 2
    \<and> length (rule_declarations (demo_rule True)) = 3"
proof -
  have "length (rule_declarations (demo_rule True)) = 3" by code_simp
  then show ?thesis using rule_reads_permitted[OF demo_compiles] by blast
qed

text \<open>C31: The expression parser returns on every input: its fuel never runs out, and more fuel gives the same answer, so the
  answer is the one of the unbounded recursive descent.
\<close>

theorem parser_terminates:
  "parse_expression lineno source \<noteq> Inl OutOfFuel
    \<and> conjunction (parser_fuel ts) lineno ts \<noteq> Inl OutOfFuel
    \<and> conjunction (parser_fuel ts + n) lineno ts = conjunction (parser_fuel ts) lineno ts"
proof -
  have "conjunction (parser_fuel ts) lineno ts \<noteq> Inl OutOfFuel"
    using parsers_settleD(1)[OF parsers_settle, of ts "parser_fuel ts" lineno] by (auto simp: parser_fuel_def)
  then show ?thesis using parse_expression_fuel conjunction_more_fuel[of "parser_fuel ts" lineno ts "parser_fuel ts + n"] by simp
qed

text \<open>C32: What the compiler returns is well-formed: the declarations are sorted by name without duplicates, each an identifier
  with a non-empty interval of 128-bit bounds; the outputs are a non-empty list of identifiers with expressions whose
  constants fit 128 bits and whose calls are intrinsics; every output has exactly one interval and one degree.
\<close>

theorem compiled_rule_typed:
  assumes "compile_rule c source nm = Inr r"
  shows "decls_wf (rule_declarations r) \<and> outs_wf (rule_outputs r) \<and> rule_outputs r \<noteq> [] \<and> rule_name r = nm
    \<and> bt_wf (rule_intervals r) \<and> bt_wf (rule_degrees r) \<and> fst ` set (rule_intervals r) = fst ` set (rule_outputs r)
    \<and> to_mpc r \<noteq> None \<and> required_bits r \<noteq> None"
proof -
  from assms obtain obs where o: "try_fold (check_output c (rule_declarations r)) ([], [], []) (rule_outputs r)
      = Inr (rule_intervals r, rule_degrees r, obs)"
    by (rule compiled_outputs)
  have "required_bits r \<noteq> None" using assms by (rule compiled_required_bits) simp
  then show ?thesis
    using compiled_wf[OF assms] outputs_bt_wf[OF o] outputs_named[OF o] to_mpc_Some[of r] by (auto simp: rule_wf_def)
qed

theorem compiled_rule_typed_witness:
  "decls_wf (rule_declarations (demo_rule True)) \<and> outs_wf (rule_outputs (demo_rule True))
    \<and> map fst (rule_outputs (demo_rule True)) = [''quote'', ''fee'']"
proof -
  have "map fst (rule_outputs (demo_rule True)) = [''quote'', ''fee'']" by code_simp
  then show ?thesis using compiled_rule_typed[OF demo_compiles] by blast
qed

section \<open>Approved rules\<close>

text \<open>Registries that arise by approvals.\<close>

inductive registry_run :: "bool \<Rightarrow> (bytes \<Rightarrow> bytes) \<Rightarrow> rule_registry \<Rightarrow> bool" for c sha where
  Empty: "registry_run c sha []"
| Approve: "registry_run c sha reg \<Longrightarrow> approve_rule c sha reg source nm = Inr (entry, reg') \<Longrightarrow> registry_run c sha reg'"

inductive_cases registry_runE: "registry_run c sha reg"

definition entry_ok :: "bool \<Rightarrow> (bytes \<Rightarrow> bytes) \<Rightarrow> string \<times> approved_rule \<Rightarrow> bool" where
  "entry_ok c sha p \<longleftrightarrow> (\<exists>r. compile_rule c (ar_source (snd p)) (ar_name (snd p)) = Inr r \<and> rule_digest sha r = Some (fst p)
     \<and> ar_digest (snd p) = fst p \<and> required_bits r = Some (ar_required_bits (snd p)))"

lemma registry_run_ok: "registry_run c sha reg \<Longrightarrow> bt_wf reg \<and> (\<forall>p \<in> set reg. entry_ok c sha p)"
proof (induction rule: registry_run.induct)
  case (Approve reg source nm entry reg')
  obtain r digest bits where r: "compile_rule c source nm = Inr r" "rule_digest sha r = Some digest" "required_bits r = Some bits"
    and e: "entry = \<lparr>ar_name = nm, ar_digest = digest, ar_required_bits = bits, ar_source = source\<rparr>"
    and reg': "reg' = bt_insert digest entry reg"
    using Approve.hyps(2) by (auto simp: approve_rule_def and_then_eq_Inr ok_or_def Let_def split: option.splits)
  have "entry_ok c sha (digest, entry)" using r by (simp add: entry_ok_def e)
  then show ?case using Approve.IH bt_set_insert[of digest entry reg] by (auto simp: reg')
qed simp

lemma hex_digit_inj: "m < 16 \<Longrightarrow> n < 16 \<Longrightarrow> hex_digit m = hex_digit n \<Longrightarrow> m = n"
  by (auto simp: hex_digit_def char_of_eq_iff take_bit_eq_mod split: if_splits)

lemma hex_inj: "hex xs = hex ys \<Longrightarrow> xs = ys"
proof (induction xs arbitrary: ys)
  case Nil
  then show ?case by (cases ys) (auto simp: hex_def)
next
  case (Cons x xs)
  obtain y ys' where ys: "ys = y # ys'" using Cons.prems by (cases ys) (auto simp: hex_def)
  have b: "unat x < 256" "unat y < 256" using unsigned_less[of x] unsigned_less[of y] by simp_all
  have "unat x div 16 = unat y div 16" "unat x mod 16 = unat y mod 16" "xs = ys'"
    using Cons.prems Cons.IH[of ys'] b by (auto simp: hex_def ys intro!: hex_digit_inj)
  then have "unat x = unat y" by (metis div_mult_mod_eq)
  then have "x = y" by (rule unsigned_word_eqI)
  then show ?case using \<open>xs = ys'\<close> by (simp add: ys)
qed

text \<open>C33: A rule that the registry accepts under a claimed digest is, up to a collision of the hash on two different canonical
  texts, the rule approved under that digest: same name, declarations and bounds, same emitted circuit, width and degree.
  The names of the rules contain no NUL, which separates the fields of the text.
\<close>

theorem approved_rule_pinned:
  assumes "registry_run c sha reg" and "check_rule c sha reg source nm claimed = Inr ()"
    and "CHR 0x00 \<notin> set nm" and "\<forall>(d, e) \<in> set reg. CHR 0x00 \<notin> set (ar_name e)"
  shows "\<exists>entry r r'. bt_get reg claimed = Some entry \<and> compile_rule c source nm = Inr r
    \<and> compile_rule c (ar_source entry) (ar_name entry) = Inr r' \<and> required_bits r' = Some (ar_required_bits entry)
    \<and> ((rule_name r = rule_name r' \<and> rule_declarations r = rule_declarations r' \<and> to_mpc r = to_mpc r'
          \<and> required_bits r = required_bits r' \<and> max_degree r = max_degree r')
       \<or> (\<exists>t t'. canonical r = Some t \<and> canonical r' = Some t' \<and> t \<noteq> t'
            \<and> sha (RULE_DOMAIN @ ascii t) = sha (RULE_DOMAIN @ ascii t')))"
proof -
  obtain entry r where e: "bt_get reg claimed = Some entry" and r: "compile_rule c source nm = Inr r" "rule_digest sha r = Some claimed"
    using assms(2) by (auto simp: check_rule_def bt_contains_def and_then_eq_Inr map_err_def ok_or_def
        split: if_splits option.splits sum.splits)
  have mem: "(claimed, entry) \<in> set reg" using e by (rule bt_get_Some_in)
  then obtain r' where r': "compile_rule c (ar_source entry) (ar_name entry) = Inr r'" "rule_digest sha r' = Some claimed"
    "required_bits r' = Some (ar_required_bits entry)"
    using registry_run_ok[OF assms(1)] by (fastforce simp: entry_ok_def)
  obtain t t' where t: "canonical r = Some t" "canonical r' = Some t'"
    and h: "sha (RULE_DOMAIN @ ascii t) = sha (RULE_DOMAIN @ ascii t')"
    using r(2) r'(2) by (auto simp: rule_digest_def dest: hex_inj)
  have nul: "CHR 0x00 \<notin> set (rule_name r)" "CHR 0x00 \<notin> set (rule_name r')"
    using assms(3,4) mem compiled_wf[OF r(1)] compiled_wf[OF r'(1)] by auto
  show ?thesis
  proof (cases "t = t'")
    case True
    then show ?thesis using canonical_inj[OF t(1) _ _ _ nul] t(2) compiled_wf[OF r(1)] compiled_wf[OF r'(1)] e r(1) r'(1,3) by blast
  next
    case False
    then show ?thesis using e r(1) r'(1,3) t h by blast
  qed
qed

theorem approved_rule_pinned_witness:
  "\<exists>reg claimed entry r'. registry_run True (\<lambda>b. b) reg \<and> check_rule True (\<lambda>b. b) reg demo_source ''demo'' claimed = Inr ()
     \<and> bt_get reg claimed = Some entry \<and> compile_rule True (ar_source entry) (ar_name entry) = Inr r'
     \<and> required_bits r' = Some 8 \<and> (to_mpc (demo_rule True) = to_mpc r' \<or> canonical (demo_rule True) \<noteq> canonical r')"
proof -
  have b: "required_bits (demo_rule True) = Some 8" by code_simp
  then obtain t where t: "canonical (demo_rule True) = Some t"
    using to_mpc_Some[of "demo_rule True"] by (auto simp: canonical_def)
  define d where "d = hex (RULE_DOMAIN @ ascii t)"
  define entry where "entry = \<lparr>ar_name = ''demo'', ar_digest = d, ar_required_bits = 8, ar_source = demo_source\<rparr>"
  have a: "approve_rule True (\<lambda>b. b) [] demo_source ''demo'' = Inr (entry, [(d, entry)])"
    by (simp add: approve_rule_def demo_compiles rule_digest_def t b ok_or_def Let_def d_def entry_def)
  have k: "check_rule True (\<lambda>b. b) [(d, entry)] demo_source ''demo'' d = Inr ()"
    by (simp add: check_rule_def bt_contains_def demo_compiles map_err_def rule_digest_def t ok_or_def d_def)
  have n: "\<forall>(d, e) \<in> set [(d, entry)]. CHR 0x00 \<notin> set (ar_name e)" by (simp add: entry_def)
  have run: "registry_run True (\<lambda>b. b) [(d, entry)]" by (rule registry_run.Approve[OF registry_run.Empty a])
  show ?thesis using approved_rule_pinned[OF run k _ n] run k demo_compiles b by (fastforce simp: entry_def)
qed

section \<open>Where the compiler falls short\<close>

text \<open>The interval of \<open>signed\<close> ignores the lower end of the magnitude: here the output -5 is outside [-3, 3].\<close>

lemma signed_escapes_interval:
  "map_option (\<lambda>r. (rule_intervals r, evaluate_rule True r [(''m'', -5), (''side'', 1)]))
     (case compile_rule True (''param m[-5,3] side[0,1]'' @ [newline] @ ''y = signed(side > 0, m)'') ''signed'' of
        Inr r \<Rightarrow> Some r | Inl _ \<Rightarrow> None)
   = Some ([(''y'', \<lparr>lo = -3, hi = 3\<rparr>)], Inr [(''y'', -5)])"
  by code_simp

text \<open>Without overflow checks the corners of a product wrap: the output 4 is outside the derived [0, 0].\<close>

lemma wrapped_interval:
  "map_option (\<lambda>r. (rule_intervals r, evaluate_rule False r [(''x'', 2)]))
     (case compile_rule False (''input x[0,18446744073709551616]'' @ [newline] @ ''y = x * x'') ''square'' of
        Inr r \<Rightarrow> Some r | Inl _ \<Rightarrow> None)
   = Some ([(''y'', \<lparr>lo = 0, hi = 0\<rparr>)], Inr [(''y'', 4)])"
  by code_simp

text \<open>A comparison bit times a secret has degree one and gets no product obligation beyond the comparison's own.\<close>

lemma bit_product_unproved:
  "map_option (\<lambda>r. length (filter (\<lambda>ob. ob_kind ob = ''product'') (rule_obligations r)))
     (case compile_rule True (''param a[0,5] b[0,3]'' @ [newline] @ ''y = (a > b) * a'') ''gated'' of Inr r \<Rightarrow> Some r | Inl _ \<Rightarrow> None)
   = Some 1"
  by code_simp

text \<open>Two sources, one with \<open>and\<close> and one with \<open>*\<close>, have the same canonical text and different obligations.\<close>

definition conj_source :: "string \<Rightarrow> string" where
  "conj_source oper = ''param a[0,5] b[0,3] c[0,1] d[0,1]'' @ [newline] @ ''y = (a > b) '' @ oper @ '' (c > d)''"

lemma digest_ignores_obligations:
  "map_option (\<lambda>r. (canonical r, length (rule_obligations r)))
     (case compile_rule True (conj_source ''and'') ''gate'' of Inr r \<Rightarrow> Some r | Inl _ \<Rightarrow> None)
   = map_option (\<lambda>r. (canonical r, Suc (length (rule_obligations r))))
     (case compile_rule True (conj_source ''*'') ''gate'' of Inr r \<Rightarrow> Some r | Inl _ \<Rightarrow> None)
   \<and> is_ok (compile_rule True (conj_source ''*'') ''gate'')"
  by (rule conjI) code_simp+

end
