(* ===== verification/Audit_Receipts.thy ===== *)
theory Audit_Receipts
  imports Ordered_Maps Machines "HOL-Library.Product_Lexorder"
begin

text \<open>
  \<^verbatim>\<open>src/rust/qomm-audit/src/receipts.rs\<close>: signed receipts per slot, the ledger that records them, finds faults and
  settles slots, and the bonds that faults are taken from. SHA-256 is the argument \<open>sha\<close>; \<open>vfy key body signature\<close> is the
  hybrid verifier for audit checkpoints. \<open>usize\<close> is \<open>nat\<close> and the \<open>i64\<close> of a node an \<open>int\<close>.
\<close>

section \<open>Receipts\<close>

definition AUDIT_DOMAIN :: bytes where
  "AUDIT_DOMAIN = ascii ''QOMM:AUDIT:v2''"

definition AUDIT_VERSION :: bytes where
  "AUDIT_VERSION = ascii ''2''"

definition GENESIS :: bytes where
  "GENESIS = replicate 32 0"

definition digest_text :: "bytes list \<Rightarrow> bytes" where
  "digest_text parts = AUDIT_DOMAIN @ concat (map (\<lambda>part. u32_be (word_of_nat (length part)) @ part) parts)"

definition digest :: "(bytes \<Rightarrow> bytes) \<Rightarrow> bytes list \<Rightarrow> bytes" where
  "digest sha parts = sha (digest_text parts)"

record slot_spec =
  sp_slot :: u64
  sp_mm_set_digest :: bytes
  sp_market_digest :: bytes
  sp_deadline :: u64
  sp_required_receipts :: nat

definition binding :: "(bytes \<Rightarrow> bytes) \<Rightarrow> slot_spec \<Rightarrow> bytes" where
  "binding sha spec = digest sha [ascii ''slot'', u64_be (sp_slot spec), sp_mm_set_digest spec, sp_market_digest spec]"

record node_receipt =
  rc_node :: u32
  rc_slot :: u64
  rc_mm_set_digest :: bytes
  rc_market_digest :: bytes
  rc_deadline :: u64
  rc_prev_state_digest :: bytes
  rc_new_state_digest :: bytes
  rc_result_digest :: bytes
  rc_emitted_at :: u64
  rc_signature :: bytes

definition signed_body :: "(bytes \<Rightarrow> bytes) \<Rightarrow> node_receipt \<Rightarrow> bytes" where
  "signed_body sha r = digest sha
     [ascii ''receipt:v2'', AUDIT_VERSION, u32_be (rc_node r), u64_be (rc_slot r), rc_mm_set_digest r, rc_market_digest r,
      u64_be (rc_deadline r), u64_be (rc_emitted_at r), rc_prev_state_digest r, rc_new_state_digest r, rc_result_digest r]"

definition content_parts :: "node_receipt \<Rightarrow> bytes list" where
  "content_parts r =
     [ascii ''content'', rc_mm_set_digest r, rc_prev_state_digest r, rc_new_state_digest r, rc_result_digest r]"

definition content_digest :: "(bytes \<Rightarrow> bytes) \<Rightarrow> node_receipt \<Rightarrow> bytes" where
  "content_digest sha r = digest sha (content_parts r)"

text \<open>\<open>sign body\<close> is the signer of the node; it may fail.\<close>

definition sign_receipt ::
  "(bytes \<Rightarrow> bytes) \<Rightarrow> (bytes \<Rightarrow> string + bytes) \<Rightarrow> u32 \<Rightarrow> slot_spec \<Rightarrow> bytes \<Rightarrow> bytes \<Rightarrow> bytes \<Rightarrow> u64 \<Rightarrow> bytes option
    \<Rightarrow> string + node_receipt" where
  "sign_receipt sha sign node spec prev_state_digest new_state_digest result_digest emitted_at mm_set_digest =
     (let receipt = \<lparr>rc_node = node, rc_slot = sp_slot spec,
                     rc_mm_set_digest = (case mm_set_digest of Some d \<Rightarrow> d | None \<Rightarrow> sp_mm_set_digest spec),
                     rc_market_digest = sp_market_digest spec, rc_deadline = sp_deadline spec,
                     rc_prev_state_digest = prev_state_digest, rc_new_state_digest = new_state_digest,
                     rc_result_digest = result_digest, rc_emitted_at = emitted_at, rc_signature = []\<rparr>
      in and_then (sign (signed_body sha receipt)) (\<lambda>s. Inr (receipt\<lparr>rc_signature := s\<rparr>)))"

section \<open>Faults\<close>

datatype fault = Equivocation | OmittedMakers | StaleState | MissingReceipt | BadSignature | ForkedState

fun fault_str :: "fault \<Rightarrow> string" where
  "fault_str Equivocation = ''equivocation''"
| "fault_str OmittedMakers = ''omitted_makers''"
| "fault_str StaleState = ''stale_state''"
| "fault_str MissingReceipt = ''missing_receipt''"
| "fault_str BadSignature = ''bad_signature''"
| "fault_str ForkedState = ''forked_state''"

text \<open>The derived order is the order of declaration.\<close>

fun fault_rank :: "fault \<Rightarrow> nat" where
  "fault_rank Equivocation = 0"
| "fault_rank OmittedMakers = 1"
| "fault_rank StaleState = 2"
| "fault_rank MissingReceipt = 3"
| "fault_rank BadSignature = 4"
| "fault_rank ForkedState = 5"

lemma fault_rank_inj: "fault_rank a = fault_rank b \<longleftrightarrow> a = b"
  by (cases a; cases b) simp_all

instantiation fault :: linorder
begin

definition less_eq_fault :: "fault \<Rightarrow> fault \<Rightarrow> bool" where
  "less_eq_fault a b \<longleftrightarrow> fault_rank a \<le> fault_rank b"

definition less_fault :: "fault \<Rightarrow> fault \<Rightarrow> bool" where
  "less_fault a b \<longleftrightarrow> fault_rank a < fault_rank b"

instance
  by standard (auto simp: less_eq_fault_def less_fault_def fault_rank_inj)

end

record evidence =
  ev_fault :: fault
  ev_node :: int
  ev_slot :: u64
  ev_detail :: string
  ev_exhibits :: "node_receipt list"

definition evidence_new :: "fault \<Rightarrow> int \<Rightarrow> u64 \<Rightarrow> string \<Rightarrow> evidence" where
  "evidence_new f node slot detail = \<lparr>ev_fault = f, ev_node = node, ev_slot = slot, ev_detail = detail, ev_exhibits = []\<rparr>"

definition with_exhibits :: "evidence \<Rightarrow> node_receipt list \<Rightarrow> evidence" where
  "with_exhibits ev xs = ev\<lparr>ev_exhibits := xs\<rparr>"

definition blame :: "fault \<Rightarrow> node_receipt \<Rightarrow> string \<Rightarrow> node_receipt list \<Rightarrow> evidence" where
  "blame f r detail xs = with_exhibits (evidence_new f (uint (rc_node r)) (rc_slot r) detail) xs"

section \<open>The ledger\<close>

record audit_ledger =
  node_keys :: "(u32, bytes) btree"
  by_slot :: "(u64, (u32, node_receipt list) btree) btree"
  specs :: "(u64, slot_spec) btree"
  arrived :: "(u64 \<times> u32, u64) btree"
  settled_states :: "(u64, bytes) btree"
  evidence_log :: "evidence list"

definition ledger_new :: "(u32, bytes) btree \<Rightarrow> audit_ledger" where
  "ledger_new keys = \<lparr>node_keys = keys, by_slot = [], specs = [], arrived = [], settled_states = [], evidence_log = []\<rparr>"

definition or_default :: "'v list option \<Rightarrow> 'v list" where
  "or_default v = (case v of Some x \<Rightarrow> x | None \<Rightarrow> [])"

definition open_slot :: "audit_ledger \<Rightarrow> slot_spec \<Rightarrow> audit_ledger" where
  "open_slot L spec = L\<lparr>
     by_slot := bt_insert (sp_slot spec) (or_default (bt_get (by_slot L) (sp_slot spec))) (by_slot L),
     specs := bt_insert (sp_slot spec) spec (specs L)\<rparr>"

definition fixed_faults :: "slot_spec \<Rightarrow> node_receipt \<Rightarrow> evidence list" where
  "fixed_faults spec r =
     (if rc_market_digest r \<noteq> sp_market_digest spec
      then [blame StaleState r ''signed a market other than the one fixed for this slot'' [r]] else [])
     @ (if rc_deadline r \<noteq> sp_deadline spec
        then [blame StaleState r ''signed a deadline other than the one fixed for this slot'' [r]] else [])"

definition note_arrival :: "audit_ledger \<Rightarrow> node_receipt \<Rightarrow> u64 option \<Rightarrow> (u64 \<times> u32, u64) btree" where
  "note_arrival L r at =
     (case at of
        None \<Rightarrow> arrived L
      | Some t \<Rightarrow>
          bt_insert (rc_slot r, rc_node r)
            (case bt_get (arrived L) (rc_slot r, rc_node r) of Some previous \<Rightarrow> min previous t | None \<Rightarrow> t) (arrived L))"

definition equivocations :: "(bytes \<Rightarrow> bytes) \<Rightarrow> node_receipt list \<Rightarrow> node_receipt \<Rightarrow> evidence list" where
  "equivocations sha existing r =
     map (\<lambda>other. blame Equivocation r ''two signed results for one slot'' [other, r])
       (filter (\<lambda>other. content_digest sha other \<noteq> content_digest sha r) existing)"

definition maker_fault :: "slot_spec \<Rightarrow> node_receipt \<Rightarrow> evidence list" where
  "maker_fault spec r =
     (if rc_mm_set_digest r \<noteq> sp_mm_set_digest spec
      then [blame OmittedMakers r ''signed a maker set other than the one fixed for this slot'' [r]] else [])"

definition chain_fault :: "audit_ledger \<Rightarrow> node_receipt \<Rightarrow> evidence list" where
  "chain_fault L r =
     (if rc_slot r > 0 then
        case bt_get (settled_states L) (rc_slot r - 1) of
          Some expected \<Rightarrow>
            if rc_prev_state_digest r \<noteq> expected
            then [blame StaleState r ''continued from a state other than the settled predecessor'' [r]] else []
        | None \<Rightarrow> []
      else [])"

definition slot_receipts :: "audit_ledger \<Rightarrow> u64 \<Rightarrow> (u32, node_receipt list) btree" where
  "slot_receipts L slot = or_default (bt_get (by_slot L) slot)"

definition record_receipt ::
  "(bytes \<Rightarrow> bytes) \<Rightarrow> (bytes \<Rightarrow> bytes \<Rightarrow> bytes \<Rightarrow> bool) \<Rightarrow> audit_ledger \<Rightarrow> node_receipt \<Rightarrow> u64 option
    \<Rightarrow> evidence list \<times> audit_ledger" where
  "record_receipt sha vfy L r arrived_at =
     (case bt_get (specs L) (rc_slot r) of
        None \<Rightarrow> ([evidence_new MissingReceipt (uint (rc_node r)) (rc_slot r) ''receipt for a slot that was never opened''], L)
      | Some spec \<Rightarrow>
     (case bt_get (node_keys L) (rc_node r) of
        None \<Rightarrow> ([evidence_new BadSignature (uint (rc_node r)) (rc_slot r) ''unknown node''], L)
      | Some key \<Rightarrow>
          if \<not> vfy key (signed_body sha r) (rc_signature r) then
            let found = [evidence_new BadSignature (uint (rc_node r)) (rc_slot r) ''signature does not verify'']
            in (found, L\<lparr>evidence_log := evidence_log L @ found\<rparr>)
          else
            let receipts = slot_receipts L (rc_slot r);
                existing = or_default (bt_get receipts (rc_node r));
                found = fixed_faults spec r @ equivocations sha existing r @ maker_fault spec r @ chain_fault L r
            in (found, L\<lparr>arrived := note_arrival L r arrived_at,
                         by_slot := bt_insert (rc_slot r) (bt_insert (rc_node r) (existing @ [r]) receipts) (by_slot L),
                         evidence_log := evidence_log L @ found\<rparr>)))"

text \<open>Settlement. The time of a receipt is the first arrival noted for its node, or else what the receipt says.\<close>

definition seen_at :: "audit_ledger \<Rightarrow> u64 \<Rightarrow> u32 \<Rightarrow> node_receipt \<Rightarrow> u64" where
  "seen_at L slot node r = (case bt_get (arrived L) (slot, node) of Some t \<Rightarrow> t | None \<Rightarrow> rc_emitted_at r)"

definition absent_nodes :: "audit_ledger \<Rightarrow> slot_spec \<Rightarrow> u64 \<Rightarrow> u64 \<Rightarrow> evidence list" where
  "absent_nodes L spec slot now =
     map (\<lambda>node. evidence_new MissingReceipt (uint node) slot
            (''no receipt by the deadline ('' @ show_nat (unat (sp_deadline spec)) @ ''); observed at '' @ show_nat (unat now)))
       (filter (\<lambda>node. \<not> list_ex (\<lambda>r. seen_at L slot node r \<le> sp_deadline spec) (or_default (bt_get (slot_receipts L slot) node)))
         (map fst (node_keys L)))"

definition counts :: "audit_ledger \<Rightarrow> slot_spec \<Rightarrow> u64 \<Rightarrow> u32 \<Rightarrow> node_receipt \<Rightarrow> bool" where
  "counts L spec slot node r \<longleftrightarrow> seen_at L slot node r \<le> sp_deadline spec
     \<and> rc_mm_set_digest r = sp_mm_set_digest spec \<and> rc_market_digest r = sp_market_digest spec
     \<and> rc_deadline r = sp_deadline spec"

type_synonym tally = "(bytes, u32 list) btree"

definition tally_receipt :: "audit_ledger \<Rightarrow> slot_spec \<Rightarrow> u64 \<Rightarrow> u32 \<Rightarrow> tally \<Rightarrow> node_receipt \<Rightarrow> tally" where
  "tally_receipt L spec slot node t r =
     (if counts L spec slot node r
      then bt_insert (rc_new_state_digest r) (or_default (bt_get t (rc_new_state_digest r)) @ [node]) t else t)"

definition tally_node :: "audit_ledger \<Rightarrow> slot_spec \<Rightarrow> u64 \<Rightarrow> tally \<Rightarrow> u32 \<times> node_receipt list \<Rightarrow> tally" where
  "tally_node L spec slot t = (\<lambda>(node, rs). foldl (tally_receipt L spec slot node) t rs)"

definition tally_slot :: "audit_ledger \<Rightarrow> slot_spec \<Rightarrow> u64 \<Rightarrow> tally" where
  "tally_slot L spec slot = foldl (tally_node L spec slot) [] (slot_receipts L slot)"

text \<open>A \<open>BTreeSet\<close> collected from a list, and \<open>max_by_key\<close>, which keeps the last of several maxima.\<close>

definition distinct_nodes :: "u32 list \<Rightarrow> u32 list" where
  "distinct_nodes nodes = sort (remdups nodes)"

fun max_by_key :: "('a \<Rightarrow> nat) \<Rightarrow> 'a list \<Rightarrow> 'a option" where
  "max_by_key key [] = None"
| "max_by_key key (x # xs) = Some (foldl (\<lambda>best y. if key best \<le> key y then y else best) x xs)"

definition forks :: "tally \<Rightarrow> bytes \<Rightarrow> u64 \<Rightarrow> evidence list" where
  "forks t plurality slot =
     concat (map (\<lambda>(state, minority).
        map (\<lambda>node. evidence_new ForkedState (uint node) slot ''signed a new state that the quorum did not agree with'')
          (distinct_nodes minority))
       (filter (\<lambda>(state, _). state \<noteq> plurality) t))"

definition settle ::
  "audit_ledger \<Rightarrow> u64 \<Rightarrow> u64 \<Rightarrow> string + (bytes option \<times> evidence list) \<times> audit_ledger" where
  "settle L slot now =
     and_then (ok_or (bt_get (specs L) slot) (''slot '' @ show_nat (unat slot) @ '' was not opened'')) (\<lambda>spec.
       let missing = absent_nodes L spec slot now;
           t = tally_slot L spec slot
       in case max_by_key (\<lambda>(_, nodes). length (distinct_nodes nodes)) t of
            None \<Rightarrow> Inr ((None, missing), L\<lparr>evidence_log := evidence_log L @ missing\<rparr>)
          | Some (plurality, nodes) \<Rightarrow>
              let agreeing = length (distinct_nodes nodes);
                  found = missing @ forks t plurality slot
              in if agreeing < sp_required_receipts spec then
                   let found = found @ [evidence_new MissingReceipt (-1) slot
                         (''only '' @ show_nat agreeing @ '' agreeing receipts, '' @ show_nat (sp_required_receipts spec)
                          @ '' required; the slot is unresolved and the state does not advance'')]
                   in Inr ((None, found), L\<lparr>evidence_log := evidence_log L @ found\<rparr>)
                 else Inr ((Some plurality, found),
                        L\<lparr>settled_states := bt_insert slot plurality (settled_states L),
                          evidence_log := evidence_log L @ found\<rparr>))"

definition settled_state :: "audit_ledger \<Rightarrow> u64 \<Rightarrow> bytes" where
  "settled_state L slot = (case bt_get (settled_states L) slot of Some d \<Rightarrow> d | None \<Rightarrow> GENESIS)"

section \<open>Bonds\<close>

record slash =
  sl_node :: u32
  sl_slot :: u64
  sl_fault :: fault
  sl_amount :: u64
  sl_remaining_bond :: u64

record bond_ledger =
  bonds :: "(u32, u64) btree"
  penalties :: "(fault, u64) btree"
  slashed :: "slash list"

definition bond_ledger_new :: "(u32, u64) btree \<Rightarrow> bond_ledger" where
  "bond_ledger_new bs = \<lparr>bonds = bs,
     penalties = foldl (\<lambda>m (f, p). bt_insert f p m) []
       [(Equivocation, 1000000), (ForkedState, 500000), (OmittedMakers, 500000), (StaleState, 250000),
        (BadSignature, 250000), (MissingReceipt, 50000)],
     slashed = []\<rparr>"

text \<open>\<open>u32::try_from\<close> of the node of an item.\<close>

definition accused :: "evidence \<Rightarrow> u32 option" where
  "accused ev = (if 0 \<le> ev_node ev \<and> ev_node ev < 2 ^ 32 then Some (word_of_int (ev_node ev)) else None)"

definition apply_item :: "bond_ledger \<times> slash list \<Rightarrow> evidence \<Rightarrow> bond_ledger \<times> slash list" where
  "apply_item = (\<lambda>(B, applied) ev.
     (case accused ev of
        None \<Rightarrow> (B, applied)
      | Some node \<Rightarrow>
     (case bt_get (bonds B) node of
        None \<Rightarrow> (B, applied)
      | Some bond \<Rightarrow>
          let amount = min bond (case bt_get (penalties B) (ev_fault ev) of Some p \<Rightarrow> p | None \<Rightarrow> 0)
          in if amount = 0 then (B, applied)
             else
               let s = \<lparr>sl_node = node, sl_slot = ev_slot ev, sl_fault = ev_fault ev, sl_amount = amount,
                        sl_remaining_bond = bond - amount\<rparr>
               in (B\<lparr>bonds := bt_insert node (bond - amount) (bonds B), slashed := slashed B @ [s]\<rparr>, applied @ [s]))))"

definition apply_evidence :: "bond_ledger \<Rightarrow> evidence list \<Rightarrow> slash list \<times> bond_ledger" where
  "apply_evidence B evs = (let (B', applied) = foldl apply_item (B, []) evs in (applied, B'))"

section \<open>Requests\<close>

datatype audit_op = Open_Slot slot_spec | Record node_receipt "u64 option" | Settle u64 u64

fun audit_step ::
  "(bytes \<Rightarrow> bytes) \<Rightarrow> (bytes \<Rightarrow> bytes \<Rightarrow> bytes \<Rightarrow> bool) \<Rightarrow> audit_op \<Rightarrow> audit_ledger \<Rightarrow> string + audit_ledger" where
  "audit_step sha vfy (Open_Slot spec) L = Inr (open_slot L spec)"
| "audit_step sha vfy (Record r at) L = Inr (snd (record_receipt sha vfy L r at))"
| "audit_step sha vfy (Settle slot now) L = and_then (settle L slot now) (\<lambda>(_, L'). Inr L')"

end
