(* ===== verification/Audit_Safety.thy ===== *)
theory Audit_Safety
  imports Audit_Receipts
begin

text \<open>
  The audit ledger keeps what it needs to hold nodes to account: stored receipts are genuine and never dropped, two
  contents under one signature come with evidence, and evidence of equivocation always exhibits two genuine receipts.
  The ledger is a \<open>guarded_machine\<close> under that invariant.
\<close>

section \<open>The invariant\<close>

definition stored :: "audit_ledger \<Rightarrow> u64 \<Rightarrow> u32 \<Rightarrow> node_receipt list" where
  "stored L slot node = or_default (bt_get (slot_receipts L slot) node)"

definition genuine :: "(bytes \<Rightarrow> bytes) \<Rightarrow> (bytes \<Rightarrow> bytes \<Rightarrow> bytes \<Rightarrow> bool) \<Rightarrow> (u32, bytes) btree \<Rightarrow> node_receipt \<Rightarrow> bool" where
  "genuine sha vfy keys r \<longleftrightarrow>
     (case bt_get keys (rc_node r) of Some key \<Rightarrow> vfy key (signed_body sha r) (rc_signature r) | None \<Rightarrow> False)"

definition convicts ::
  "(bytes \<Rightarrow> bytes) \<Rightarrow> (bytes \<Rightarrow> bytes \<Rightarrow> bytes \<Rightarrow> bool) \<Rightarrow> (u32, bytes) btree \<Rightarrow> evidence \<Rightarrow> u32 \<Rightarrow> u64 \<Rightarrow> bool" where
  "convicts sha vfy keys ev node slot \<longleftrightarrow> ev_fault ev = Equivocation \<and> ev_node ev = uint node \<and> ev_slot ev = slot
     \<and> (\<exists>a b. ev_exhibits ev = [a, b] \<and> genuine sha vfy keys a \<and> genuine sha vfy keys b
           \<and> rc_node a = node \<and> rc_node b = node \<and> rc_slot a = slot \<and> rc_slot b = slot
           \<and> content_digest sha a \<noteq> content_digest sha b)"

definition receipts_ok :: "(bytes \<Rightarrow> bytes) \<Rightarrow> (bytes \<Rightarrow> bytes \<Rightarrow> bytes \<Rightarrow> bool) \<Rightarrow> audit_ledger \<Rightarrow> bool" where
  "receipts_ok sha vfy L \<longleftrightarrow> (\<forall>slot. bt_wf (slot_receipts L slot))
     \<and> (\<forall>slot node. \<forall>r \<in> set (stored L slot node). rc_slot r = slot \<and> rc_node r = node \<and> genuine sha vfy (node_keys L) r)"

definition accountable :: "(bytes \<Rightarrow> bytes) \<Rightarrow> (bytes \<Rightarrow> bytes \<Rightarrow> bytes \<Rightarrow> bool) \<Rightarrow> audit_ledger \<Rightarrow> bool" where
  "accountable sha vfy L \<longleftrightarrow> (\<forall>slot node. \<forall>a \<in> set (stored L slot node). \<forall>b \<in> set (stored L slot node).
     content_digest sha a \<noteq> content_digest sha b \<longrightarrow> (\<exists>ev \<in> set (evidence_log L). convicts sha vfy (node_keys L) ev node slot))"

definition justified :: "(bytes \<Rightarrow> bytes) \<Rightarrow> (bytes \<Rightarrow> bytes \<Rightarrow> bytes \<Rightarrow> bool) \<Rightarrow> audit_ledger \<Rightarrow> bool" where
  "justified sha vfy L \<longleftrightarrow> (\<forall>ev \<in> set (evidence_log L). ev_fault ev = Equivocation \<longrightarrow>
     (\<exists>node. convicts sha vfy (node_keys L) ev node (ev_slot ev)))"

definition audit_inv :: "(bytes \<Rightarrow> bytes) \<Rightarrow> (bytes \<Rightarrow> bytes \<Rightarrow> bytes \<Rightarrow> bool) \<Rightarrow> audit_ledger \<Rightarrow> bool" where
  "audit_inv sha vfy L \<longleftrightarrow> receipts_ok sha vfy L \<and> accountable sha vfy L \<and> justified sha vfy L"

lemma audit_inv_new: "audit_inv sha vfy (ledger_new keys)"
  by (simp add: audit_inv_def receipts_ok_def accountable_def justified_def stored_def slot_receipts_def ledger_new_def or_default_def)

section \<open>Opening a slot\<close>

lemma slot_receipts_open [simp]: "slot_receipts (open_slot L spec) slot = slot_receipts L slot"
  by (simp add: slot_receipts_def open_slot_def or_default_def split: option.splits)

lemma open_slot_fields [simp]: "node_keys (open_slot L spec) = node_keys L" "evidence_log (open_slot L spec) = evidence_log L"
  "stored (open_slot L spec) = stored L"
  by (simp_all add: open_slot_def stored_def fun_eq_iff) (simp add: stored_def slot_receipts_open[unfolded open_slot_def])

lemma open_slot_inv: "audit_inv sha vfy L \<Longrightarrow> audit_inv sha vfy (open_slot L spec)"
  by (simp add: audit_inv_def receipts_ok_def accountable_def justified_def)

section \<open>Recording a receipt\<close>

lemma record_cases:
  obtains (refused) "snd (record_receipt sha vfy L r at) = L"
  | (forged) ev where "snd (record_receipt sha vfy L r at) = L\<lparr>evidence_log := evidence_log L @ [ev]\<rparr>" "ev_fault ev = BadSignature"
  | (taken) spec where "bt_get (specs L) (rc_slot r) = Some spec" "genuine sha vfy (node_keys L) r"
      "snd (record_receipt sha vfy L r at) = L\<lparr>arrived := note_arrival L r at,
         by_slot := bt_insert (rc_slot r) (bt_insert (rc_node r) (stored L (rc_slot r) (rc_node r) @ [r]) (slot_receipts L (rc_slot r)))
           (by_slot L),
         evidence_log := evidence_log L @ fixed_faults spec r @ equivocations sha (stored L (rc_slot r) (rc_node r)) r
           @ maker_fault spec r @ chain_fault L r\<rparr>"
proof (cases "bt_get (specs L) (rc_slot r)")
  case None
  then show thesis by (intro refused) (simp add: record_receipt_def)
next
  case (Some spec)
  show thesis
  proof (cases "genuine sha vfy (node_keys L) r")
    case True
    then show thesis using Some taken[OF Some] by (auto simp: record_receipt_def genuine_def Let_def stored_def split: option.splits)
  next
    case False
    show thesis
    proof (cases "bt_get (node_keys L) (rc_node r)")
      case None
      then show thesis using Some by (intro refused) (simp add: record_receipt_def)
    next
      case (Some key)
      then show thesis using \<open>bt_get (specs L) (rc_slot r) = Some spec\<close> False
        by (intro forged) (auto simp: record_receipt_def genuine_def evidence_new_def Let_def)
    qed
  qed
qed

lemma stored_insert:
  "stored (L\<lparr>arrived := t, by_slot := bt_insert s (bt_insert n rs (slot_receipts L s)) (by_slot L)\<rparr>) slot node
     = (if slot = s \<and> node = n then rs else stored L slot node)"
  by (auto simp: stored_def slot_receipts_def or_default_def)

lemma slot_receipts_insert:
  "slot_receipts (L\<lparr>arrived := t, by_slot := bt_insert s m (by_slot L)\<rparr>) slot
     = (if slot = s then m else slot_receipts L slot)"
  by (auto simp: slot_receipts_def or_default_def)

lemma slot_receipts_log [simp]: "slot_receipts (L\<lparr>evidence_log := l\<rparr>) = slot_receipts L"
  "stored (L\<lparr>evidence_log := l\<rparr>) = stored L"
  by (simp_all add: slot_receipts_def stored_def fun_eq_iff)

lemma blame_fields [simp]: "ev_fault (blame f r detail xs) = f" "ev_node (blame f r detail xs) = uint (rc_node r)"
  "ev_slot (blame f r detail xs) = rc_slot r" "ev_exhibits (blame f r detail xs) = xs"
  by (simp_all add: blame_def with_exhibits_def evidence_new_def)

lemma fixed_stale: "ev \<in> set (fixed_faults spec r) \<Longrightarrow> ev_fault ev = StaleState"
  unfolding fixed_faults_def set_append by (cases "rc_market_digest r \<noteq> sp_market_digest spec"; cases "rc_deadline r \<noteq> sp_deadline spec") auto

lemma maker_omitted: "ev \<in> set (maker_fault spec r) \<Longrightarrow> ev_fault ev = OmittedMakers"
  unfolding maker_fault_def by (cases "rc_mm_set_digest r \<noteq> sp_mm_set_digest spec") auto

lemma chain_stale: "ev \<in> set (chain_fault L r) \<Longrightarrow> ev_fault ev = StaleState"
  unfolding chain_fault_def
  by (cases "rc_slot r > 0"; cases "bt_get (settled_states L) (rc_slot r - 1)";
      cases "rc_prev_state_digest r \<noteq> the (bt_get (settled_states L) (rc_slot r - 1))") simp_all

lemma only_equivocations:
  "ev \<in> set (fixed_faults spec r @ equivocations sha existing r @ maker_fault spec r @ chain_fault L r) \<Longrightarrow>
     ev_fault ev = Equivocation \<Longrightarrow> ev \<in> set (equivocations sha existing r)"
  using fixed_stale[of ev spec r] maker_omitted[of ev spec r] chain_stale[of ev L r] by auto

lemma equivocation_convicts:
  assumes "genuine sha vfy keys r" and "a \<in> set existing" and "content_digest sha a \<noteq> content_digest sha r"
    and "\<forall>a \<in> set existing. rc_slot a = rc_slot r \<and> rc_node a = rc_node r \<and> genuine sha vfy keys a"
  shows "\<exists>ev \<in> set (equivocations sha existing r). convicts sha vfy keys ev (rc_node r) (rc_slot r)"
  using assms by (intro bexI[of _ "blame Equivocation r ''two signed results for one slot'' [a, r]"])
    (auto simp: equivocations_def convicts_def)

lemma equivocations_convict:
  assumes "genuine sha vfy keys r" and "ev \<in> set (equivocations sha existing r)"
    and "\<forall>a \<in> set existing. rc_slot a = rc_slot r \<and> rc_node a = rc_node r \<and> genuine sha vfy keys a"
  shows "convicts sha vfy keys ev (rc_node r) (rc_slot r)" and "ev_slot ev = rc_slot r"
  using assms by (auto simp: equivocations_def convicts_def)

lemma log_extended_inv:
  assumes "audit_inv sha vfy L" and "evidence_log L' = evidence_log L @ found" and "\<forall>ev \<in> set found. ev_fault ev \<noteq> Equivocation"
    and "slot_receipts L' = slot_receipts L" and "stored L' = stored L" and "node_keys L' = node_keys L"
  shows "audit_inv sha vfy L'"
proof -
  have "receipts_ok sha vfy L'" using assms(1) by (simp add: audit_inv_def receipts_ok_def assms(4-6))
  moreover have "accountable sha vfy L'"
    using assms(1) unfolding audit_inv_def accountable_def assms(2,5,6) set_append by blast
  moreover have "justified sha vfy L'"
    using assms(1,3) unfolding audit_inv_def justified_def assms(2,6) set_append by blast
  ultimately show ?thesis by (simp add: audit_inv_def)
qed

lemma record_inv:
  assumes "audit_inv sha vfy L"
  shows "audit_inv sha vfy (snd (record_receipt sha vfy L r at))"
proof (cases rule: record_cases[of sha vfy L r at])
  case (taken spec)
  let ?s = "rc_slot r" and ?n = "rc_node r" and ?L = "snd (record_receipt sha vfy L r at)"
  let ?old = "stored L ?s ?n"
  let ?found = "fixed_faults spec r @ equivocations sha ?old r @ maker_fault spec r @ chain_fault L r"
  have ok: "receipts_ok sha vfy L" "accountable sha vfy L" "justified sha vfy L" using assms by (simp_all add: audit_inv_def)
  have old: "\<forall>a \<in> set ?old. rc_slot a = ?s \<and> rc_node a = ?n \<and> genuine sha vfy (node_keys L) a"
    using ok(1) by (simp add: receipts_ok_def)
  have keys: "node_keys ?L = node_keys L" and log: "evidence_log ?L = evidence_log L @ ?found" by (simp_all add: taken(3))
  have st: "stored ?L slot node = (if slot = ?s \<and> node = ?n then ?old @ [r] else stored L slot node)" for slot node
    unfolding taken(3) by (simp add: stored_insert)
  have "bt_wf (slot_receipts ?L slot)" for slot
    using ok(1) unfolding taken(3) by (simp add: slot_receipts_insert receipts_ok_def)
  then have 1: "receipts_ok sha vfy ?L" using ok(1) taken(2) by (auto simp: receipts_ok_def st keys)
  have new: "\<exists>ev \<in> set (evidence_log ?L). convicts sha vfy (node_keys L) ev ?n ?s"
    if "a \<in> set ?old" "content_digest sha a \<noteq> content_digest sha r" for a
    using equivocation_convicts[OF taken(2) that old] by (auto simp: log)
  have 2: "accountable sha vfy ?L"
    unfolding accountable_def keys st
  proof (intro allI ballI impI)
    fix slot node a b
    assume a: "a \<in> set (if slot = ?s \<and> node = ?n then ?old @ [r] else stored L slot node)"
      and b: "b \<in> set (if slot = ?s \<and> node = ?n then ?old @ [r] else stored L slot node)"
      and d: "content_digest sha a \<noteq> content_digest sha b"
    then consider "a \<in> set (stored L slot node)" "b \<in> set (stored L slot node)"
      | "slot = ?s" "node = ?n" "a \<in> set ?old" "b = r" | "slot = ?s" "node = ?n" "b \<in> set ?old" "a = r"
      by (auto split: if_splits)
    then show "\<exists>ev \<in> set (evidence_log ?L). convicts sha vfy (node_keys L) ev node slot"
    proof cases
      case 1
      then have "\<exists>ev \<in> set (evidence_log L). convicts sha vfy (node_keys L) ev node slot"
        using ok(2) d unfolding accountable_def by blast
      then show ?thesis unfolding log set_append by blast
    qed (use new d in auto)
  qed
  have 3: "justified sha vfy ?L"
    unfolding justified_def keys log
  proof (intro ballI impI)
    fix ev assume ev: "ev \<in> set (evidence_log L @ ?found)" "ev_fault ev = Equivocation"
    show "\<exists>node. convicts sha vfy (node_keys L) ev node (ev_slot ev)"
    proof (cases "ev \<in> set (evidence_log L)")
      case False
      then have "ev \<in> set ?found" using ev(1) unfolding set_append[of "evidence_log L"] by blast
      then have "ev \<in> set (equivocations sha ?old r)" by (rule only_equivocations[OF _ ev(2)])
      then show ?thesis using equivocations_convict[OF taken(2) _ old] by metis
    qed (use ok(3) ev in \<open>simp add: justified_def\<close>)
  qed
  show ?thesis using 1 2 3 by (simp add: audit_inv_def)
next
  case (forged ev)
  show ?thesis by (rule log_extended_inv[OF assms, of _ "[ev]"]) (simp_all add: forged)
qed (use assms in simp)

section \<open>Settling\<close>

lemma settle_log:
  assumes "settle L slot now = Inr (res, L')"
  obtains found where "evidence_log L' = evidence_log L @ found" "\<forall>ev \<in> set found. ev_fault ev \<noteq> Equivocation"
    "slot_receipts L' = slot_receipts L" "stored L' = stored L" "node_keys L' = node_keys L"
proof -
  obtain spec where spec: "bt_get (specs L) slot = Some spec" using assms by (auto simp: settle_def and_then_eq_Inr ok_or_def split: option.splits)
  let ?m = "absent_nodes L spec slot now" and ?t = "tally_slot L spec slot"
  have m: "\<forall>ev \<in> set ?m. ev_fault ev \<noteq> Equivocation" by (auto simp: absent_nodes_def evidence_new_def)
  have f: "\<forall>ev \<in> set (forks t d s). ev_fault ev \<noteq> Equivocation" for t d s by (auto simp: forks_def evidence_new_def)
  show thesis
  proof (cases "max_by_key (\<lambda>(_, nodes). length (distinct_nodes nodes)) ?t")
    case None
    then have "L' = L\<lparr>evidence_log := evidence_log L @ ?m\<rparr>" using assms by (simp add: settle_def spec Let_def)
    then show thesis using m by (intro that[of ?m]) simp_all
  next
    case (Some p)
    obtain d nodes where p: "p = (d, nodes)" by fastforce
    let ?n = "length (distinct_nodes nodes)"
    let ?extra = "if ?n < sp_required_receipts spec then [evidence_new MissingReceipt (-1) slot
         (''only '' @ show_nat ?n @ '' agreeing receipts, '' @ show_nat (sp_required_receipts spec)
          @ '' required; the slot is unresolved and the state does not advance'')] else []"
    have "\<forall>ev \<in> set (?m @ forks ?t d slot @ ?extra). ev_fault ev \<noteq> Equivocation"
      using m f by (auto simp: evidence_new_def)
    moreover have "evidence_log L' = evidence_log L @ ?m @ forks ?t d slot @ ?extra" "by_slot L' = by_slot L" "node_keys L' = node_keys L"
      using assms Some by (auto simp: settle_def spec Let_def p split: if_splits)
    ultimately show thesis by (intro that[of "?m @ forks ?t d slot @ ?extra"]) (simp_all add: stored_def slot_receipts_def fun_eq_iff)
  qed
qed

lemma settle_inv: "audit_inv sha vfy L \<Longrightarrow> settle L slot now = Inr (res, L') \<Longrightarrow> audit_inv sha vfy L'"
  by (erule settle_log) (rule log_extended_inv)

interpretation audit: guarded_machine "audit_step sha vfy" "audit_inv sha vfy"
proof unfold_locales
  fix L x L' assume "audit_inv sha vfy L" "audit_step sha vfy x L = Inr L'"
  then show "audit_inv sha vfy L'"
    by (cases x) (auto simp: and_then_eq_Inr open_slot_inv record_inv settle_inv)
qed

section \<open>Nothing is dropped\<close>

definition keeps :: "audit_ledger \<Rightarrow> audit_ledger \<Rightarrow> bool" where
  "keeps L L' \<longleftrightarrow> node_keys L' = node_keys L \<and> (\<forall>slot node. set (stored L slot node) \<subseteq> set (stored L' slot node))"

lemma record_keeps: "keeps L (snd (record_receipt sha vfy L r at))"
  by (cases rule: record_cases[of sha vfy L r at]) (auto simp: keeps_def stored_insert)

lemma step_keeps:
  assumes "audit_step sha vfy x L = Inr L'"
  shows "keeps L L'"
proof (cases x)
  case (Record r at)
  then show ?thesis using assms record_keeps[of L sha vfy r at] by simp
next
  case (Settle slot now)
  then obtain res where "settle L slot now = Inr (res, L')" using assms by (auto simp: and_then_eq_Inr)
  then show ?thesis by (rule settle_log) (simp add: keeps_def)
qed (use assms in \<open>auto simp: keeps_def\<close>)

lemma keeps_trans: "keeps L L' \<Longrightarrow> keeps L' L'' \<Longrightarrow> keeps L L''"
  unfolding keeps_def by (metis subset_trans)

lemma run_keeps: "audit_inv sha vfy L \<Longrightarrow> keeps L (run_ops (audit_step sha vfy) ops L)"
proof (rule audit.run_relation[where R = keeps])
  show "keeps L L" for L by (simp add: keeps_def)
qed (auto intro: keeps_trans step_keeps)

section \<open>The tally\<close>

definition voters :: "audit_ledger \<Rightarrow> slot_spec \<Rightarrow> u64 \<Rightarrow> bytes \<Rightarrow> u32 set" where
  "voters L spec slot d = {node. \<exists>r \<in> set (stored L slot node). counts L spec slot node r \<and> rc_new_state_digest r = d}"

lemma tally_receipt_nodes:
  "set (or_default (bt_get (tally_receipt L spec slot node t r) d))
     = set (or_default (bt_get t d)) \<union> (if counts L spec slot node r \<and> rc_new_state_digest r = d then {node} else {})"
  by (auto simp: tally_receipt_def or_default_def split: option.splits if_splits)

lemma tally_node_nodes:
  "set (or_default (bt_get (tally_node L spec slot t (node, rs)) d))
     = set (or_default (bt_get t d)) \<union> (if \<exists>r \<in> set rs. counts L spec slot node r \<and> rc_new_state_digest r = d then {node} else {})"
  unfolding tally_node_def prod.case
  by (induction rs arbitrary: t) (simp_all add: tally_receipt_nodes, auto)

lemma tally_nodes:
  "set (or_default (bt_get (foldl (tally_node L spec slot) t m) d))
     = set (or_default (bt_get t d))
       \<union> {node. \<exists>rs. (node, rs) \<in> set m \<and> (\<exists>r \<in> set rs. counts L spec slot node r \<and> rc_new_state_digest r = d)}"
proof (induction m arbitrary: t)
  case (Cons p m)
  obtain node rs where p: "p = (node, rs)" by fastforce
  show ?case by (auto simp: Cons p tally_node_nodes)
qed simp

lemma tally_slot_voters:
  assumes "bt_wf (slot_receipts L slot)"
  shows "set (or_default (bt_get (tally_slot L spec slot) d)) = voters L spec slot d"
proof (rule set_eqI)
  show "node \<in> set (or_default (bt_get (tally_slot L spec slot) d)) \<longleftrightarrow> node \<in> voters L spec slot d" for node
    unfolding tally_slot_def tally_nodes voters_def
    by (cases "bt_get (slot_receipts L slot) node")
      (auto simp: stored_def bt_get_iff[OF assms, symmetric] or_default_def)
qed

lemma tally_bt_wf: "bt_wf (tally_slot L spec slot)"
proof -
  have "bt_wf t \<Longrightarrow> bt_wf (foldl (tally_receipt L spec slot node) t rs)" for t node rs
    by (induction rs arbitrary: t) (simp_all add: tally_receipt_def)
  then have "bt_wf t \<Longrightarrow> bt_wf (foldl (tally_node L spec slot) t m)" for t m
    by (induction m arbitrary: t) (simp_all add: tally_node_def case_prod_unfold)
  then show ?thesis by (simp add: tally_slot_def)
qed

lemma max_by_key_in: "max_by_key key xs = Some x \<Longrightarrow> x \<in> set xs"
proof (cases xs)
  case (Cons y ys)
  have "foldl (\<lambda>best z. if key best \<le> key z then z else best) y ys \<in> insert y (set ys)" for y ys
  proof (induction ys arbitrary: y)
    case (Cons z ys)
    show ?case using Cons.IH[of y] Cons.IH[of z] by auto
  qed simp
  then show "max_by_key key xs = Some x \<Longrightarrow> x \<in> set xs" by (auto simp: Cons)
qed simp

lemma settle_backed:
  assumes "audit_inv sha vfy L" and "settle L slot now = Inr ((Some d, found), L')"
  obtains spec where "bt_get (specs L) slot = Some spec" "sp_required_receipts spec \<le> card (voters L spec slot d)"
    "voters L spec slot d \<subseteq> fst ` set (node_keys L)"
proof -
  have ok: "receipts_ok sha vfy L" using assms(1) by (simp add: audit_inv_def)
  obtain spec where spec: "bt_get (specs L) slot = Some spec"
    using assms(2) by (auto simp: settle_def and_then_eq_Inr ok_or_def split: option.splits)
  obtain nodes where max: "max_by_key (\<lambda>(_, nodes). length (distinct_nodes nodes)) (tally_slot L spec slot) = Some (d, nodes)"
    and enough: "sp_required_receipts spec \<le> length (distinct_nodes nodes)"
    using assms(2) by (auto simp: settle_def spec Let_def split: option.splits prod.splits if_splits)
  have "bt_get (tally_slot L spec slot) d = Some nodes"
    using max_by_key_in[OF max] by (simp add: bt_get_iff[OF tally_bt_wf])
  then have nodes: "set nodes = voters L spec slot d"
    using tally_slot_voters[of L slot spec d] ok by (simp add: receipts_ok_def or_default_def)
  have "length (distinct_nodes nodes) = card (set nodes)" by (simp add: distinct_nodes_def length_remdups_card_conv)
  moreover have "voters L spec slot d \<subseteq> fst ` set (node_keys L)"
  proof
    fix node assume "node \<in> voters L spec slot d"
    then obtain r where "r \<in> set (stored L slot node)" by (auto simp: voters_def)
    then have "rc_node r = node" "genuine sha vfy (node_keys L) r" using ok by (auto simp: receipts_ok_def)
    then have "bt_get (node_keys L) node \<noteq> None" by (auto simp: genuine_def split: option.splits)
    then show "node \<in> fst ` set (node_keys L)" by (simp add: bt_get_None_iff)
  qed
  ultimately show thesis using that[OF spec] enough nodes by simp
qed

text \<open>Two quorums of one slot share a node, and that node signed both states.\<close>

lemma settlements_conflict:
  assumes "audit_inv sha vfy L" and "audit_inv sha vfy M" and "keeps L M"
    and "voters L s slot d \<subseteq> fst ` set (node_keys L)" and "voters M s' slot d' \<subseteq> fst ` set (node_keys M)"
    and "length (node_keys L) < card (voters L s slot d) + card (voters M s' slot d')"
  obtains node a b where "node \<in> fst ` set (node_keys M)" "a \<in> set (stored M slot node)" "b \<in> set (stored M slot node)"
    "rc_new_state_digest a = d" "rc_new_state_digest b = d'"
proof -
  let ?K = "fst ` set (node_keys L)"
  have K: "node_keys M = node_keys L" using assms(3) by (simp add: keeps_def)
  have "card ?K \<le> length (node_keys L)" by (metis card_length length_map list.set_map)
  moreover have "card (voters L s slot d \<union> voters M s' slot d') \<le> card ?K"
    using assms(4,5) by (intro card_mono) (simp_all add: K)
  moreover have "card (voters L s slot d) + card (voters M s' slot d')
      = card (voters L s slot d \<union> voters M s' slot d') + card (voters L s slot d \<inter> voters M s' slot d')"
    using assms(4,5) by (intro card_Un_Int) (simp_all add: K finite_subset)
  ultimately have "card (voters L s slot d \<inter> voters M s' slot d') \<noteq> 0" using assms(6) by linarith
  then obtain node where node: "node \<in> voters L s slot d" "node \<in> voters M s' slot d'" by (metis IntE card.empty ex_in_conv)
  then obtain a b where ab: "a \<in> set (stored L slot node)" "rc_new_state_digest a = d"
    "b \<in> set (stored M slot node)" "rc_new_state_digest b = d'" by (auto simp: voters_def)
  moreover have "a \<in> set (stored M slot node)" using ab(1) assms(3) by (auto simp: keeps_def)
  moreover have "node \<in> fst ` set (node_keys M)" using node(2) assms(5) by blast
  ultimately show thesis using that by blast
qed

section \<open>What the digests bind\<close>

text \<open>The digests of a receipt are arrays of 32 bytes; what matters is that their lengths fit the 32-bit prefix.\<close>

definition receipt_sized :: "node_receipt \<Rightarrow> bool" where
  "receipt_sized r \<longleftrightarrow> length (rc_mm_set_digest r) < 2 ^ 32 \<and> length (rc_prev_state_digest r) < 2 ^ 32
     \<and> length (rc_new_state_digest r) < 2 ^ 32 \<and> length (rc_result_digest r) < 2 ^ 32"

fun sized_op :: "audit_op \<Rightarrow> bool" where
  "sized_op (Record r at) = receipt_sized r"
| "sized_op _ = True"

definition ledger_sized :: "audit_ledger \<Rightarrow> bool" where
  "ledger_sized L \<longleftrightarrow> (\<forall>slot node. \<forall>r \<in> set (stored L slot node). receipt_sized r)"

lemma ledger_sized_new: "ledger_sized (ledger_new keys)"
  by (simp add: ledger_sized_def stored_def slot_receipts_def ledger_new_def or_default_def)

lemma record_sized: "ledger_sized L \<Longrightarrow> receipt_sized r \<Longrightarrow> ledger_sized (snd (record_receipt sha vfy L r at))"
  by (cases rule: record_cases[of sha vfy L r at]) (auto simp: ledger_sized_def stored_insert)

lemma settle_sized: "settle L slot now = Inr (res, L') \<Longrightarrow> ledger_sized L \<Longrightarrow> ledger_sized L'"
  by (erule settle_log) (simp add: ledger_sized_def)

lemma step_sized: "audit_step sha vfy x L = Inr L' \<Longrightarrow> sized_op x \<Longrightarrow> ledger_sized L \<Longrightarrow> ledger_sized L'"
  by (cases x) (auto simp: and_then_eq_Inr record_sized settle_sized ledger_sized_def[of "open_slot _ _"] ledger_sized_def[of L])

lemma run_sized: "\<forall>x \<in> set xs. sized_op x \<Longrightarrow> ledger_sized L \<Longrightarrow> ledger_sized (run_ops (audit_step sha vfy) xs L)"
proof (induction xs arbitrary: L)
  case (Cons x xs)
  have "ledger_sized (step_or_stay (audit_step sha vfy) x L)"
    by (rule step_or_stay_cases[of "audit_step sha vfy" x L]) (use Cons.prems step_sized in auto)
  then show ?case using Cons by simp
qed simp

text \<open>Length prefixes make the hashed text determine its parts, as long as the lengths fit the prefix.\<close>

lemma u32_length_inj:
  assumes "u32_be (word_of_nat m) = u32_be (word_of_nat n)" and "m < 2 ^ 32" and "n < 2 ^ 32"
  shows "m = n"
proof -
  have "(word_of_nat m :: u32) = word_of_nat n" using assms(1) by simp
  then have "unat (word_of_nat m :: u32) = unat (word_of_nat n :: u32)" by simp
  then show ?thesis using assms(2,3) by (simp add: unat_of_nat take_bit_nat_eq_self)
qed

lemma parts_inj:
  "length ps = length qs \<Longrightarrow> \<forall>p \<in> set ps \<union> set qs. length p < 2 ^ 32 \<Longrightarrow>
     concat (map (\<lambda>part. u32_be (word_of_nat (length part)) @ part) ps)
       = concat (map (\<lambda>part. u32_be (word_of_nat (length part)) @ part) qs) \<Longrightarrow> ps = qs"
proof (induction ps qs rule: list_induct2)
  case (Cons p ps q qs)
  have "u32_be (word_of_nat (length p)) = u32_be (word_of_nat (length q))"
    and rest: "p @ concat (map (\<lambda>part. u32_be (word_of_nat (length part)) @ part) ps)
      = q @ concat (map (\<lambda>part. u32_be (word_of_nat (length part)) @ part) qs)"
    using Cons.prems(2) by (simp_all add: append_eq_fixed)
  then have "length p = length q" using Cons.prems(1) u32_length_inj[of "length p" "length q"] by simp
  then show ?case using rest Cons.IH Cons.prems(1) by (simp add: append_eq_fixed)
qed simp

lemma digest_text_inj:
  "digest_text ps = digest_text qs \<Longrightarrow> length ps = length qs \<Longrightarrow> \<forall>p \<in> set ps \<union> set qs. length p < 2 ^ 32 \<Longrightarrow> ps = qs"
  by (rule parts_inj) (simp_all add: digest_text_def)

lemma content_binds_state:
  assumes "receipt_sized a" and "receipt_sized b" and "rc_new_state_digest a \<noteq> rc_new_state_digest b"
  shows "digest_text (content_parts a) \<noteq> digest_text (content_parts b)"
proof
  assume "digest_text (content_parts a) = digest_text (content_parts b)"
  then have "content_parts a = content_parts b"
    by (rule digest_text_inj) (use assms(1,2) in \<open>auto simp: content_parts_def receipt_sized_def\<close>)
  then show False using assms(3) by (simp add: content_parts_def)
qed

lemma digest_text_part: "p \<in> set ps \<Longrightarrow> length p \<le> length (digest_text ps)"
  by (induction ps) (auto simp: digest_text_def)

lemma digest_text_inj_short:
  assumes "digest_text ps = digest_text qs" and "length ps = length qs" and "length (digest_text qs) < 2 ^ 32"
  shows "ps = qs"
proof (rule digest_text_inj[OF assms(1,2)], rule ballI)
  fix p assume "p \<in> set ps \<union> set qs"
  then have "length p \<le> length (digest_text qs)" using digest_text_part[of p ps] digest_text_part[of p qs] assms(1) by auto
  then show "length p < 2 ^ 32" using assms(3) by simp
qed

end
