(* ===== verification/Audit_Properties.thy ===== *)
theory Audit_Properties
  imports Audit_Safety
begin

text \<open>
  The properties of the audit ledger and of the bonds: conflicting settlements convict a node, evidence of equivocation
  is never fabricated, and slashing takes from the accused what it records.
\<close>

section \<open>Slashing\<close>

definition slashed_from :: "u32 \<Rightarrow> slash list \<Rightarrow> nat" where
  "slashed_from node ss = sum_list (map (\<lambda>s. if sl_node s = node then unat (sl_amount s) else 0) ss)"

definition bond_of :: "bond_ledger \<Rightarrow> u32 \<Rightarrow> nat" where
  "bond_of B node = (case bt_get (bonds B) node of Some b \<Rightarrow> unat b | None \<Rightarrow> 0)"

lemma slashed_from_append [simp]: "slashed_from node (xs @ ys) = slashed_from node xs + slashed_from node ys"
  by (simp add: slashed_from_def)

lemma apply_item_cases:
  obtains (skipped) "apply_item (B, applied) ev = (B, applied)"
  | (taken) node bond amount where "accused ev = Some node" "bt_get (bonds B) node = Some bond" "amount \<le> bond"
      "apply_item (B, applied) ev =
         (B\<lparr>bonds := bt_insert node (bond - amount) (bonds B),
            slashed := slashed B @ [\<lparr>sl_node = node, sl_slot = ev_slot ev, sl_fault = ev_fault ev, sl_amount = amount,
              sl_remaining_bond = bond - amount\<rparr>]\<rparr>,
          applied @ [\<lparr>sl_node = node, sl_slot = ev_slot ev, sl_fault = ev_fault ev, sl_amount = amount,
              sl_remaining_bond = bond - amount\<rparr>])"
proof (cases "\<exists>node bond. accused ev = Some node \<and> bt_get (bonds B) node = Some bond")
  case True
  then obtain node bond where nb: "accused ev = Some node" "bt_get (bonds B) node = Some bond" by blast
  let ?amount = "min bond (case bt_get (penalties B) (ev_fault ev) of Some p \<Rightarrow> p | None \<Rightarrow> 0)"
  show thesis
  proof (cases "?amount = 0")
    case True
    then show thesis using nb by (intro skipped) (simp add: apply_item_def Let_def)
  next
    case False
    then show thesis using nb by (intro taken[OF nb, of ?amount]) (simp_all add: apply_item_def Let_def)
  qed
next
  case False
  then show thesis by (intro skipped) (auto simp: apply_item_def split: option.splits)
qed

lemma apply_item_conserves:
  assumes "apply_item (B, applied) ev = (B', applied')"
  shows "bond_of B' node + slashed_from node applied' = bond_of B node + slashed_from node applied"
    and "\<exists>new. slashed B' = slashed B @ new \<and> applied' = applied @ new \<and> (\<forall>s \<in> set new. accused ev = Some (sl_node s))"
proof -
  show "bond_of B' node + slashed_from node applied' = bond_of B node + slashed_from node applied"
  proof (cases rule: apply_item_cases[of B applied ev])
    case (taken n bond amount)
    have "unat (bond - amount) + unat amount = unat bond" using taken(3) by (simp add: unat_sub word_le_nat_alt)
    then show ?thesis using assms taken by (auto simp: bond_of_def slashed_from_def)
  qed (use assms in simp)
  show "\<exists>new. slashed B' = slashed B @ new \<and> applied' = applied @ new \<and> (\<forall>s \<in> set new. accused ev = Some (sl_node s))"
    by (cases rule: apply_item_cases[of B applied ev]) (use assms in auto)
qed

lemma apply_items_conserve:
  "foldl apply_item (B, applied) evs = (B', applied') \<Longrightarrow>
     bond_of B' node + slashed_from node applied' = bond_of B node + slashed_from node applied
     \<and> (\<exists>new. slashed B' = slashed B @ new \<and> applied' = applied @ new
          \<and> (\<forall>s \<in> set new. \<exists>ev \<in> set evs. accused ev = Some (sl_node s)))"
proof (induction evs arbitrary: B applied)
  case (Cons ev evs)
  obtain B1 applied1 where one: "apply_item (B, applied) ev = (B1, applied1)" by fastforce
  have rest: "foldl apply_item (B1, applied1) evs = (B', applied')" using Cons.prems by (simp add: one)
  obtain new1 where n1: "slashed B1 = slashed B @ new1" "applied1 = applied @ new1" "\<forall>s \<in> set new1. accused ev = Some (sl_node s)"
    using apply_item_conserves(2)[OF one] by blast
  obtain new where n: "slashed B' = slashed B1 @ new" "applied' = applied1 @ new"
    "\<forall>s \<in> set new. \<exists>ev \<in> set evs. accused ev = Some (sl_node s)"
    using Cons.IH[OF rest] by blast
  have "bond_of B' node + slashed_from node applied' = bond_of B node + slashed_from node applied"
    using Cons.IH[OF rest] apply_item_conserves(1)[OF one, of node] by linarith
  moreover have "\<forall>s \<in> set (new1 @ new). \<exists>ev' \<in> set (ev # evs). accused ev' = Some (sl_node s)"
    using n1(3) n(3) by auto
  ultimately show ?case using n1(1,2) n(1,2) by (intro conjI exI[of _ "new1 @ new"]) simp_all
qed simp

text \<open>Slashing conserves. After \<open>apply\<close> the bond of every node plus what this call took from it is its bond before, so
  nothing wraps below zero; the call appends exactly its slashes to the record, and every one of them is against a node
  that an item of the evidence accuses.\<close>

lemma slashing_conserves:
  "case apply_evidence B evs of (applied, B') \<Rightarrow>
     (\<forall>node. bond_of B' node + slashed_from node applied = bond_of B node) \<and> slashed B' = slashed B @ applied
     \<and> (\<forall>s \<in> set applied. \<exists>ev \<in> set evs. accused ev = Some (sl_node s))"
proof -
  obtain B' applied where r: "foldl apply_item (B, []) evs = (B', applied)" by fastforce
  show ?thesis using apply_items_conserve[OF r] by (auto simp: apply_evidence_def r slashed_from_def)
qed

definition demo_spec :: slot_spec where
  "demo_spec = \<lparr>sp_slot = 1, sp_mm_set_digest = [1], sp_market_digest = [2], sp_deadline = 10, sp_required_receipts = 2\<rparr>"

definition demo_receipt :: "u32 \<Rightarrow> u8 \<Rightarrow> u64 \<Rightarrow> node_receipt" where
  "demo_receipt node d t = \<lparr>rc_node = node, rc_slot = 1, rc_mm_set_digest = [1], rc_market_digest = [2], rc_deadline = 10,
     rc_prev_state_digest = [], rc_new_state_digest = [d], rc_result_digest = [], rc_emitted_at = t, rc_signature = []\<rparr>"

definition demo_keys :: "(u32, bytes) btree" where
  "demo_keys = [(1, []), (2, []), (3, [])]"

definition demo_bonds :: bond_ledger where
  "demo_bonds = bond_ledger_new [(1, 7), (2, 4)]"

lemma slashing_conserves_witness:
  "bond_of (snd (apply_evidence demo_bonds [evidence_new ForkedState 1 1 [], evidence_new MissingReceipt 2 1 []])) 2 = 0"
proof -
  let ?evs = "[evidence_new ForkedState 1 1 [], evidence_new MissingReceipt 2 1 []]"
  have "bond_of demo_bonds 2 = 4" "slashed_from 2 (fst (apply_evidence demo_bonds ?evs)) = 4" by code_simp+
  moreover have "bond_of (snd (apply_evidence demo_bonds ?evs)) 2 + slashed_from 2 (fst (apply_evidence demo_bonds ?evs)) = bond_of demo_bonds 2"
    using slashing_conserves[of demo_bonds ?evs] by (simp add: case_prod_unfold)
  ultimately show ?thesis by linarith
qed

section \<open>Settlement\<close>

text \<open>C37: Conflicting settlements are accountable. If a ledger that started empty settles one slot on two different states,
  at two moments of any sequence of requests, under requirements that together exceed the number of nodes, then the
  evidence log holds, for some registered node, two receipts for that slot with different contents that both verify
  under the key of the node; or two receipts stored for a registered node, with the two new states, are a collision of the
  hash: their contents are different texts with the same digest. The digests in receipts, 32 bytes
  in the code, have lengths that fit the prefix of 32 bits.\<close>

theorem settlement_accountable:
  assumes "L = run_ops (audit_step sha vfy) xs (ledger_new keys)" and "settle L slot t = Inr ((Some d, f), L')"
    and "M = run_ops (audit_step sha vfy) ys L'" and "settle M slot t' = Inr ((Some d', f'), M')" and "d \<noteq> d'"
    and "bt_get (specs L) slot = Some s" and "bt_get (specs M) slot = Some s'"
    and "length keys < sp_required_receipts s + sp_required_receipts s'"
    and "\<forall>x \<in> set (xs @ ys). sized_op x"
  shows "\<exists>node \<in> fst ` set keys. (\<exists>ev \<in> set (evidence_log M'). convicts sha vfy keys ev node slot)
    \<or> (\<exists>a \<in> set (stored M slot node). \<exists>b \<in> set (stored M slot node). rc_new_state_digest a = d \<and> rc_new_state_digest b = d'
         \<and> digest_text (content_parts a) \<noteq> digest_text (content_parts b)
         \<and> sha (digest_text (content_parts a)) = sha (digest_text (content_parts b)))"
proof -
  have invL: "audit_inv sha vfy L" unfolding assms(1) by (rule audit.run_inv[OF audit_inv_new])
  have invL': "audit_inv sha vfy L'" by (rule settle_inv[OF invL assms(2)])
  have invM: "audit_inv sha vfy M" unfolding assms(3) by (rule audit.run_inv[OF invL'])
  have "keeps L L'" by (rule settle_log[OF assms(2)]) (simp add: keeps_def)
  then have LM: "keeps L M" using run_keeps[OF invL'] unfolding assms(3) by (rule keeps_trans)
  have "keeps (ledger_new keys) L" unfolding assms(1) by (rule run_keeps[OF audit_inv_new])
  then have keysL: "node_keys L = keys" and keysM: "node_keys M = keys" using LM by (simp_all add: keeps_def ledger_new_def)
  have q: "sp_required_receipts s \<le> card (voters L s slot d)" "voters L s slot d \<subseteq> fst ` set (node_keys L)"
    by (rule settle_backed[OF invL assms(2)]; simp add: assms(6))+
  have q': "sp_required_receipts s' \<le> card (voters M s' slot d')" "voters M s' slot d' \<subseteq> fst ` set (node_keys M)"
    by (rule settle_backed[OF invM assms(4)]; simp add: assms(7))+
  have "length (node_keys L) < card (voters L s slot d) + card (voters M s' slot d')"
    unfolding keysL using q(1) q'(1) assms(8) by linarith
  then obtain node a b where n: "node \<in> fst ` set keys" and ab: "a \<in> set (stored M slot node)" "b \<in> set (stored M slot node)"
    "rc_new_state_digest a = d" "rc_new_state_digest b = d'"
    by (rule settlements_conflict[OF invL invM LM q(2) q'(2)]) (simp add: keysM)
  show ?thesis
  proof (cases "content_digest sha a = content_digest sha b")
    case True
    have "ledger_sized L" unfolding assms(1) by (rule run_sized[OF _ ledger_sized_new]) (use assms(9) in simp)
    then have "ledger_sized L'" by (rule settle_sized[OF assms(2)])
    then have "ledger_sized M" unfolding assms(3) by (intro run_sized) (use assms(9) in simp)
    then have "digest_text (content_parts a) \<noteq> digest_text (content_parts b)"
      using ab assms(5) by (intro content_binds_state) (auto simp: ledger_sized_def)
    then show ?thesis using True n ab by (auto simp: content_digest_def digest_def)
  next
    case False
    then obtain ev where "ev \<in> set (evidence_log M)" "convicts sha vfy keys ev node slot"
      using invM ab(1,2) unfolding audit_inv_def accountable_def keysM by blast
    moreover have "set (evidence_log M) \<subseteq> set (evidence_log M')" by (rule settle_log[OF assms(4)]) simp
    ultimately show ?thesis using n by blast
  qed
qed

definition demo_exec :: "audit_op \<Rightarrow> audit_ledger \<Rightarrow> string + audit_ledger" where
  "demo_exec = audit_step (\<lambda>b. b) (\<lambda>_ _ _. True)"

definition demo_votes :: "audit_op list" where
  "demo_votes = [Open_Slot demo_spec, Record (demo_receipt 1 7 5) None, Record (demo_receipt 2 7 5) None]"

definition demo_revotes :: "audit_op list" where
  "demo_revotes = [Record (demo_receipt 2 8 5) None, Record (demo_receipt 3 8 5) None]"

definition demo_first :: audit_ledger where
  "demo_first = run_ops demo_exec demo_votes (ledger_new demo_keys)"

definition demo_second :: audit_ledger where
  "demo_second = run_ops demo_exec demo_revotes (step_or_stay demo_exec (Settle 1 20) demo_first)"

definition settled_on :: "audit_ledger \<Rightarrow> bytes option" where
  "settled_on L = (case settle L 1 20 of Inr ((d, _), _) \<Rightarrow> d | Inl _ \<Rightarrow> None)"

lemma settled_onE:
  assumes "settled_on L = Some d"
  obtains f where "settle L 1 20 = Inr ((Some d, f), step_or_stay demo_exec (Settle 1 20) L)"
  using assms that by (auto simp: settled_on_def step_or_stay_def demo_exec_def split: sum.splits)

lemma demo_sized: "receipt_sized (demo_receipt n d e)"
  by (simp add: receipt_sized_def demo_receipt_def)

theorem settlement_accountable_witness:
  "settled_on demo_first = Some [7] \<and> settled_on demo_second = Some [8] \<and>
   (\<exists>node \<in> fst ` set demo_keys.
      \<exists>ev \<in> set (evidence_log (step_or_stay demo_exec (Settle 1 20) demo_second)). convicts (\<lambda>b. b) (\<lambda>_ _ _. True) demo_keys ev node 1)"
proof -
  have on: "settled_on demo_first = Some [7]" "settled_on demo_second = Some [8]" by code_simp+
  have specs: "bt_get (specs demo_first) 1 = Some demo_spec" "bt_get (specs demo_second) 1 = Some demo_spec" by code_simp+
  have quorum: "length demo_keys < sp_required_receipts demo_spec + sp_required_receipts demo_spec" by code_simp
  have sized: "\<forall>x \<in> set (demo_votes @ demo_revotes). sized_op x" by (simp add: demo_votes_def demo_revotes_def demo_sized)
  obtain f where f: "settle demo_first 1 20 = Inr ((Some [7], f), step_or_stay demo_exec (Settle 1 20) demo_first)"
    using on(1) by (rule settled_onE)
  obtain g where g: "settle demo_second 1 20 = Inr ((Some [8], g), step_or_stay demo_exec (Settle 1 20) demo_second)"
    using on(2) by (rule settled_onE)
  have ne: "[7] \<noteq> ([8] :: bytes)" by simp
  show ?thesis
    using settlement_accountable[OF demo_first_def[unfolded demo_exec_def] f[unfolded demo_exec_def]
        demo_second_def[unfolded demo_exec_def] g[unfolded demo_exec_def] ne specs quorum sized] on
    unfolding demo_exec_def by blast
qed

text \<open>C38: Nobody is framed. If every two receipts for a slot that verify under the key of a node have the same content, then no
  sequence of requests puts evidence of equivocation by that node in that slot into the log.\<close>

theorem equivocation_not_fabricated:
  assumes "ev \<in> set (evidence_log (run_ops (audit_step sha vfy) xs (ledger_new keys)))" and "ev_fault ev = Equivocation"
    and "\<forall>a b. genuine sha vfy keys a \<and> genuine sha vfy keys b \<and> rc_node a = node \<and> rc_node b = node
           \<and> rc_slot a = ev_slot ev \<and> rc_slot b = ev_slot ev \<longrightarrow> content_parts a = content_parts b"
  shows "ev_node ev \<noteq> uint node"
proof
  assume n: "ev_node ev = uint node"
  let ?L = "run_ops (audit_step sha vfy) xs (ledger_new keys)"
  have "keeps (ledger_new keys) ?L" by (rule run_keeps[OF audit_inv_new])
  then have keys: "node_keys ?L = keys" by (simp add: keeps_def ledger_new_def)
  have "audit_inv sha vfy ?L" by (rule audit.run_inv[OF audit_inv_new])
  then obtain m where c: "convicts sha vfy keys ev m (ev_slot ev)"
    using assms(1,2) unfolding audit_inv_def justified_def keys by blast
  then have "uint m = uint node" using n by (simp add: convicts_def)
  then have "m = node" by (rule unsigned_word_eqI)
  then obtain a b where "content_parts a = content_parts b" "content_digest sha a \<noteq> content_digest sha b"
    using c assms(3) unfolding convicts_def by blast
  then show False by (simp add: content_digest_def)
qed

text \<open>Node 1 signed one receipt, and its key verifies nothing else; node 2 signed two.\<close>

definition demo_verifier :: "bytes \<Rightarrow> bytes \<Rightarrow> bytes \<Rightarrow> bool" where
  "demo_verifier key body signature \<longleftrightarrow> (key = [9] \<longrightarrow> body = signed_body (\<lambda>b. b) (demo_receipt 1 7 5))"

definition demo_audited :: audit_ledger where
  "demo_audited = run_ops (audit_step (\<lambda>b. b) demo_verifier)
      [Open_Slot demo_spec, Record (demo_receipt 1 7 5) None, Record (demo_receipt 2 7 5) None, Record (demo_receipt 2 8 5) None]
      (ledger_new [(1, [9]), (2, [])])"

lemma demo_body_binds:
  assumes "signed_body (\<lambda>b. b) a = signed_body (\<lambda>b. b) (demo_receipt 1 7 5)"
  shows "content_parts a = content_parts (demo_receipt 1 7 5)"
proof -
  let ?parts = "\<lambda>r. [ascii ''receipt:v2'', AUDIT_VERSION, u32_be (rc_node r), u64_be (rc_slot r), rc_mm_set_digest r,
    rc_market_digest r, u64_be (rc_deadline r), u64_be (rc_emitted_at r), rc_prev_state_digest r, rc_new_state_digest r,
    rc_result_digest r]"
  have eq: "digest_text (?parts a) = digest_text (?parts (demo_receipt 1 7 5))"
    using assms by (simp only: signed_body_def digest_def)
  have "length (digest_text (?parts (demo_receipt 1 7 5))) < 2 ^ 32"
    by (simp add: digest_text_def AUDIT_DOMAIN_def AUDIT_VERSION_def demo_receipt_def)
  then have "?parts a = ?parts (demo_receipt 1 7 5)" by (rule digest_text_inj_short[OF eq, rotated]) (simp only: list.size)
  then show ?thesis by (simp add: content_parts_def)
qed

theorem equivocation_not_fabricated_witness:
  "length (stored demo_audited 1 1) = 1
    \<and> (\<exists>ev \<in> set (evidence_log demo_audited). ev_fault ev = Equivocation \<and> ev_node ev \<noteq> uint (1 :: u32))"
proof -
  have "list_ex (\<lambda>ev. ev_fault ev = Equivocation) (evidence_log demo_audited)" and one: "length (stored demo_audited 1 1) = 1"
    by code_simp+
  then obtain ev where ev: "ev \<in> set (evidence_log demo_audited)" "ev_fault ev = Equivocation" by (auto simp: list_ex_iff)
  have "content_parts a = content_parts (demo_receipt 1 7 5)"
    if "genuine (\<lambda>b. b) demo_verifier [(1, [9]), (2, [])] a" "rc_node a = 1" for a
    using that by (intro demo_body_binds) (simp add: genuine_def demo_verifier_def)
  then have "ev_node ev \<noteq> uint (1 :: u32)"
    by (intro equivocation_not_fabricated[OF ev[unfolded demo_audited_def]]) metis
  then show ?thesis using one ev by blast
qed

section \<open>Where the ledger falls short\<close>

text \<open>The arrival time kept for a node is that of its first receipt, and settlement uses it for all of them: a second receipt
  that arrives after the deadline counts as timely, here displacing the first.\<close>

lemma late_receipt_counts:
  "settled_on (run_ops demo_exec
     [Open_Slot (demo_spec\<lparr>sp_required_receipts := 1\<rparr>), Record (demo_receipt 1 7 5) (Some 5), Record (demo_receipt 1 8 15) (Some 15)]
     (ledger_new [(1, [])])) = Some [8] \<and> 15 > sp_deadline demo_spec"
  by (rule conjI) code_simp+

text \<open>Whoever hands in a receipt that does not verify accuses the node it names: with no valid receipt of node 1 at all,
  the log holds evidence against node 1 and its bond is slashed.\<close>

lemma forged_receipt_slashes:
  "let L = run_ops (audit_step (\<lambda>b. b) demo_verifier) [Open_Slot demo_spec, Record (demo_receipt 1 8 5) None] (ledger_new [(1, [9])])
   in bond_of (snd (apply_evidence demo_bonds (evidence_log L))) 1 = 0 \<and> bond_of demo_bonds 1 = 7"
  by code_simp

text \<open>Without a quorum the larger of two states with as many receipts counts as the plurality, and the node that signed the other
  is accused of departing from a quorum that does not exist.\<close>

lemma fork_without_quorum:
  "case settle (run_ops demo_exec [Open_Slot demo_spec, Record (demo_receipt 1 7 5) None, Record (demo_receipt 2 8 5) None]
      (ledger_new [(1, []), (2, [])])) 1 20 of
     Inr ((d, found), _) \<Rightarrow> d = None \<and> list_ex (\<lambda>ev. ev_fault ev = ForkedState \<and> ev_node ev = 1) found
   | Inl _ \<Rightarrow> False"
  by code_simp

end
