(* ===== verification/Publication.thy ===== *)
theory Publication
  imports Ordered_Maps Machines
begin

text \<open>
  \<^verbatim>\<open>src/rust/qomm-audit/src/distributed_dp.rs\<close> and \<^verbatim>\<open>publication.rs\<close>: the noise mechanism, publication statements and
  their certificates. The record \<open>pub_prims\<close> holds what is not under the sources, SHA-256, the JSON and hex encodings
  and the hybrid signatures, and what the sources compute in \<open>f64\<close>: the cumulative distribution of the noise
  scaled to \<open>2 ^ 64\<close> and rounded down, and the privacy parameter of a mechanism.
\<close>

type_synonym u128 = "128 word"

record dp_mechanism =
  epsilon_micros :: u64
  sensitivity :: u64
  support :: u16
  mech_version :: string

record statement =
  st_operation_id :: bytes
  st_budget_scope :: bytes
  st_venue :: string
  st_epoch :: u64
  st_slot_start :: u64
  st_slot_end :: u64
  st_source_digest :: bytes
  st_rule_digest :: bytes
  st_mechanism_digest :: bytes
  st_private_input_commitment :: bytes
  st_transcript_digest :: bytes
  st_output_name :: string
  st_output_value :: "64 word"
  st_epsilon_micros :: u64
  st_delta_numerator :: u64
  st_delta_denominator :: u128
  st_budget_total_micros :: u64
  st_budget_before_micros :: u64
  st_budget_after_micros :: u64
  st_previous_certificate :: bytes

record allocation =
  al_budget_scope :: bytes
  al_venue :: string
  al_output_name :: string
  al_total_micros :: u64
  al_policy_version :: u64

record pub_prims =
  sha :: "bytes \<Rightarrow> bytes"
  json_statement :: "statement \<Rightarrow> bytes"
  json_allocation :: "allocation \<Rightarrow> bytes"
  hex_encode :: "bytes \<Rightarrow> string"
  hex_decode :: "string \<Rightarrow> bytes option"
  hybrid_verify :: "bytes \<Rightarrow> bytes \<Rightarrow> bytes \<Rightarrow> bool"
  scaled_cdf :: "dp_mechanism \<Rightarrow> nat list"
  certificate_delta :: "dp_mechanism \<Rightarrow> string + u64 \<times> u128"
  delta_below :: "u64 \<Rightarrow> u128 \<Rightarrow> dp_mechanism \<Rightarrow> string + bool"

section \<open>The mechanism\<close>

definition DP_DOMAIN :: bytes where
  "DP_DOMAIN = ascii ''QOMM:DISTRIBUTED-DP:v1''"

definition U64_SPACE :: nat where
  "U64_SPACE = 2 ^ 64"

definition mechanism_new :: "u64 \<Rightarrow> u64 \<Rightarrow> u16 \<Rightarrow> string + dp_mechanism" where
  "mechanism_new eps sens supp =
     (if eps = 0 \<or> sens = 0 then Inl ''epsilon and sensitivity must be positive''
      else if \<not> (1 \<le> supp \<and> supp \<le> 4096) then Inl ''support must lie in 1..4096''
      else Inr \<lparr>epsilon_micros = eps, sensitivity = sens, support = supp, mech_version = ''distributed-discrete-laplace-v1''\<rparr>)"

definition rounding_delta :: "dp_mechanism \<Rightarrow> u64 \<times> u128" where
  "rounding_delta m = (let cells = 2 * ucast (support m) + 1 in (cells * cells + 1, push_bit 53 1))"

definition mechanism_digest :: "pub_prims \<Rightarrow> dp_mechanism \<Rightarrow> bytes" where
  "mechanism_digest P m = sha P (DP_DOMAIN @ ascii (mech_version m) @ u64_be (epsilon_micros m) @ u64_be (sensitivity m)
     @ u32_be (ucast (support m)))"

text \<open>The loop over the cells: the last endpoint is \<open>2 ^ 64\<close>, the endpoints increase strictly.\<close>

fun endpoints_loop :: "nat list \<Rightarrow> nat list \<Rightarrow> string + nat list" where
  "endpoints_loop acc [] = Inr acc"
| "endpoints_loop acc (c # cs) =
     (let endpoint = (if cs = [] then U64_SPACE else c)
      in if acc \<noteq> [] \<and> endpoint \<le> last acc
         then Inl ''64-bit CDF has a zero-probability cell; lower support or epsilon''
         else endpoints_loop (acc @ [endpoint]) cs)"

definition thresholds :: "pub_prims \<Rightarrow> dp_mechanism \<Rightarrow> string + nat list" where
  "thresholds P m = endpoints_loop [] (scaled_cdf P m)"

text \<open>\<open>partition_point\<close> on a list that the predicate splits.\<close>

definition partition_point :: "('a \<Rightarrow> bool) \<Rightarrow> 'a list \<Rightarrow> nat" where
  "partition_point p xs = length (takeWhile p xs)"

definition sample_u64 :: "pub_prims \<Rightarrow> dp_mechanism \<Rightarrow> u64 \<Rightarrow> string + int" where
  "sample_u64 P m uniform =
     and_then (thresholds P m) (\<lambda>endpoints.
       Inr (- int (unat (support m)) + int (partition_point (\<lambda>endpoint. endpoint \<le> unat uniform) endpoints)))"

definition ascii_letter :: "char \<Rightarrow> bool" where
  "ascii_letter c \<longleftrightarrow> 65 \<le> (of_char c :: nat) \<and> (of_char c :: nat) \<le> 90 \<or> 97 \<le> (of_char c :: nat) \<and> (of_char c :: nat) \<le> 122"

definition ascii_alphanumeric :: "char \<Rightarrow> bool" where
  "ascii_alphanumeric c \<longleftrightarrow> ascii_letter c \<or> 48 \<le> (of_char c :: nat) \<and> (of_char c :: nat) \<le> 57"

definition label_ok :: "string \<Rightarrow> bool" where
  "label_ok label \<longleftrightarrow> (case label of [] \<Rightarrow> False
     | c # _ \<Rightarrow> (c = CHR ''_'' \<or> ascii_letter c) \<and> list_all (\<lambda>c. c = CHR ''_'' \<or> ascii_alphanumeric c) label)"

fun join_plus :: "string list \<Rightarrow> string" where
  "join_plus [] = []"
| "join_plus [s] = s"
| "join_plus (s # t # ts) = s @ '' + '' @ join_plus (t # ts)"

text \<open>The generated program. \<open>circuit_noise\<close> below is what its line for the noise computes.\<close>

definition mp_spdz_text :: "nat \<Rightarrow> u64 \<Rightarrow> u64 \<Rightarrow> u64 \<Rightarrow> u16 \<Rightarrow> string \<Rightarrow> string \<Rightarrow> string" where
  "mp_spdz_text n_parties eps spent after supp comparisons label =
     concat (map (\<lambda>line. line @ [CHR 0x0A])
       [''# generated by qomm_audit.distributed_dp; do not edit'',
        ''from Compiler.types import sint'',
        ''N_PARTIES = '' @ show_nat n_parties,
        ''EPSILON_MICROS = '' @ show_nat (unat eps),
        ''BUDGET_BEFORE_MICROS = '' @ show_nat (unat spent),
        ''BUDGET_AFTER_MICROS = '' @ show_nat (unat after),
        ''exact = sum(sint.get_input_from(p) for p in range(N_PARTIES))'',
        ''random_bits = [sint.get_random_bit() for _ in range(64)]'',
        ''u = sum(random_bits[j] * (1 << j) for j in range(64))'',
        ''noise = -'' @ show_nat (unat supp) @ '' + ('' @ comparisons @ '')'',
        label @ '' = exact + noise'',
        ''print_ln('' @ [CHR 0x27] @ ''%s'' @ [CHR 0x27] @ '', '' @ label @ ''.reveal())''])"

definition mp_spdz_source :: "pub_prims \<Rightarrow> dp_mechanism \<Rightarrow> nat \<Rightarrow> u64 \<Rightarrow> u64 \<Rightarrow> string \<Rightarrow> string + string" where
  "mp_spdz_source P m n_parties total_micros spent label =
     (if n_parties < 3 then Inl ''distributed publication requires at least three nodes''
      else and_then (ok_or (checked_add spent (epsilon_micros m)) ''the requested release exceeds its privacy budget'') (\<lambda>after.
        if after > total_micros then Inl ''the requested release exceeds its privacy budget''
        else if \<not> label_ok label then Inl ''output label must be an ASCII identifier''
        else and_then (thresholds P m) (\<lambda>ts.
          let comparisons = join_plus (map (\<lambda>t. ''u.__ge__('' @ show_nat t @ '')'') (take (length ts - 1) ts))
          in Inr (mp_spdz_text n_parties (epsilon_micros m) spent after (support m) comparisons label))))"

definition circuit_noise :: "dp_mechanism \<Rightarrow> nat list \<Rightarrow> nat \<Rightarrow> int" where
  "circuit_noise m ts u = - int (unat (support m)) + sum_list (map (\<lambda>t. if t \<le> u then 1 else 0) (take (length ts - 1) ts))"

record budget_state =
  bs_total_micros :: u64
  bs_spent_micros :: u64

definition spend :: "budget_state \<Rightarrow> dp_mechanism \<Rightarrow> string + budget_state" where
  "spend b m =
     and_then (ok_or (checked_add (bs_spent_micros b) (epsilon_micros m)) ''privacy budget exhausted'') (\<lambda>spent.
       if spent > bs_total_micros b then Inl ''privacy budget exhausted'' else Inr (b\<lparr>bs_spent_micros := spent\<rparr>))"

section \<open>Statements\<close>

definition PUBLICATION_DOMAIN :: bytes where
  "PUBLICATION_DOMAIN = ascii ''QOMM:PUBLICATION-CERTIFICATE:v2''"

definition ZERO :: bytes where
  "ZERO = replicate 32 0"

definition validate :: "statement \<Rightarrow> string + unit" where
  "validate s =
     (if st_venue s = [] \<or> st_output_name s = [] then Inl ''venue and output name are required''
      else if st_slot_end s < st_slot_start s then Inl ''invalid epoch or slot range''
      else if st_epsilon_micros s = 0 then Inl ''epsilon must be positive''
      else if ZERO \<in> set [st_operation_id s, st_budget_scope s, st_source_digest s, st_rule_digest s, st_mechanism_digest s,
                            st_private_input_commitment s, st_transcript_digest s]
      then Inl ''publication statement contains an unbound digest''
      else if st_delta_denominator s = 0 \<or> ucast (st_delta_numerator s) \<ge> st_delta_denominator s
      then Inl ''delta must be a proper non-negative fraction''
      else if st_budget_before_micros s > st_budget_after_micros s \<or> st_budget_after_micros s > st_budget_total_micros s
      then Inl ''invalid privacy budget transition''
      else if st_budget_after_micros s - st_budget_before_micros s \<noteq> st_epsilon_micros s
      then Inl ''privacy budget transition does not equal epsilon spent''
      else Inr ())"

definition validate_against :: "pub_prims \<Rightarrow> statement \<Rightarrow> dp_mechanism \<Rightarrow> string + unit" where
  "validate_against P s m =
     and_then (validate s) (\<lambda>_.
       if st_mechanism_digest s \<noteq> mechanism_digest P m then Inl ''statement does not name this mechanism''
       else if st_epsilon_micros s \<noteq> epsilon_micros m then Inl ''statement epsilon does not match the mechanism''
       else and_then (delta_below P (st_delta_numerator s) (st_delta_denominator s) m) (\<lambda>below.
         if below then Inl ''statement carries a delta below that of the mechanism'' else Inr ()))"

definition statement_body :: "pub_prims \<Rightarrow> statement \<Rightarrow> string + bytes" where
  "statement_body P s = and_then (validate s) (\<lambda>_. Inr (PUBLICATION_DOMAIN @ json_statement P s))"

definition statement_digest :: "pub_prims \<Rightarrow> statement \<Rightarrow> string + bytes" where
  "statement_digest P s = and_then (statement_body P s) (\<lambda>b. Inr (sha P b))"

record node_evidence =
  ne_version :: u8
  ne_node_id :: string
  ne_operation_id :: bytes
  ne_epoch :: u64
  ne_slot_start :: u64
  ne_slot_end :: u64
  ne_source_digest :: bytes
  ne_rule_digest :: bytes
  ne_mechanism_digest :: bytes
  ne_private_input_commitment :: bytes
  ne_transcript_digest :: bytes
  ne_output_name :: string
  ne_output_value :: "64 word"

definition validate_for :: "pub_prims \<Rightarrow> node_evidence \<Rightarrow> string \<Rightarrow> statement \<Rightarrow> dp_mechanism \<Rightarrow> string + unit" where
  "validate_for P e node_id s m =
     and_then (validate_against P s m) (\<lambda>_.
       if ne_version e \<noteq> 1 \<or> ne_node_id e \<noteq> node_id then Inl ''publication evidence belongs to another node or version''
       else if ne_operation_id e \<noteq> st_operation_id s \<or> ne_epoch e \<noteq> st_epoch s \<or> ne_slot_start e \<noteq> st_slot_start s
         \<or> ne_slot_end e \<noteq> st_slot_end s \<or> ne_source_digest e \<noteq> st_source_digest s \<or> ne_rule_digest e \<noteq> st_rule_digest s
         \<or> ne_mechanism_digest e \<noteq> st_mechanism_digest s \<or> ne_private_input_commitment e \<noteq> st_private_input_commitment s
         \<or> ne_transcript_digest e \<noteq> st_transcript_digest s \<or> ne_output_name e \<noteq> st_output_name s
         \<or> ne_output_value e \<noteq> st_output_value s
       then Inl ''publication statement differs from node-local MPC evidence'' else Inr ())"

section \<open>Certificates\<close>

record node_signature =
  ns_node_id :: string
  ns_signature :: bytes

record certificate =
  ct_statement :: statement
  ct_signatures :: "node_signature list"

type_synonym registry = "(string, bytes) btree"

definition independent_registry :: "registry \<Rightarrow> bool" where
  "independent_registry reg =
     (if list_ex (\<lambda>(_, key). length key \<noteq> 1984) reg then False
      else card (set (map (\<lambda>(_, key). take 32 key) reg)) = length reg
         \<and> card (set (map (\<lambda>(_, key). drop 32 key) reg)) = length reg)"

text \<open>The filter with its set of node names already seen, and the number of signatures it keeps.\<close>

fun valid_count :: "pub_prims \<Rightarrow> registry \<Rightarrow> bytes \<Rightarrow> string set \<Rightarrow> node_signature list \<Rightarrow> nat" where
  "valid_count P reg body seen [] = 0"
| "valid_count P reg body seen (s # ss) =
     (if ns_node_id s \<notin> seen
         \<and> (case bt_get reg (ns_node_id s) of Some key \<Rightarrow> hybrid_verify P key body (ns_signature s) | None \<Rightarrow> False)
      then 1 else 0) + valid_count P reg body (insert (ns_node_id s) seen) ss"

definition certificate_digest :: "pub_prims \<Rightarrow> certificate \<Rightarrow> string + bytes" where
  "certificate_digest P c =
     and_then (statement_body P (ct_statement c)) (\<lambda>body.
       Inr (sha P (body @ concat (map (\<lambda>s. ascii (ns_node_id s) @ ns_signature s) (sort_key ns_node_id (ct_signatures c))))))"

definition follows :: "pub_prims \<Rightarrow> statement \<Rightarrow> certificate option \<Rightarrow> bool" where
  "follows P s previous =
     (case previous of
        None \<Rightarrow> st_previous_certificate s = ZERO
      | Some p \<Rightarrow> \<not> (certificate_digest P p \<noteq> Inr (st_previous_certificate s)
          \<or> st_epoch s \<le> st_epoch (ct_statement p)
          \<or> st_budget_before_micros s \<noteq> st_budget_after_micros (ct_statement p)
          \<or> st_budget_scope s \<noteq> st_budget_scope (ct_statement p)
          \<or> st_venue s \<noteq> st_venue (ct_statement p)
          \<or> st_output_name s \<noteq> st_output_name (ct_statement p)
          \<or> st_budget_total_micros s \<noteq> st_budget_total_micros (ct_statement p)))"

definition verify_certificate :: "pub_prims \<Rightarrow> certificate \<Rightarrow> registry \<Rightarrow> nat \<Rightarrow> certificate option \<Rightarrow> bool" where
  "verify_certificate P c reg threshold previous =
     (if \<not> independent_registry reg \<or> \<not> is_ok (validate (ct_statement c)) \<or> \<not> (1 \<le> threshold \<and> threshold \<le> length reg) then False
      else if \<not> follows P (ct_statement c) previous then False
      else case statement_body P (ct_statement c) of
             Inl _ \<Rightarrow> False
           | Inr body \<Rightarrow> threshold \<le> valid_count P reg body {} (ct_signatures c))"

text \<open>Certification with the signers of the nodes, in the order of their names.\<close>

definition certify :: "pub_prims \<Rightarrow> statement \<Rightarrow> (string, bytes \<Rightarrow> string + bytes) btree \<Rightarrow> string + certificate" where
  "certify P s signers =
     and_then (statement_body P s) (\<lambda>body.
     and_then (try_map (\<lambda>(node_id, sign). and_then (sign body) (\<lambda>g. Inr \<lparr>ns_node_id = node_id, ns_signature = g\<rparr>)) signers) (\<lambda>sigs.
       Inr \<lparr>ct_statement = s, ct_signatures = sigs\<rparr>))"

end
