(* ===== verification/Publication_Ledger.thy ===== *)
theory Publication_Ledger
  imports Publication
begin

text \<open>
  \<^verbatim>\<open>src/rust/qomm-audit/src/publication_ledger.rs\<close>: the ledger of privacy budgets and publication certificates. An
  operation holds the file lock from its read to its write, so it is a function of the state it read, and one that fails
  writes nothing. Errors of the file system are left out.
\<close>

definition STATE_VERSION :: u8 where
  "STATE_VERSION = 1"

definition BUDGET_DOMAIN :: bytes where
  "BUDGET_DOMAIN = ascii ''QOMM:DP:BUDGET-ALLOCATION:v1''"

definition is_space :: "char \<Rightarrow> bool" where
  "is_space c \<longleftrightarrow> c = CHR '' '' \<or> 9 \<le> (of_char c :: nat) \<and> (of_char c :: nat) \<le> 13"

definition blank :: "string \<Rightarrow> bool" where
  "blank s \<longleftrightarrow> list_all is_space s"

definition allocation_body :: "pub_prims \<Rightarrow> allocation \<Rightarrow> string + bytes" where
  "allocation_body P a =
     (if al_budget_scope a = ZERO \<or> blank (al_venue a) \<or> blank (al_output_name a) \<or> al_total_micros a = 0
         \<or> al_policy_version a = 0
      then Inl ''privacy-budget allocation is incomplete''
      else Inr (BUDGET_DOMAIN @ json_allocation P a))"

definition allocation_digest :: "pub_prims \<Rightarrow> allocation \<Rightarrow> string + bytes" where
  "allocation_digest P a = and_then (allocation_body P a) (\<lambda>b. Inr (sha P b))"

record request =
  rq_operation_id :: bytes
  rq_budget_scope :: bytes
  rq_venue :: string
  rq_epoch :: u64
  rq_slot_start :: u64
  rq_slot_end :: u64
  rq_source_digest :: bytes
  rq_rule_digest :: bytes
  rq_private_input_commitment :: bytes
  rq_transcript_digest :: bytes
  rq_output_name :: string
  rq_output_value :: "64 word"

record stored_signature =
  ss_node_id :: string
  ss_signature :: string

record stored_certificate =
  sc_statement :: statement
  sc_signatures :: "stored_signature list"

definition stored_signatures :: "pub_prims \<Rightarrow> node_signature list \<Rightarrow> stored_signature list" where
  "stored_signatures P ss = map (\<lambda>s. \<lparr>ss_node_id = ns_node_id s, ss_signature = hex_encode P (ns_signature s)\<rparr>) ss"

definition from_certificate :: "pub_prims \<Rightarrow> certificate \<Rightarrow> stored_certificate" where
  "from_certificate P c = \<lparr>sc_statement = ct_statement c, sc_signatures = stored_signatures P (ct_signatures c)\<rparr>"

definition load_signature :: "pub_prims \<Rightarrow> stored_signature \<Rightarrow> string + node_signature" where
  "load_signature P s =
     and_then (ok_or (hex_decode P (ss_signature s)) ''stored publication signature is malformed'') (\<lambda>raw.
       if length raw \<noteq> 3373 then Inl ''legacy publication requires an archived checkpoint and explicit PQ migration''
       else Inr \<lparr>ns_node_id = ss_node_id s, ns_signature = raw\<rparr>)"

definition load_certificate :: "pub_prims \<Rightarrow> stored_certificate \<Rightarrow> string + certificate" where
  "load_certificate P c =
     and_then (try_map (load_signature P) (sc_signatures c)) (\<lambda>ss. Inr \<lparr>ct_statement = sc_statement c, ct_signatures = ss\<rparr>)"

record budget_record =
  br_allocation :: allocation
  br_allocation_signatures :: "stored_signature list"
  br_spent_micros :: u64
  br_last_epoch :: u64
  br_latest :: "stored_certificate option"

record ledger_state =
  ls_version :: u8
  ls_generation :: u64
  ls_budgets :: "(string, budget_record) btree"
  ls_operations :: "(string, string) btree"

record ledger =
  publication_registry :: registry
  publication_threshold :: nat
  governance_registry :: registry
  governance_threshold :: nat

definition empty_state :: ledger_state where
  "empty_state = \<lparr>ls_version = STATE_VERSION, ls_generation = 0, ls_budgets = [], ls_operations = []\<rparr>"

text \<open>Opening: \<open>file\<close> is the state in the file if there is one; the state written when there is none.\<close>

definition read_state :: "ledger_state \<Rightarrow> string + ledger_state" where
  "read_state s = (if ls_version s \<noteq> STATE_VERSION then Inl ''unsupported publication-ledger version'' else Inr s)"

definition open_with_registries ::
  "ledger_state option \<Rightarrow> registry \<Rightarrow> nat \<Rightarrow> registry \<Rightarrow> nat \<Rightarrow> string + ledger \<times> ledger_state" where
  "open_with_registries file pub_reg pub_t gov_reg gov_t =
     (if \<not> independent_registry pub_reg \<or> \<not> independent_registry gov_reg \<or> length pub_reg \<noteq> 7 \<or> pub_t \<noteq> 3
         \<or> length gov_reg \<noteq> 7 \<or> gov_t \<noteq> 3
      then Inl ''production publication ledger requires separate explicit 3-of-7 registries''
      else
        let L = \<lparr>publication_registry = pub_reg, publication_threshold = pub_t, governance_registry = gov_reg,
                 governance_threshold = gov_t\<rparr>
        in case file of
             None \<Rightarrow> Inr (L, empty_state)
           | Some s \<Rightarrow> and_then (read_state s) (\<lambda>s. Inr (L, s)))"

definition open_ledger :: "ledger_state option \<Rightarrow> registry \<Rightarrow> nat \<Rightarrow> string + ledger \<times> ledger_state" where
  "open_ledger file reg t = open_with_registries file reg t reg t"

definition budget_key_text :: "bytes \<Rightarrow> string \<Rightarrow> string \<Rightarrow> bytes" where
  "budget_key_text scope venue output_name =
     ascii ''QOMM:DP:BUDGET-KEY:v1'' @ scope @ u64_be (word_of_nat (length venue)) @ ascii venue
       @ u64_be (word_of_nat (length output_name)) @ ascii output_name"

definition budget_key :: "pub_prims \<Rightarrow> bytes \<Rightarrow> string \<Rightarrow> string \<Rightarrow> string" where
  "budget_key P scope venue output_name = hex_encode P (sha P (budget_key_text scope venue output_name))"

definition verify_signatures :: "pub_prims \<Rightarrow> registry \<Rightarrow> nat \<Rightarrow> bytes \<Rightarrow> node_signature list \<Rightarrow> bool" where
  "verify_signatures P reg threshold body ss =
     (if \<not> independent_registry reg then False else threshold \<le> valid_count P reg body {} ss)"

definition next_generation :: "u64 \<Rightarrow> string + u64" where
  "next_generation g = ok_or (checked_add g 1) ''publication-ledger generation overflow''"

definition configure_budget ::
  "pub_prims \<Rightarrow> ledger \<Rightarrow> allocation \<Rightarrow> node_signature list \<Rightarrow> ledger_state \<Rightarrow> string + ledger_state" where
  "configure_budget P L a ss state =
     and_then (allocation_body P a) (\<lambda>body.
       if \<not> verify_signatures P (governance_registry L) (governance_threshold L) body ss
       then Inl ''privacy-budget allocation lacks 3-of-7 approval''
       else and_then (read_state state) (\<lambda>state.
         let key = budget_key P (al_budget_scope a) (al_venue a) (al_output_name a)
         in if bt_contains (ls_budgets state) key
            then Inl ''privacy-budget allocation already exists; budgets cannot be reset''
            else and_then (next_generation (ls_generation state)) (\<lambda>g.
              Inr (state\<lparr>ls_budgets := bt_insert key \<lparr>br_allocation = a, br_allocation_signatures = stored_signatures P ss,
                            br_spent_micros = 0, br_last_epoch = 0, br_latest = None\<rparr> (ls_budgets state),
                         ls_generation := g\<rparr>))))"

definition make_statement ::
  "pub_prims \<Rightarrow> request \<Rightarrow> dp_mechanism \<Rightarrow> budget_record \<Rightarrow> u64 \<Rightarrow> u64 \<times> u128 \<Rightarrow> bytes \<Rightarrow> statement" where
  "make_statement P q m b after delta previous =
     \<lparr>st_operation_id = rq_operation_id q, st_budget_scope = rq_budget_scope q, st_venue = rq_venue q, st_epoch = rq_epoch q,
      st_slot_start = rq_slot_start q, st_slot_end = rq_slot_end q, st_source_digest = rq_source_digest q,
      st_rule_digest = rq_rule_digest q, st_mechanism_digest = mechanism_digest P m,
      st_private_input_commitment = rq_private_input_commitment q, st_transcript_digest = rq_transcript_digest q,
      st_output_name = rq_output_name q, st_output_value = rq_output_value q, st_epsilon_micros = epsilon_micros m,
      st_delta_numerator = fst delta, st_delta_denominator = snd delta,
      st_budget_total_micros = al_total_micros (br_allocation b), st_budget_before_micros = br_spent_micros b,
      st_budget_after_micros = after, st_previous_certificate = previous\<rparr>"

definition load_latest :: "pub_prims \<Rightarrow> stored_certificate option \<Rightarrow> string + certificate option" where
  "load_latest P latest = (case latest of None \<Rightarrow> Inr None | Some c \<Rightarrow> and_then (load_certificate P c) (\<lambda>c. Inr (Some c)))"

definition previous_digest :: "pub_prims \<Rightarrow> certificate option \<Rightarrow> string + bytes" where
  "previous_digest P previous = (case previous of None \<Rightarrow> Inr ZERO | Some c \<Rightarrow> certificate_digest P c)"

definition commit_certificate ::
  "pub_prims \<Rightarrow> string \<Rightarrow> string \<Rightarrow> u64 \<Rightarrow> budget_record \<Rightarrow> certificate \<Rightarrow> ledger_state \<Rightarrow> string + certificate \<times> ledger_state" where
  "commit_certificate P operation key after b c state =
     and_then (certificate_digest P c) (\<lambda>d.
     and_then (next_generation (ls_generation state)) (\<lambda>g.
       Inr (c, state\<lparr>ls_budgets := bt_insert key (b\<lparr>br_spent_micros := after, br_last_epoch := st_epoch (ct_statement c),
                                    br_latest := Some (from_certificate P c)\<rparr>) (ls_budgets state),
                     ls_operations := bt_insert operation (hex_encode P d) (ls_operations state),
                     ls_generation := g\<rparr>)))"

definition publish_with ::
  "pub_prims \<Rightarrow> ledger \<Rightarrow> request \<Rightarrow> dp_mechanism \<Rightarrow> (statement \<Rightarrow> string + node_signature list) \<Rightarrow> ledger_state
    \<Rightarrow> string + certificate \<times> ledger_state" where
  "publish_with P L q m sign state =
     (if rq_operation_id q = ZERO then Inl ''publication operation identifier is required''
      else and_then (read_state state) (\<lambda>state.
        let operation = hex_encode P (rq_operation_id q);
            key = budget_key P (rq_budget_scope q) (rq_venue q) (rq_output_name q)
        in if bt_contains (ls_operations state) operation then Inl ''publication operation was already committed''
           else and_then (ok_or (bt_get (ls_budgets state) key) ''no approved privacy budget for this legal-entity scope'') (\<lambda>b.
             if rq_venue q \<noteq> al_venue (br_allocation b) \<or> rq_output_name q \<noteq> al_output_name (br_allocation b)
                \<or> rq_epoch q \<le> br_last_epoch b
             then Inl ''publication scope or epoch does not follow its budget state''
             else and_then (ok_or (checked_add (br_spent_micros b) (epsilon_micros m)) ''privacy budget exhausted'') (\<lambda>after.
               if after > al_total_micros (br_allocation b) then Inl ''privacy budget exhausted''
               else and_then (load_latest P (br_latest b)) (\<lambda>previous.
                 and_then (certificate_delta P m) (\<lambda>delta.
                 and_then (previous_digest P previous) (\<lambda>pd.
                   let s = make_statement P q m b after delta pd
                   in and_then (validate_against P s m) (\<lambda>_.
                      and_then (sign s) (\<lambda>sigs.
                        let c = \<lparr>ct_statement = s, ct_signatures = sigs\<rparr>
                        in if \<not> verify_certificate P c (publication_registry L) (publication_threshold L) previous
                           then Inl ''publication lacks a valid 3-of-7 certificate or budget chain''
                           else commit_certificate P operation key after b c state)))))))))"

definition budget_view :: "pub_prims \<Rightarrow> bytes \<Rightarrow> string \<Rightarrow> string \<Rightarrow> ledger_state \<Rightarrow> string + (u64 \<times> u64 \<times> u64) option" where
  "budget_view P scope venue output_name state =
     and_then (read_state state) (\<lambda>state.
       Inr (map_option (\<lambda>b. (al_total_micros (br_allocation b), br_spent_micros b, br_last_epoch b))
         (bt_get (ls_budgets state) (budget_key P scope venue output_name))))"

end
