(* ===== verification/Publication_Safety.thy ===== *)
theory Publication_Safety
  imports Publication_Ledger
begin

text \<open>
  The publication ledger over sequences of requests. The machine carries the list of certificates issued so far; the
  invariant ties every budget record to the certificates issued under its key.
\<close>

section \<open>The machine\<close>

datatype ledger_op =
  Configure allocation "node_signature list"
| Publish request dp_mechanism "statement \<Rightarrow> string + node_signature list"

type_synonym run_state = "ledger_state \<times> certificate list"

fun ledger_step :: "pub_prims \<Rightarrow> ledger \<Rightarrow> ledger_op \<Rightarrow> run_state \<Rightarrow> string + run_state" where
  "ledger_step P L (Configure a ss) s = and_then (configure_budget P L a ss (fst s)) (\<lambda>t. Inr (t, snd s))"
| "ledger_step P L (Publish q m sign) s = and_then (publish_with P L q m sign (fst s)) (\<lambda>(c, t). Inr (t, snd s @ [c]))"

definition cert_key :: "pub_prims \<Rightarrow> certificate \<Rightarrow> string" where
  "cert_key P c = budget_key P (st_budget_scope (ct_statement c)) (st_venue (ct_statement c)) (st_output_name (ct_statement c))"

definition issued :: "pub_prims \<Rightarrow> string \<Rightarrow> certificate list \<Rightarrow> certificate list" where
  "issued P k h = filter (\<lambda>c. cert_key P c = k) h"

definition spent_by :: "certificate list \<Rightarrow> nat" where
  "spent_by cs = sum_list (map (\<lambda>c. unat (st_epsilon_micros (ct_statement c))) cs)"

section \<open>What a publication does\<close>

lemma publishE:
  assumes "publish_with P L q m sign state = Inr (c, state')"
  obtains b after previous pd delta g d where
    "ls_version state = STATE_VERSION"
    "\<not> bt_contains (ls_operations state) (hex_encode P (rq_operation_id q))"
    "bt_get (ls_budgets state) (budget_key P (rq_budget_scope q) (rq_venue q) (rq_output_name q)) = Some b"
    "br_last_epoch b < rq_epoch q" "checked_add (br_spent_micros b) (epsilon_micros m) = Some after"
    "after \<le> al_total_micros (br_allocation b)" "load_latest P (br_latest b) = Inr previous" "previous_digest P previous = Inr pd"
    "ct_statement c = make_statement P q m b after delta pd"
    "verify_certificate P c (publication_registry L) (publication_threshold L) previous"
    "state' = state\<lparr>ls_budgets := bt_insert (budget_key P (rq_budget_scope q) (rq_venue q) (rq_output_name q))
        (b\<lparr>br_spent_micros := after, br_last_epoch := rq_epoch q, br_latest := Some (from_certificate P c)\<rparr>) (ls_budgets state),
      ls_operations := bt_insert (hex_encode P (rq_operation_id q)) (hex_encode P d) (ls_operations state), ls_generation := g\<rparr>"
proof -
  let ?k = "budget_key P (rq_budget_scope q) (rq_venue q) (rq_output_name q)" and ?o = "hex_encode P (rq_operation_id q)"
  have v: "ls_version state = STATE_VERSION" and o: "\<not> bt_contains (ls_operations state) ?o"
    using assms by (auto simp: publish_with_def read_state_def Let_def split: if_split_asm)
  obtain b where b: "bt_get (ls_budgets state) ?k = Some b" and e: "br_last_epoch b < rq_epoch q"
    and m: "and_then (ok_or (checked_add (br_spent_micros b) (epsilon_micros m)) ''privacy budget exhausted'') (\<lambda>after.
               if after > al_total_micros (br_allocation b) then Inl ''privacy budget exhausted''
               else and_then (load_latest P (br_latest b)) (\<lambda>previous.
                 and_then (certificate_delta P m) (\<lambda>delta.
                 and_then (previous_digest P previous) (\<lambda>pd.
                   let s = make_statement P q m b after delta pd
                   in and_then (validate_against P s m) (\<lambda>_.
                      and_then (sign s) (\<lambda>sigs.
                        let c = \<lparr>ct_statement = s, ct_signatures = sigs\<rparr>
                        in if \<not> verify_certificate P c (publication_registry L) (publication_threshold L) previous
                           then Inl ''publication lacks a valid 3-of-7 certificate or budget chain''
                           else commit_certificate P ?o ?k after b c state)))))) = Inr (c, state')"
    using assms by (auto simp: publish_with_def read_state_def Let_def and_then_eq_Inr ok_or_eq_Inr not_le split: if_split_asm)
  from m obtain after previous delta pd sigs where a: "checked_add (br_spent_micros b) (epsilon_micros m) = Some after"
    "after \<le> al_total_micros (br_allocation b)" "load_latest P (br_latest b) = Inr previous" "previous_digest P previous = Inr pd"
    and ver: "verify_certificate P \<lparr>ct_statement = make_statement P q m b after delta pd, ct_signatures = sigs\<rparr>
      (publication_registry L) (publication_threshold L) previous"
    and com: "commit_certificate P ?o ?k after b \<lparr>ct_statement = make_statement P q m b after delta pd, ct_signatures = sigs\<rparr> state
      = Inr (c, state')"
    by (auto simp: and_then_eq_Inr ok_or_eq_Inr Let_def not_less split: if_split_asm)
  from com obtain g d where c: "c = \<lparr>ct_statement = make_statement P q m b after delta pd, ct_signatures = sigs\<rparr>"
    and s: "state' = state\<lparr>ls_budgets := bt_insert ?k (b\<lparr>br_spent_micros := after, br_last_epoch := rq_epoch q,
        br_latest := Some (from_certificate P c)\<rparr>) (ls_budgets state),
      ls_operations := bt_insert ?o (hex_encode P d) (ls_operations state), ls_generation := g\<rparr>"
    by (auto simp: commit_certificate_def and_then_eq_Inr make_statement_def)
  show thesis using that[OF v o b e a(1,2,3,4) _ _ s] ver by (simp add: c)
qed

lemma statement_fields [simp]:
  "st_operation_id (make_statement P q m b after delta pd) = rq_operation_id q"
  "st_epoch (make_statement P q m b after delta pd) = rq_epoch q"
  "st_epsilon_micros (make_statement P q m b after delta pd) = epsilon_micros m"
  "st_budget_before_micros (make_statement P q m b after delta pd) = br_spent_micros b"
  "st_budget_after_micros (make_statement P q m b after delta pd) = after"
  "st_budget_total_micros (make_statement P q m b after delta pd) = al_total_micros (br_allocation b)"
  "st_previous_certificate (make_statement P q m b after delta pd) = pd"
  by (simp_all add: make_statement_def)

lemma made_key: "ct_statement c = make_statement P q m b after delta pd \<Longrightarrow>
    cert_key P c = budget_key P (rq_budget_scope q) (rq_venue q) (rq_output_name q)"
  by (simp add: cert_key_def make_statement_def)

lemma configureE:
  assumes "configure_budget P L a ss state = Inr state'"
  obtains g where "bt_get (ls_budgets state) (budget_key P (al_budget_scope a) (al_venue a) (al_output_name a)) = None"
    "state' = state\<lparr>ls_budgets := bt_insert (budget_key P (al_budget_scope a) (al_venue a) (al_output_name a))
       \<lparr>br_allocation = a, br_allocation_signatures = stored_signatures P ss, br_spent_micros = 0, br_last_epoch = 0,
        br_latest = None\<rparr> (ls_budgets state), ls_generation := g\<rparr>"
  using assms
  by (auto simp: configure_budget_def and_then_eq_Inr Let_def read_state_def bt_contains_def split: if_splits)

section \<open>Quorums\<close>

definition endorsers :: "pub_prims \<Rightarrow> registry \<Rightarrow> bytes \<Rightarrow> node_signature list \<Rightarrow> string set" where
  "endorsers P reg body ss = {n. \<exists>s \<in> set ss. ns_node_id s = n
     \<and> (\<exists>key. bt_get reg n = Some key \<and> hybrid_verify P key body (ns_signature s))}"

lemma finite_endorsers: "finite (endorsers P reg body ss)"
  by (rule finite_subset[of _ "ns_node_id ` set ss"]) (auto simp: endorsers_def)

lemma valid_count_endorsers: "valid_count P reg body seen ss \<le> card (endorsers P reg body ss - seen)"
proof (induction ss arbitrary: seen)
  case (Cons s ss)
  let ?n = "ns_node_id s" and ?E = "endorsers P reg body (s # ss) - seen"
  let ?ok = "?n \<notin> seen \<and> (case bt_get reg ?n of Some key \<Rightarrow> hybrid_verify P key body (ns_signature s) | None \<Rightarrow> False)"
  have fin: "finite ?E" using finite_endorsers by simp
  have rest: "valid_count P reg body (insert ?n seen) ss \<le> card (endorsers P reg body ss - insert ?n seen)" by (rule Cons.IH)
  show ?case
  proof (cases ?ok)
    case True
    then have "?n \<in> ?E" by (auto simp: endorsers_def split: option.splits)
    moreover have "card (endorsers P reg body ss - insert ?n seen) \<le> card (?E - {?n})"
      by (rule card_mono) (use fin in \<open>auto simp: endorsers_def\<close>)
    ultimately have "card (endorsers P reg body ss - insert ?n seen) < card ?E"
      using card_Diff1_less[OF fin] by fastforce
    then show ?thesis using rest True by simp
  next
    case False
    have "card (endorsers P reg body ss - insert ?n seen) \<le> card ?E"
      by (rule card_mono) (use fin in \<open>auto simp: endorsers_def\<close>)
    then show ?thesis using rest False unfolding valid_count.simps if_not_P[OF False] by linarith
  qed
qed simp

definition certified :: "pub_prims \<Rightarrow> ledger \<Rightarrow> certificate \<Rightarrow> bool" where
  "certified P L c \<longleftrightarrow> (\<exists>body. statement_body P (ct_statement c) = Inr body
     \<and> publication_threshold L \<le> card (endorsers P (publication_registry L) body (ct_signatures c)))"

lemma verify_certified:
  assumes "verify_certificate P c (publication_registry L) (publication_threshold L) previous"
  shows "certified P L c" and "follows P (ct_statement c) previous"
proof -
  obtain body where "statement_body P (ct_statement c) = Inr body"
    "publication_threshold L \<le> valid_count P (publication_registry L) body {} (ct_signatures c)"
    and f: "follows P (ct_statement c) previous"
    using assms by (auto simp: verify_certificate_def split: if_splits sum.splits)
  then show "certified P L c" using valid_count_endorsers[of P "publication_registry L" body "{}" "ct_signatures c"]
    unfolding certified_def by fastforce
  show "follows P (ct_statement c) previous" by (rule f)
qed

section \<open>Chains\<close>

definition linked :: "pub_prims \<Rightarrow> certificate option \<Rightarrow> certificate \<Rightarrow> bool" where
  "linked P p c = (case p of
      None \<Rightarrow> st_previous_certificate (ct_statement c) = ZERO \<and> st_budget_before_micros (ct_statement c) = 0
    | Some p \<Rightarrow> certificate_digest P p = Inr (st_previous_certificate (ct_statement c))
        \<and> st_epoch (ct_statement p) < st_epoch (ct_statement c)
        \<and> st_budget_before_micros (ct_statement c) = st_budget_after_micros (ct_statement p)
        \<and> st_budget_total_micros (ct_statement c) = st_budget_total_micros (ct_statement p))"

fun chained :: "pub_prims \<Rightarrow> certificate option \<Rightarrow> certificate list \<Rightarrow> bool" where
  "chained P p [] \<longleftrightarrow> True"
| "chained P p (c # cs) \<longleftrightarrow> linked P p c \<and> chained P (Some c) cs"

lemma chained_snoc: "chained P p (cs @ [c]) \<longleftrightarrow> chained P p cs \<and> linked P (if cs = [] then p else Some (last cs)) c"
  by (induction cs arbitrary: p) auto

definition hex_law :: "pub_prims \<Rightarrow> bool" where
  "hex_law P \<longleftrightarrow> (\<forall>b. hex_decode P (hex_encode P b) = Some b)"

lemma load_signatures_stored:
  "hex_law P \<Longrightarrow> try_map (load_signature P) (stored_signatures P ss) = Inr ss' \<Longrightarrow> ss' = ss"
proof (induction ss arbitrary: ss')
  case (Cons s ss)
  have ss: "stored_signatures P (s # ss)
      = \<lparr>ss_node_id = ns_node_id s, ss_signature = hex_encode P (ns_signature s)\<rparr> # stored_signatures P ss"
    by (simp add: stored_signatures_def)
  show ?case
    using Cons by (auto simp: ss and_then_eq_Inr load_signature_def hex_law_def split: if_splits)
qed (simp add: stored_signatures_def)

lemma load_stored: "hex_law P \<Longrightarrow> load_certificate P (from_certificate P c) = Inr c' \<Longrightarrow> c' = c"
  by (auto simp: load_certificate_def from_certificate_def and_then_eq_Inr dest!: load_signatures_stored)

section \<open>The invariant\<close>

definition record_ok :: "pub_prims \<Rightarrow> certificate list \<Rightarrow> string \<Rightarrow> budget_record \<Rightarrow> bool" where
  "record_ok P h k b \<longleftrightarrow>
     (let cs = issued P k h in
       unat (br_spent_micros b) = spent_by cs \<and> br_spent_micros b \<le> al_total_micros (br_allocation b) \<and> chained P None cs
       \<and> (if cs = [] then br_spent_micros b = 0 \<and> br_latest b = None
          else br_spent_micros b = st_budget_after_micros (ct_statement (last cs)) \<and> br_latest b = Some (from_certificate P (last cs))))"

definition ledger_inv :: "pub_prims \<Rightarrow> ledger \<Rightarrow> run_state \<Rightarrow> bool" where
  "ledger_inv P L = (\<lambda>(s, h). bt_wf (ls_budgets s) \<and> (\<forall>(k, b) \<in> set (ls_budgets s). record_ok P h k b)
     \<and> (\<forall>c \<in> set h. bt_contains (ls_budgets s) (cert_key P c) \<and> certified P L c
           \<and> bt_contains (ls_operations s) (hex_encode P (st_operation_id (ct_statement c))))
     \<and> distinct (map (\<lambda>c. hex_encode P (st_operation_id (ct_statement c))) h))"

lemma issued_snoc: "issued P k (h @ [c]) = issued P k h @ (if cert_key P c = k then [c] else [])"
  by (simp add: issued_def)

lemma record_ok_other: "cert_key P c \<noteq> k \<Longrightarrow> record_ok P (h @ [c]) k b = record_ok P h k b"
  by (simp add: record_ok_def issued_snoc)

lemma configure_inv:
  assumes "ledger_inv P L (s, h)" and "configure_budget P L a ss s = Inr s'"
  shows "ledger_inv P L (s', h)"
  using assms(2)
proof (rule configureE)
  fix g
  let ?k = "budget_key P (al_budget_scope a) (al_venue a) (al_output_name a)"
  let ?b = "\<lparr>br_allocation = a, br_allocation_signatures = stored_signatures P ss, br_spent_micros = 0, br_last_epoch = 0,
        br_latest = None\<rparr>"
  assume new: "bt_get (ls_budgets s) ?k = None" and s': "s' = s\<lparr>ls_budgets := bt_insert ?k ?b (ls_budgets s), ls_generation := g\<rparr>"
  have inv: "bt_wf (ls_budgets s)" "\<forall>(k, b) \<in> set (ls_budgets s). record_ok P h k b"
    "\<forall>c \<in> set h. bt_contains (ls_budgets s) (cert_key P c)"
    using assms(1) by (simp_all add: ledger_inv_def)
  have "issued P ?k h = []" using inv(3) new by (auto simp: issued_def filter_empty_conv bt_contains_def)
  then have "record_ok P h ?k ?b" by (simp add: record_ok_def spent_by_def)
  then have "\<forall>(k, b) \<in> set (ls_budgets s'). record_ok P h k b"
    unfolding s' using bt_all_insertI[OF inv(1)] inv(2) by simp
  then show ?thesis using assms(1) by (auto simp: ledger_inv_def s' bt_contains_def)
qed

lemma publish_links:
  assumes "hex_law P" and "record_ok P h k b" and "load_latest P (br_latest b) = Inr previous" and "previous_digest P previous = Inr pd"
    and "ct_statement c = make_statement P q m b after delta pd" and "follows P (ct_statement c) previous"
  shows "linked P (if issued P k h = [] then None else Some (last (issued P k h))) c"
proof (cases "issued P k h = []")
  case True
  then have "br_spent_micros b = 0" "previous = None" using assms(2,3) by (auto simp: record_ok_def load_latest_def)
  then show ?thesis using assms(4,5) True by (simp add: linked_def previous_digest_def)
next
  case False
  let ?p = "last (issued P k h)"
  have "br_latest b = Some (from_certificate P ?p)" using False assms(2) by (simp add: record_ok_def Let_def)
  then obtain c' where "load_certificate P (from_certificate P ?p) = Inr c'" "previous = Some c'"
    using assms(3) by (auto simp: load_latest_def and_then_eq_Inr)
  then have "previous = Some ?p" using load_stored[OF assms(1)] by simp
  then show ?thesis using assms(6) False by (auto simp: linked_def follows_def not_le)
qed

lemma spent_by_snoc: "spent_by (cs @ [c]) = spent_by cs + unat (st_epsilon_micros (ct_statement c))"
  by (simp add: spent_by_def)

lemma publish_record:
  assumes "hex_law P" and "record_ok P h k b" and "load_latest P (br_latest b) = Inr previous" and "previous_digest P previous = Inr pd"
    and "ct_statement c = make_statement P q m b after delta pd" and "follows P (ct_statement c) previous"
    and "checked_add (br_spent_micros b) (epsilon_micros m) = Some after" and "after \<le> al_total_micros (br_allocation b)"
    and "cert_key P c = k"
  shows "record_ok P (h @ [c]) k (b\<lparr>br_spent_micros := after, br_last_epoch := e, br_latest := Some (from_certificate P c)\<rparr>)"
proof -
  have cs: "issued P k (h @ [c]) = issued P k h @ [c]" by (simp add: issued_snoc assms(9))
  have "chained P None (issued P k h)" using assms(2) by (simp add: record_ok_def Let_def)
  then have "chained P None (issued P k h @ [c])" using publish_links[OF assms(1-6)] by (simp add: chained_snoc)
  moreover have "unat after = unat (br_spent_micros b) + unat (epsilon_micros m)" using assms(7) by (rule unat_checked_add)
  moreover have "unat (br_spent_micros b) = spent_by (issued P k h)" using assms(2) by (simp add: record_ok_def Let_def)
  ultimately show ?thesis using assms(8) by (simp add: record_ok_def cs spent_by_snoc assms(5))
qed

lemma publish_inv:
  assumes "hex_law P" and "ledger_inv P L (s, h)" and "publish_with P L q m sign s = Inr (c, s')"
  shows "ledger_inv P L (s', h @ [c])"
  using assms(3)
proof (rule publishE)
  fix b :: budget_record and after previous pd delta g d
  let ?k = "budget_key P (rq_budget_scope q) (rq_venue q) (rq_output_name q)" and ?o = "hex_encode P (rq_operation_id q)"
  let ?b = "b\<lparr>br_spent_micros := after, br_last_epoch := rq_epoch q, br_latest := Some (from_certificate P c)\<rparr>"
  assume fresh: "\<not> bt_contains (ls_operations s) ?o" and b: "bt_get (ls_budgets s) ?k = Some b"
    and add: "checked_add (br_spent_micros b) (epsilon_micros m) = Some after" and le: "after \<le> al_total_micros (br_allocation b)"
    and prev: "load_latest P (br_latest b) = Inr previous" "previous_digest P previous = Inr pd"
    and st: "ct_statement c = make_statement P q m b after delta pd"
    and ver: "verify_certificate P c (publication_registry L) (publication_threshold L) previous"
    and s': "s' = s\<lparr>ls_budgets := bt_insert ?k ?b (ls_budgets s), ls_operations := bt_insert ?o (hex_encode P d) (ls_operations s),
      ls_generation := g\<rparr>"
  have inv: "bt_wf (ls_budgets s)" "\<forall>(k, b) \<in> set (ls_budgets s). record_ok P h k b"
    "\<forall>c \<in> set h. bt_contains (ls_budgets s) (cert_key P c) \<and> certified P L c
       \<and> bt_contains (ls_operations s) (hex_encode P (st_operation_id (ct_statement c)))"
    "distinct (map (\<lambda>c. hex_encode P (st_operation_id (ct_statement c))) h)"
    using assms(2) by (simp_all add: ledger_inv_def)
  have key: "cert_key P c = ?k" using st by (rule made_key)
  have old: "record_ok P h ?k b" using bt_get_Some_in[OF b] inv(2) by auto
  have rec: "record_ok P (h @ [c]) ?k ?b"
    by (rule publish_record[OF assms(1) old prev st verify_certified(2)[OF ver] add le key])
  have "record_ok P (h @ [c]) k' b'" if "(k', b') \<in> set (ls_budgets s)" "k' \<noteq> ?k" for k' b'
    using that inv(2) by (auto simp: record_ok_other key)
  then have 1: "\<forall>(k, b) \<in> set (ls_budgets s'). record_ok P (h @ [c]) k b" using rec by (auto simp: s' bt_all_insert[OF inv(1)])
  have 2: "\<forall>c' \<in> set (h @ [c]). bt_contains (ls_budgets s') (cert_key P c') \<and> certified P L c'
     \<and> bt_contains (ls_operations s') (hex_encode P (st_operation_id (ct_statement c')))"
    using inv(3) verify_certified(1)[OF ver] by (auto simp: s' bt_contains_def key st)
  have "?o \<notin> set (map (\<lambda>c. hex_encode P (st_operation_id (ct_statement c))) h)" using inv(3) fresh by auto
  then show ?thesis using 1 2 inv(1,4) by (simp add: ledger_inv_def s' st)
qed

lemma empty_inv: "ledger_inv P L (empty_state, [])"
  by (simp add: ledger_inv_def empty_state_def)

lemma ledger_step_inv: "hex_law P \<Longrightarrow> ledger_inv P L s \<Longrightarrow> ledger_step P L x s = Inr t \<Longrightarrow> ledger_inv P L t"
  by (cases x; cases s) (auto simp: and_then_eq_Inr intro: configure_inv publish_inv)

interpretation publications: guarded_machine "ledger_step P L" "\<lambda>s. hex_law P \<and> ledger_inv P L s"
  by unfold_locales (auto intro: ledger_step_inv)

section \<open>The sampler\<close>

lemma endpoints_loop_sorted:
  "endpoints_loop acc cs = Inr es \<Longrightarrow> sorted_wrt (<) acc \<Longrightarrow>
     sorted_wrt (<) es \<and> length es = length acc + length cs \<and> (cs \<noteq> [] \<longrightarrow> last es = U64_SPACE)"
proof (induction acc cs rule: endpoints_loop.induct)
  case (2 acc c cs)
  let ?e = "if cs = [] then U64_SPACE else c"
  have ok: "\<not> (acc \<noteq> [] \<and> ?e \<le> last acc)" and rest: "endpoints_loop (acc @ [?e]) cs = Inr es"
    using 2(2) by (auto simp: Let_def simp del: endpoints_loop.simps(1) split: if_split_asm)
  have "x < ?e" if "x \<in> set acc" for x
  proof -
    have "acc \<noteq> []" using that by auto
    then have "x \<le> last acc" using 2(3) that by (induction acc) (auto simp: less_imp_le split: if_splits)
    then show ?thesis using ok \<open>acc \<noteq> []\<close> by linarith
  qed
  then have sorted: "sorted_wrt (<) (acc @ [?e])" using 2(3) by (simp add: sorted_wrt_append)
  have "sorted_wrt (<) es \<and> length es = length (acc @ [?e]) + length cs \<and> (cs \<noteq> [] \<longrightarrow> last es = U64_SPACE)"
    using 2(1)[OF refl ok rest sorted] .
  then show ?case using rest by (cases cs) auto
qed simp

lemma takeWhile_count:
  "sorted_wrt (<) ts \<Longrightarrow> int (length (takeWhile (\<lambda>t. t \<le> u) ts)) = sum_list (map (\<lambda>t. if t \<le> (u :: nat) then 1 else 0) ts)"
proof (induction ts)
  case (Cons t ts)
  have "sum_list (map (\<lambda>t. if t \<le> u then 1 else 0) ts) = (0 :: int)" if "\<not> t \<le> u"
  proof -
    have "map (\<lambda>t. if t \<le> u then 1 else 0) ts = map (\<lambda>_. 0 :: int) ts" using Cons.prems that by auto
    then show ?thesis by (simp only: sum_list_0)
  qed
  then show ?case using Cons by auto
qed simp

lemma takeWhile_snoc: "\<not> p x \<Longrightarrow> takeWhile p (xs @ [x]) = takeWhile p xs"
  by (induction xs) auto

lemma takeWhile_index:
  assumes "sorted_wrt (<) ts" and "k < length ts"
  shows "length (takeWhile (\<lambda>t. t \<le> u) ts) = k \<longleftrightarrow> (k = 0 \<or> ts ! (k - 1) \<le> u) \<and> (u :: nat) < ts ! k"
  using assms
proof (induction ts arbitrary: k)
  case (Cons t ts)
  show ?case
  proof (cases k)
    case 0
    then show ?thesis by simp
  next
    case (Suc j)
    have "t < ts ! j" "t < ts ! (j - 1)" using Cons.prems Suc by simp_all
    then have "t \<le> u" if "ts ! (j - 1) \<le> u" using that by linarith
    then show ?thesis using Cons.IH[of j] Cons.prems Suc by (cases j) auto
  qed
qed simp

lemma card_words_between:
  assumes "b \<le> 2 ^ 64"
  shows "card {u :: u64. a \<le> unat u \<and> unat u < b} = b - a"
proof -
  have "bij_betw unat {u :: u64. a \<le> unat u \<and> unat u < b} {a ..< b}"
    by (rule bij_betw_byWitness[where f' = word_of_nat]) (use assms in \<open>auto simp: unat_of_nat take_bit_nat_eq_self\<close>)
  then show ?thesis using bij_betw_same_card by fastforce
qed

end
