(* ===== verification/Publication_Properties.thy ===== *)
theory Publication_Properties
  imports Publication_Safety
begin

text \<open>
  The properties of the publication ledger and of the noise sampler.
\<close>

definition after_run :: "pub_prims \<Rightarrow> ledger \<Rightarrow> ledger_op list \<Rightarrow> run_state" where
  "after_run P L xs = run_ops (ledger_step P L) xs (empty_state, [])"

lemma after_run_inv: "hex_law P \<Longrightarrow> ledger_inv P L (after_run P L xs)"
  using publications.run_inv[of P L "(empty_state, [])" xs] by (simp add: after_run_def empty_inv)

section \<open>A small ledger\<close>

definition demo_prims :: pub_prims where
  "demo_prims = \<lparr>sha = (\<lambda>_. []), json_statement = (\<lambda>_. []), json_allocation = (\<lambda>_. []),
     hex_encode = map (\<lambda>b. char_of (unat b)), hex_decode = (\<lambda>s. Some (ascii s)), hybrid_verify = (\<lambda>_ _ _. True),
     scaled_cdf = (\<lambda>_. [4, 9, 20]), certificate_delta = (\<lambda>_. Inr (1, 4)), delta_below = (\<lambda>_ _ _. Inr False)\<rparr>"

lemma unat_mod_byte: "word_of_nat (unat b mod 256) = (b :: u8)"
  using unat_bound[of b] by simp

lemma demo_hex_law: "hex_law demo_prims"
proof -
  have "ascii (map (\<lambda>b. char_of (unat b)) bs) = bs" for bs :: bytes
    by (induction bs) (simp_all add: unat_mod_byte)
  then show ?thesis by (simp add: hex_law_def demo_prims_def)
qed

definition demo_ledger :: ledger where
  "demo_ledger = \<lparr>publication_registry = [(''n'', replicate 1984 1)], publication_threshold = 1,
     governance_registry = [(''g'', replicate 1984 2)], governance_threshold = 1\<rparr>"

definition demo_allocation :: allocation where
  "demo_allocation = \<lparr>al_budget_scope = [1], al_venue = ''v'', al_output_name = ''o'', al_total_micros = 10, al_policy_version = 1\<rparr>"

definition demo_request :: "u8 \<Rightarrow> u64 \<Rightarrow> request" where
  "demo_request i e = \<lparr>rq_operation_id = [i], rq_budget_scope = [1], rq_venue = ''v'', rq_epoch = e, rq_slot_start = 1, rq_slot_end = 2,
     rq_source_digest = [2], rq_rule_digest = [3], rq_private_input_commitment = [4], rq_transcript_digest = [5],
     rq_output_name = ''o'', rq_output_value = 8\<rparr>"

definition demo_mechanism :: dp_mechanism where
  "demo_mechanism = \<lparr>epsilon_micros = 3, sensitivity = 1, support = 1, mech_version = ''v''\<rparr>"

definition demo_signatures :: "node_signature list" where
  "demo_signatures = [\<lparr>ns_node_id = ''n'', ns_signature = replicate 3373 0\<rparr>]"

definition demo_ops :: "ledger_op list" where
  "demo_ops = [Configure demo_allocation [\<lparr>ns_node_id = ''g'', ns_signature = []\<rparr>],
     Publish (demo_request 6 1) demo_mechanism (\<lambda>_. Inr demo_signatures),
     Publish (demo_request 7 2) demo_mechanism (\<lambda>_. Inr demo_signatures)]"

lemma demo_registries:
  "independent_registry (publication_registry demo_ledger)" "independent_registry (governance_registry demo_ledger)"
  by (simp_all add: independent_registry_def demo_ledger_def)

definition demo_state :: ledger_state where
  "demo_state = \<lparr>ls_version = 1, ls_generation = 1,
     ls_budgets = [([], \<lparr>br_allocation = demo_allocation, br_allocation_signatures = [\<lparr>ss_node_id = ''g'', ss_signature = []\<rparr>],
        br_spent_micros = 0, br_last_epoch = 0, br_latest = None\<rparr>)], ls_operations = []\<rparr>"

lemma not_ZERO [simp]: "[x] \<noteq> ZERO" "ZERO \<noteq> [x]" "[] \<noteq> ZERO" "ZERO \<noteq> []"
  by (auto simp: ZERO_def dest!: arg_cong[where f = length])

lemma demo_configured:
  "configure_budget demo_prims demo_ledger demo_allocation [\<lparr>ns_node_id = ''g'', ns_signature = []\<rparr>] empty_state = Inr demo_state"
  by (simp add: configure_budget_def allocation_body_def demo_allocation_def blank_def is_space_def verify_signatures_def
      demo_registries read_state_def empty_state_def STATE_VERSION_def budget_key_def demo_prims_def bt_contains_def
      next_generation_def checked_add_def stored_signatures_def demo_state_def Let_def)
    (simp add: demo_ledger_def)

definition demo_statement :: "u8 \<Rightarrow> u64 \<Rightarrow> u64 \<Rightarrow> bytes \<Rightarrow> statement" where
  "demo_statement i e spent previous =
     \<lparr>st_operation_id = [i], st_budget_scope = [1], st_venue = ''v'', st_epoch = e, st_slot_start = 1, st_slot_end = 2,
      st_source_digest = [2], st_rule_digest = [3], st_mechanism_digest = [], st_private_input_commitment = [4],
      st_transcript_digest = [5], st_output_name = ''o'', st_output_value = 8, st_epsilon_micros = 3, st_delta_numerator = 1,
      st_delta_denominator = 4, st_budget_total_micros = 10, st_budget_before_micros = spent, st_budget_after_micros = spent + 3,
      st_previous_certificate = previous\<rparr>"

lemma demo_make:
  "br_allocation b = demo_allocation \<Longrightarrow>
   make_statement demo_prims (demo_request i e) demo_mechanism b (br_spent_micros b + 3) (1, 4) previous
     = demo_statement i e (br_spent_micros b) previous"
  by (simp add: make_statement_def demo_statement_def demo_request_def demo_mechanism_def mechanism_digest_def demo_prims_def
      demo_allocation_def)

lemma demo_valid: "spent = 0 \<or> spent = 3 \<Longrightarrow> validate (demo_statement i e spent previous) = Inr ()"
  by (auto simp: validate_def demo_statement_def word_le_nat_alt word_less_nat_alt)

definition demo_certificate :: "u8 \<Rightarrow> u64 \<Rightarrow> u64 \<Rightarrow> bytes \<Rightarrow> certificate" where
  "demo_certificate i e spent previous = \<lparr>ct_statement = demo_statement i e spent previous, ct_signatures = demo_signatures\<rparr>"

lemma demo_digest: "spent = 0 \<or> spent = 3 \<Longrightarrow> certificate_digest demo_prims (demo_certificate i e spent previous) = Inr []"
  by (simp add: certificate_digest_def statement_body_def demo_certificate_def demo_valid) (simp add: demo_prims_def)

lemma demo_load: "load_latest demo_prims (Some (from_certificate demo_prims c)) = Inr (Some c)"
  if "ct_signatures c = demo_signatures"
proof -
  have "hex_decode demo_prims (hex_encode demo_prims b) = Some b" for b using demo_hex_law by (simp add: hex_law_def)
  then show ?thesis
    using that by (simp add: load_latest_def load_certificate_def from_certificate_def stored_signatures_def demo_signatures_def
        load_signature_def)
qed

lemma demo_publishes:
  assumes "spent = 0 \<or> spent = 3" and "e0 < e" and "load_latest demo_prims latest = Inr previous"
    and "previous_digest demo_prims previous = Inr pd" and "follows demo_prims (demo_statement i e spent pd) previous"
    and "\<not> bt_contains ops (hex_encode demo_prims [i])" and "unat g < 100"
  shows "publish_with demo_prims demo_ledger (demo_request i e) demo_mechanism (\<lambda>_. Inr demo_signatures)
      \<lparr>ls_version = 1, ls_generation = g, ls_budgets = [([], \<lparr>br_allocation = demo_allocation, br_allocation_signatures = sigs,
        br_spent_micros = spent, br_last_epoch = e0, br_latest = latest\<rparr>)], ls_operations = ops\<rparr>
    = Inr (demo_certificate i e spent pd,
       \<lparr>ls_version = 1, ls_generation = g + 1, ls_budgets = [([], \<lparr>br_allocation = demo_allocation, br_allocation_signatures = sigs,
        br_spent_micros = spent + 3, br_last_epoch = e, br_latest = Some (from_certificate demo_prims (demo_certificate i e spent pd))\<rparr>)],
        ls_operations = bt_insert (hex_encode demo_prims [i]) [] ops\<rparr>)"
proof -
  let ?b = "\<lparr>br_allocation = demo_allocation, br_allocation_signatures = sigs, br_spent_micros = spent, br_last_epoch = e0,
    br_latest = latest\<rparr>"
  have key: "budget_key demo_prims x y z = []" "hex_encode demo_prims [] = []" for x y z by (simp_all add: budget_key_def demo_prims_def)
  have rq: "rq_operation_id (demo_request i e) = [i]" "rq_venue (demo_request i e) = ''v''" "rq_output_name (demo_request i e) = ''o''"
    "rq_epoch (demo_request i e) = e" by (simp_all add: demo_request_def)
  have al: "al_venue demo_allocation = ''v''" "al_output_name demo_allocation = ''o''" "al_total_micros demo_allocation = 10"
    by (simp_all add: demo_allocation_def)
  have eps: "epsilon_micros demo_mechanism = 3" by (simp add: demo_mechanism_def)
  have add: "checked_add spent 3 = Some (spent + 3)" "spent + 3 \<le> 10" using assms(1) by (auto simp: checked_add_def)
  have gen: "next_generation g = Inr (g + 1)" using assms(7) by (simp add: next_generation_def checked_add_def)
  have make: "make_statement demo_prims (demo_request i e) demo_mechanism ?b (spent + 3) (1, 4) pd = demo_statement i e spent pd"
    using demo_make[of ?b i e pd] by simp
  have against: "validate_against demo_prims (demo_statement i e spent pd) demo_mechanism = Inr ()"
    by (simp add: validate_against_def demo_valid[OF assms(1)])
      (simp add: demo_statement_def mechanism_digest_def demo_mechanism_def demo_prims_def)
  have verify: "verify_certificate demo_prims (demo_certificate i e spent pd) (publication_registry demo_ledger)
      (publication_threshold demo_ledger) previous"
    using assms(5) by (simp add: verify_certificate_def demo_registries demo_certificate_def demo_valid[OF assms(1)] statement_body_def)
      (simp add: demo_ledger_def demo_signatures_def demo_prims_def)
  have delta: "certificate_delta demo_prims demo_mechanism = Inr (1, 4)" by (simp add: demo_prims_def)
  show ?thesis
    using assms(2,3,4,6) verify add
    by (simp add: publish_with_def rq read_state_def STATE_VERSION_def key al eps delta make against demo_certificate_def[symmetric]
        commit_certificate_def demo_digest[OF assms(1)] gen Let_def not_less)
      (simp add: demo_certificate_def demo_statement_def)
qed

definition demo_final :: ledger_state where
  "demo_final = \<lparr>ls_version = 1, ls_generation = 3, ls_budgets = [([], \<lparr>br_allocation = demo_allocation,
     br_allocation_signatures = [\<lparr>ss_node_id = ''g'', ss_signature = []\<rparr>], br_spent_micros = 6, br_last_epoch = 2,
     br_latest = Some (from_certificate demo_prims (demo_certificate 7 2 3 []))\<rparr>)],
     ls_operations = bt_insert (hex_encode demo_prims [7]) [] [(hex_encode demo_prims [6], [])]\<rparr>"

lemma demo_run:
  "after_run demo_prims demo_ledger demo_ops = (demo_final, [demo_certificate 6 1 0 ZERO, demo_certificate 7 2 3 []])"
proof -
  let ?c = "demo_certificate 6 1 0 ZERO"
  have first: "publish_with demo_prims demo_ledger (demo_request 6 1) demo_mechanism (\<lambda>_. Inr demo_signatures) demo_state
      = Inr (?c, \<lparr>ls_version = 1, ls_generation = 2, ls_budgets = [([], \<lparr>br_allocation = demo_allocation,
        br_allocation_signatures = [\<lparr>ss_node_id = ''g'', ss_signature = []\<rparr>], br_spent_micros = 3, br_last_epoch = 1,
        br_latest = Some (from_certificate demo_prims ?c)\<rparr>)], ls_operations = [(hex_encode demo_prims [6], [])]\<rparr>)"
    unfolding demo_state_def
    by (subst demo_publishes[where previous = None and pd = ZERO])
      (simp_all add: load_latest_def previous_digest_def follows_def demo_statement_def bt_contains_def)
  have load: "load_latest demo_prims (Some (from_certificate demo_prims ?c)) = Inr (Some ?c)"
    by (rule demo_load) (simp add: demo_certificate_def)
  have digest: "certificate_digest demo_prims ?c = Inr []" by (rule demo_digest) simp
  have follow: "follows demo_prims (demo_statement 7 2 3 []) (Some ?c)"
    unfolding follows_def option.case digest by (simp add: demo_certificate_def demo_statement_def word_le_nat_alt word_less_nat_alt)
  have fresh: "\<not> bt_contains [(hex_encode demo_prims [6], [])] (hex_encode demo_prims [7])"
    by (simp add: bt_contains_def demo_prims_def)
  have second: "publish_with demo_prims demo_ledger (demo_request 7 2) demo_mechanism (\<lambda>_. Inr demo_signatures)
      \<lparr>ls_version = 1, ls_generation = 2, ls_budgets = [([], \<lparr>br_allocation = demo_allocation,
        br_allocation_signatures = [\<lparr>ss_node_id = ''g'', ss_signature = []\<rparr>], br_spent_micros = 3, br_last_epoch = 1,
        br_latest = Some (from_certificate demo_prims ?c)\<rparr>)], ls_operations = [(hex_encode demo_prims [6], [])]\<rparr>
      = Inr (demo_certificate 7 2 3 [], demo_final)"
    by (subst demo_publishes[OF _ _ load _ follow fresh]) (simp_all add: previous_digest_def digest demo_final_def)
  show ?thesis
    by (simp add: after_run_def demo_ops_def step_or_stay_def demo_configured first second)
qed

text \<open>C34: Budgets are never exceeded. After any sequence of allocations and publications, what a budget record has spent is
  the sum of the epsilons of all certificates ever issued under its key and at most its allocated total; every
  certificate was issued under a configured budget.\<close>

theorem budget_never_exceeded:
  assumes "hex_law P" and "after_run P L xs = (s, h)"
  shows "(\<forall>k b. bt_get (ls_budgets s) k = Some b \<longrightarrow> unat (br_spent_micros b) = spent_by (issued P k h)
       \<and> spent_by (issued P k h) \<le> unat (al_total_micros (br_allocation b)))
    \<and> (\<forall>c \<in> set h. bt_contains (ls_budgets s) (cert_key P c))"
proof -
  have inv: "ledger_inv P L (s, h)" using after_run_inv[OF assms(1), of L xs] assms(2) by simp
  then have ok: "\<forall>(k, b) \<in> set (ls_budgets s). record_ok P h k b" by (simp add: ledger_inv_def)
  have "unat (br_spent_micros b) = spent_by (issued P k h) \<and> spent_by (issued P k h) \<le> unat (al_total_micros (br_allocation b))"
    if "bt_get (ls_budgets s) k = Some b" for k b
    using bt_get_Some_in[OF that] ok by (auto simp: record_ok_def Let_def word_le_nat_alt)
  then show ?thesis using inv by (auto simp: ledger_inv_def)
qed

theorem budget_never_exceeded_witness:
  "spent_by (issued demo_prims [] [demo_certificate 6 1 0 ZERO, demo_certificate 7 2 3 []]) \<le> 10"
proof -
  have "bt_get (ls_budgets demo_final) [] = Some \<lparr>br_allocation = demo_allocation,
     br_allocation_signatures = [\<lparr>ss_node_id = ''g'', ss_signature = []\<rparr>], br_spent_micros = 6, br_last_epoch = 2,
     br_latest = Some (from_certificate demo_prims (demo_certificate 7 2 3 []))\<rparr>"
    by (simp add: demo_final_def)
  then show ?thesis using budget_never_exceeded[OF demo_hex_law demo_run] by (fastforce simp: demo_allocation_def)
qed

text \<open>C35: Publications form a chain. After any sequence of requests no operation identifier was published twice, every
  certificate carries verifying signatures of at least the threshold of different registered nodes, and the certificates
  under one key form a chain: the first starts at an empty budget, each later one names the digest of its predecessor,
  has a later epoch and starts at the budget where the predecessor ended.\<close>

theorem publications_chained:
  assumes "hex_law P" and "after_run P L xs = (s, h)"
  shows "distinct (map (\<lambda>c. st_operation_id (ct_statement c)) h) \<and> (\<forall>c \<in> set h. certified P L c)
    \<and> (\<forall>k. chained P None (issued P k h))"
proof -
  have inv: "ledger_inv P L (s, h)" using after_run_inv[OF assms(1), of L xs] assms(2) by simp
  have "chained P None (issued P k h)" for k
  proof (cases "bt_get (ls_budgets s) k")
    case (Some b)
    then show ?thesis using inv bt_get_Some_in[OF Some] by (auto simp: ledger_inv_def record_ok_def Let_def)
  next
    case None
    then have "issued P k h = []" using inv by (auto simp: ledger_inv_def issued_def filter_empty_conv bt_contains_def)
    then show ?thesis by simp
  qed
  moreover have "distinct (map (\<lambda>c. st_operation_id (ct_statement c)) h)"
    using inv by (auto simp: ledger_inv_def distinct_map inj_on_def)
  ultimately show ?thesis using inv by (auto simp: ledger_inv_def)
qed

theorem publications_chained_witness:
  "chained demo_prims None (issued demo_prims [] [demo_certificate 6 1 0 ZERO, demo_certificate 7 2 3 []])
    \<and> certified demo_prims demo_ledger (demo_certificate 7 2 3 [])"
  using publications_chained[OF demo_hex_law demo_run] by simp

text \<open>C36: The clear sampler and the generated circuit agree. Where the cell boundaries are accepted, for a distribution with a
  cell per value of the support, \<open>sample_u64\<close> returns on every 64-bit number the noise that the comparisons of the
  generated program sum to, a value within the support; and each value is returned for exactly as many numbers as its
  cell is wide.\<close>

theorem sampler_matches_circuit:
  assumes "thresholds P m = Inr es" and "length (scaled_cdf P m) = 2 * unat (support m) + 1"
  shows "(\<forall>u. sample_u64 P m u = Inr (circuit_noise m es (unat u)) \<and> \<bar>circuit_noise m es (unat u)\<bar> \<le> int (unat (support m)))
    \<and> (\<forall>k < length es. card {u. sample_u64 P m u = Inr (int k - int (unat (support m)))}
          = es ! k - (if k = 0 then 0 else es ! (k - 1)))"
proof -
  have es: "sorted_wrt (<) es" "length es = 2 * unat (support m) + 1" "last es = U64_SPACE" "es \<noteq> []"
    using endpoints_loop_sorted[OF assms(1)[unfolded thresholds_def]] assms(2) by auto
  obtain ts where ts: "es = ts @ [U64_SPACE]" using es(3,4) by (metis append_butlast_last_id)
  have below: "unat u < U64_SPACE" for u :: u64 using unsigned_less[of u] by (simp add: U64_SPACE_def)
  have count: "length (takeWhile (\<lambda>t. t \<le> unat u) es) = length (takeWhile (\<lambda>t. t \<le> unat u) ts)" for u :: u64
    using below[of u] by (simp add: ts takeWhile_snoc)
  have sample: "sample_u64 P m u = Inr (- int (unat (support m)) + int (length (takeWhile (\<lambda>t. t \<le> unat u) ts)))" for u
    by (simp add: sample_u64_def assms(1) partition_point_def count)
  have noise: "circuit_noise m es (unat u) = - int (unat (support m)) + int (length (takeWhile (\<lambda>t. t \<le> unat u) ts))" for u :: u64
    using takeWhile_count[of ts "unat u"] es(1) by (simp add: circuit_noise_def ts sorted_wrt_append)
  have bound: "length (takeWhile (\<lambda>t. t \<le> unat u) ts) \<le> 2 * unat (support m)" for u :: u64
    using length_takeWhile_le[of "\<lambda>t. t \<le> unat u" ts] es(2) by (simp add: ts)
  have "card {u. sample_u64 P m u = Inr (int k - int (unat (support m)))} = es ! k - (if k = 0 then 0 else es ! (k - 1))"
    if k: "k < length es" for k
  proof -
    have "es ! k \<le> 2 ^ 64"
    proof (cases "k = length es - 1")
      case False
      then have "es ! k < es ! (length es - 1)" using sorted_wrt_nth_less[OF es(1), of k "length es - 1"] k by simp
      then show ?thesis using es(3,4) by (simp add: last_conv_nth U64_SPACE_def)
    qed (use es(3,4) in \<open>simp add: last_conv_nth U64_SPACE_def\<close>)
    then have "card {u :: u64. (if k = 0 then 0 else es ! (k - 1)) \<le> unat u \<and> unat u < es ! k} = es ! k - (if k = 0 then 0 else es ! (k - 1))"
      by (rule card_words_between)
    moreover have "sample_u64 P m u = Inr (int k - int (unat (support m))) \<longleftrightarrow>
        (if k = 0 then 0 else es ! (k - 1)) \<le> unat u \<and> unat u < es ! k" for u
      using takeWhile_index[OF es(1) k, of "unat u"] by (auto simp: sample count[symmetric])
    ultimately show ?thesis by simp
  qed
  moreover have "\<bar>circuit_noise m es (unat u)\<bar> \<le> int (unat (support m))" for u :: u64
    unfolding noise using bound[of u] by linarith
  moreover have "sample_u64 P m u = Inr (circuit_noise m es (unat u))" for u unfolding noise by (rule sample)
  ultimately show ?thesis by blast
qed

theorem sampler_matches_circuit_witness:
  "thresholds demo_prims demo_mechanism = Inr [4, 9, U64_SPACE]
    \<and> card {u. sample_u64 demo_prims demo_mechanism u = Inr 0} = 5"
proof -
  have t: "thresholds demo_prims demo_mechanism = Inr [4, 9, U64_SPACE]"
    by (simp add: thresholds_def demo_prims_def U64_SPACE_def)
  have "length (scaled_cdf demo_prims demo_mechanism) = 2 * unat (support demo_mechanism) + 1"
    by (simp add: demo_prims_def demo_mechanism_def)
  then show ?thesis using sampler_matches_circuit[OF t] t by (auto simp: demo_mechanism_def dest!: spec[of _ "Suc 0"])
qed

section \<open>Where the ledger falls short\<close>

text \<open>A certificate may carry signatures beyond the quorum, of any length, but a stored signature loads only with 3373 bytes.
  Once a publication with another length is committed, every further publication under that budget is refused.\<close>

lemma load_signatures_fail: "s \<in> set ss \<Longrightarrow> load_signature P s = Inl e \<Longrightarrow> \<exists>e. try_map (load_signature P) ss = Inl e"
  by (induction ss) (auto simp: and_then_def split: sum.splits)

lemma odd_signature_blocks_budget:
  assumes "hex_law P" and "bt_get (ls_budgets s) (budget_key P (rq_budget_scope q) (rq_venue q) (rq_output_name q)) = Some b"
    and "br_latest b = Some (from_certificate P c)" and "g \<in> set (ct_signatures c)" and "length (ns_signature g) \<noteq> 3373"
  shows "\<exists>e. publish_with P L q m sign s = Inl e"
proof (rule ccontr)
  assume "\<not> ?thesis"
  then obtain c' s' where "publish_with P L q m sign s = Inr (c', s')" by (metis sum.exhaust surj_pair)
  then obtain previous where "load_latest P (br_latest b) = Inr previous" by (rule publishE) (use assms(2) in simp)
  moreover have "load_signature P \<lparr>ss_node_id = ns_node_id g, ss_signature = hex_encode P (ns_signature g)\<rparr>
      = Inl ''legacy publication requires an archived checkpoint and explicit PQ migration''"
    using assms(1,5) by (simp add: load_signature_def hex_law_def)
  then have "\<exists>e. try_map (load_signature P) (stored_signatures P (ct_signatures c)) = Inl e"
    by (rule load_signatures_fail[rotated]) (use assms(4) in \<open>auto simp: stored_signatures_def\<close>)
  ultimately show False using assms(3) by (auto simp: load_latest_def load_certificate_def from_certificate_def)
qed

text \<open>The check for cells of probability zero never looks at the first cell.\<close>

lemma first_cell_unchecked: "endpoints_loop [] [0, 5, 9] = Inr [0, 5, U64_SPACE]"
  by (simp add: U64_SPACE_def)

text \<open>The error of \<open>open_with_registries\<close> asks for separate registries; one registry in both roles is accepted.\<close>

lemma registries_may_coincide:
  "independent_registry r \<Longrightarrow> length r = 7 \<Longrightarrow> \<exists>L. open_ledger None r 3 = Inr (L, empty_state)
     \<and> publication_registry L = governance_registry L"
  by (auto simp: open_ledger_def open_with_registries_def)

end
