(* ===== verification/Frames.thy ===== *)
theory Frames
  imports Machines
begin

text \<open>
  The fixed-size frames of \<open>zkpi-committee/src/wire.rs\<close> and the additive shares that fill them: field elements of
  four 64-bit limbs, least significant first, with carry arithmetic modulo the order of the scalar field, the frame
  codec and its HMAC, sharing and reconstruction. The random source is a parameter \<open>fill\<close>, which returns the asked
  number of bytes and its next state; the hash \<open>sha\<close> is another.
\<close>

unbundle bit_operations_syntax

section \<open>Field elements\<close>

type_synonym field_element = "u64 list"

definition FIELD :: field_element where
  "FIELD = [0x5812631a5cf5d3ed, 0x14def9dea2f79cd6, 0, 0x1000000000000000]"

text \<open>The derived order compares from the most significant limb.\<close>

fun limbs_less :: "u64 list \<Rightarrow> u64 list \<Rightarrow> bool" where
  "limbs_less (x # xs) (y # ys) = (x < y \<or> x = y \<and> limbs_less xs ys)"
| "limbs_less _ _ = False"

definition field_less :: "field_element \<Rightarrow> field_element \<Rightarrow> bool" where
  "field_less a b = limbs_less (rev a) (rev b)"

definition field_zero :: field_element where
  "field_zero = [0, 0, 0, 0]"

definition from_u128 :: "128 word \<Rightarrow> field_element" where
  "from_u128 v = [ucast v, ucast (drop_bit 64 v), 0, 0]"

definition as_u128 :: "field_element \<Rightarrow> 128 word option" where
  "as_u128 a = (if a ! 2 = 0 \<and> a ! 3 = 0 then Some (ucast (a ! 0) OR push_bit 64 (ucast (a ! 1))) else None)"

datatype wire_error = PayloadSize | FrameSize nat | Header | NodeIndex | RequestSize | NodeCount | NotCanonical

definition field_from_be :: "bytes \<Rightarrow> wire_error + field_element" where
  "field_from_be bs =
     (let v = map (\<lambda>i. word_of_nat (from_be (take 8 (drop (24 - i * 8) bs)))) [0, 1, 2, 3]
      in if \<not> field_less v FIELD then Inl NotCanonical else Inr v)"

definition field_to_be :: "field_element \<Rightarrow> bytes" where
  "field_to_be a = concat (map u64_be (rev a))"

text \<open>The standard \<open>overflowing_add\<close> and \<open>overflowing_sub\<close>.\<close>

definition overflowing_add :: "u64 \<Rightarrow> u64 \<Rightarrow> u64 \<times> bool" where
  "overflowing_add x y = (x + y, 2 ^ 64 \<le> unat x + unat y)"

definition overflowing_sub :: "u64 \<Rightarrow> u64 \<Rightarrow> u64 \<times> bool" where
  "overflowing_sub x y = (x - y, unat x < unat y)"

fun add_raw :: "bool \<Rightarrow> u64 list \<Rightarrow> u64 list \<Rightarrow> u64 list \<times> bool" where
  "add_raw carry (x # xs) (y # ys) =
     (let (first, a) = overflowing_add x y;
          (second, b) = overflowing_add first (of_bool carry);
          (rest, out) = add_raw (a \<or> b) xs ys
      in (second # rest, out))"
| "add_raw carry _ _ = ([], carry)"

fun sub_raw :: "bool \<Rightarrow> u64 list \<Rightarrow> u64 list \<Rightarrow> u64 list \<times> bool" where
  "sub_raw borrow (x # xs) (y # ys) =
     (let (first, a) = overflowing_sub x y;
          (second, b) = overflowing_sub first (of_bool borrow);
          (rest, out) = sub_raw (a \<or> b) xs ys
      in (second # rest, out))"
| "sub_raw borrow _ _ = ([], borrow)"

definition add_mod :: "field_element \<Rightarrow> field_element \<Rightarrow> field_element" where
  "add_mod a b =
     (let sum = fst (add_raw False a b) in if \<not> field_less sum FIELD then fst (sub_raw False sum FIELD) else sum)"

definition sub_mod :: "field_element \<Rightarrow> field_element \<Rightarrow> field_element" where
  "sub_mod a b =
     (if \<not> field_less a b then fst (sub_raw False a b)
      else fst (sub_raw False FIELD (fst (sub_raw False b a))))"

text \<open>Rejection sampling; not returning is \<open>None\<close>.\<close>

definition masked_draw :: "bytes \<Rightarrow> wire_error + field_element" where
  "masked_draw bs = field_from_be (bs[0 := bs ! 0 AND 0x1f])"

partial_function (option) random_field :: "('r \<Rightarrow> nat \<Rightarrow> bytes \<times> 'r) \<Rightarrow> 'r \<Rightarrow> (field_element \<times> 'r) option" where
  "random_field fill r =
     (case masked_draw (fst (fill r 32)) of
        Inr v \<Rightarrow> Some (v, snd (fill r 32))
      | Inl _ \<Rightarrow> random_field fill (snd (fill r 32)))"

section \<open>Frames\<close>

definition hmac_pad :: "u8 \<Rightarrow> bytes \<Rightarrow> bytes" where
  "hmac_pad pad block = map (\<lambda>b. pad XOR b) block"

definition hmac_sha256 :: "(bytes \<Rightarrow> bytes) \<Rightarrow> bytes \<Rightarrow> bytes \<Rightarrow> bytes" where
  "hmac_sha256 sha key body =
     (let start = (if length key > 64 then sha key else key);
          block = start @ replicate (64 - length start) 0
      in sha (hmac_pad 0x5c block @ sha (hmac_pad 0x36 block @ body)))"

record frame =
  fr_slot :: u32
  fr_node :: u16
  fr_payload :: bytes
  fr_mac :: bytes

definition frame_mac :: "(bytes \<Rightarrow> bytes) \<Rightarrow> bytes \<Rightarrow> u32 \<Rightarrow> u16 \<Rightarrow> bytes \<Rightarrow> bytes" where
  "frame_mac sha key slot node payload =
     hmac_sha256 sha key (ascii ''QOMMWIRE'' @ [4] @ u32_be slot @ u16_be node @ payload)"

definition frame_new :: "(bytes \<Rightarrow> bytes) \<Rightarrow> u32 \<Rightarrow> nat \<Rightarrow> bytes \<Rightarrow> bytes \<Rightarrow> wire_error + frame" where
  "frame_new sha slot node payload key =
     (if node \<ge> 2 ^ 16 then Inl NodeIndex
      else Inr \<lparr>fr_slot = slot, fr_node = word_of_nat node, fr_payload = payload,
                fr_mac = frame_mac sha key slot (word_of_nat node) payload\<rparr>)"

definition frame_encode :: "frame \<Rightarrow> bytes" where
  "frame_encode f = ascii ''QOMMWIRE'' @ [4] @ u32_be (fr_slot f) @ u16_be (fr_node f) @ fr_payload f @ fr_mac f"

definition frame_decode :: "bytes \<Rightarrow> wire_error + frame" where
  "frame_decode raw =
     (if length raw \<noteq> 495 then Inl (FrameSize (length raw))
      else if take 8 raw \<noteq> ascii ''QOMMWIRE'' \<or> raw ! 8 \<noteq> 4 then Inl Header
      else Inr \<lparr>fr_slot = word_of_nat (from_be (take 4 (drop 9 raw))), fr_node = word_of_nat (from_be (take 2 (drop 13 raw))),
                fr_payload = take 448 (drop 15 raw), fr_mac = drop 463 raw\<rparr>)"

text \<open>The comparison without early exit: the disjunction of all differences.\<close>

definition frame_is_authentic :: "(bytes \<Rightarrow> bytes) \<Rightarrow> bytes \<Rightarrow> frame \<Rightarrow> bool" where
  "frame_is_authentic sha key f \<longleftrightarrow>
     foldl (\<lambda>difference (left, right). difference OR (left XOR right)) 0
       (zip (frame_mac sha key (fr_slot f) (fr_node f) (fr_payload f)) (fr_mac f)) = 0"

section \<open>Sharing\<close>

fun column_loop ::
  "('r \<Rightarrow> nat \<Rightarrow> bytes \<times> 'r) \<Rightarrow> nat \<Rightarrow> field_element list \<Rightarrow> field_element \<Rightarrow> 'r \<Rightarrow> (field_element list \<times> field_element \<times> 'r) option" where
  "column_loop fill 0 shares acc r = Some (shares, acc, r)"
| "column_loop fill (Suc k) shares acc r =
     Option.bind (random_field fill r) (\<lambda>(share, r'). column_loop fill k (shares @ [share]) (add_mod acc share) r')"

fun share_columns ::
  "('r \<Rightarrow> nat \<Rightarrow> bytes \<times> 'r) \<Rightarrow> nat \<Rightarrow> field_element list \<Rightarrow> 'r \<Rightarrow> (field_element list list \<times> 'r) option" where
  "share_columns fill n [] r = Some ([], r)"
| "share_columns fill n (v # vs) r =
     Option.bind (column_loop fill (n - 1) [] field_zero r) (\<lambda>(shares, acc, r').
       Option.bind (share_columns fill n vs r') (\<lambda>(columns, r'').
         Some ((shares @ [sub_mod v acc]) # columns, r'')))"

fun fill_payloads ::
  "('r \<Rightarrow> nat \<Rightarrow> bytes \<times> 'r) \<Rightarrow> field_element list list \<Rightarrow> nat list \<Rightarrow> 'r \<Rightarrow> bytes list \<times> 'r" where
  "fill_payloads fill columns [] r = ([], r)"
| "fill_payloads fill columns (node # nodes) r =
     (let (padding, r') = fill r (448 - length columns * 32);
          payload = concat (map (\<lambda>column. field_to_be (column ! node)) columns) @ padding;
          (payloads, r'') = fill_payloads fill columns nodes r'
      in (payload # payloads, r''))"

definition share_field_elements ::
  "('r \<Rightarrow> nat \<Rightarrow> bytes \<times> 'r) \<Rightarrow> field_element list \<Rightarrow> nat \<Rightarrow> 'r \<Rightarrow> (wire_error + bytes list \<times> 'r) option" where
  "share_field_elements fill values n r =
     (if n < 2 then Some (Inl NodeCount)
      else if length values * 32 > 448 then Some (Inl RequestSize)
      else Option.bind (share_columns fill n values r) (\<lambda>(columns, r').
        Some (Inr (fill_payloads fill columns [0..<n] r'))))"

definition share_request ::
  "('r \<Rightarrow> nat \<Rightarrow> bytes \<times> 'r) \<Rightarrow> 128 word list \<Rightarrow> nat \<Rightarrow> 'r \<Rightarrow> (wire_error + bytes list \<times> 'r) option" where
  "share_request fill values n r = share_field_elements fill (map from_u128 values) n r"

definition reconstruct_value :: "bytes list \<Rightarrow> nat \<Rightarrow> wire_error + field_element" where
  "reconstruct_value payloads index =
     try_fold (\<lambda>total payload. and_then (field_from_be (take 32 (drop (index * 32) payload))) (\<lambda>v. Inr (add_mod total v)))
       field_zero payloads"

definition reconstruct :: "bytes list \<Rightarrow> nat \<Rightarrow> wire_error + field_element list" where
  "reconstruct payloads n_values =
     (if n_values * 32 > 448 then Inl RequestSize else try_map (reconstruct_value payloads) [0..<n_values])"

end
