(* ===== verification/Frames_Sound.thy ===== *)
theory Frames_Sound
  imports Frames
begin

text \<open>
  The limb arithmetic of the frames computes modulo the order of the scalar field, sampling returns canonical elements,
  and shares add up to what was shared.
\<close>

section \<open>Limbs\<close>

fun limbs_val :: "u64 list \<Rightarrow> nat" where
  "limbs_val [] = 0"
| "limbs_val (x # xs) = unat x + 2 ^ 64 * limbs_val xs"

definition scalar_order :: nat where
  "scalar_order = 2 ^ 252 + 27742317777372353535851937790883648493"

definition canonical :: "field_element \<Rightarrow> bool" where
  "canonical a \<longleftrightarrow> length a = 4 \<and> limbs_val a < scalar_order"

lemma FIELD_val [simp]: "limbs_val FIELD = scalar_order" "length FIELD = 4"
  by (simp_all add: FIELD_def scalar_order_def)

lemma limbs_val_append: "limbs_val (xs @ ys) = limbs_val xs + 2 ^ (64 * length xs) * limbs_val ys"
  by (induction xs) (simp_all add: algebra_simps power_add)

lemma limbs_bound: "limbs_val xs < 2 ^ (64 * length xs)"
proof (induction xs)
  case (Cons x xs)
  have "unat x < 2 ^ 64" using unat_bound[of x] by simp
  moreover have "limbs_val xs + 1 \<le> 2 ^ (64 * length xs)" using Cons by simp
  then have "2 ^ 64 * (limbs_val xs + 1) \<le> 2 ^ 64 * 2 ^ (64 * length xs)" by (rule mult_le_mono2)
  ultimately show ?case by (simp add: power_add)
qed simp

lemma limbs_val_inj: "length xs = length ys \<Longrightarrow> limbs_val xs = limbs_val ys \<Longrightarrow> xs = ys"
proof (induction xs ys rule: list_induct2)
  case (Cons x xs y ys)
  have b: "unat x < 2 ^ 64" "unat y < 2 ^ 64" using unat_bound[of x] unat_bound[of y] by simp_all
  have "unat x + 2 ^ 64 * limbs_val xs = unat y + 2 ^ 64 * limbs_val ys" using Cons.prems by simp
  then have "(unat x + 2 ^ 64 * limbs_val xs) mod 2 ^ 64 = (unat y + 2 ^ 64 * limbs_val ys) mod 2 ^ 64" by (rule arg_cong)
  then have "unat x = unat y" unfolding mod_mult_self2 using b by simp
  then show ?case using Cons by (simp add: unsigned_word_eqI)
qed simp

lemma limbs_less_val:
  "length xs = length ys \<Longrightarrow> limbs_less xs ys \<longleftrightarrow> limbs_val (rev xs) < limbs_val (rev ys)"
proof (induction xs ys rule: list_induct2)
  case (Cons x xs y ys)
  let ?p = "2 ^ (64 * length xs) :: nat" and ?a = "limbs_val (rev xs)" and ?b = "limbs_val (rev ys)"
  have b: "?a < ?p" "?b < ?p" using limbs_bound[of "rev xs"] limbs_bound[of "rev ys"] Cons.hyps by simp_all
  have digit: "a + p * m < b + p * n" if "a < p" "b < p" "m < n" for a b p m n :: nat
  proof -
    have "p * (m + 1) \<le> p * n" using that by (intro mult_le_mono2) simp
    then show ?thesis using that by simp
  qed
  consider "unat x < unat y" | "unat y < unat x" | "x = y" by (metis linorder_neqE_nat unsigned_word_eqI)
  then show ?case
  proof cases
    case 1
    then show ?thesis using digit[OF b 1] Cons.hyps by (simp add: limbs_val_append word_less_nat_alt)
  next
    case 2
    then show ?thesis using digit[OF b(2,1) 2] Cons.hyps by (auto simp: limbs_val_append word_less_nat_alt)
  qed (simp add: limbs_val_append Cons)
qed simp

lemma field_less_val: "length a = length b \<Longrightarrow> field_less a b \<longleftrightarrow> limbs_val a < limbs_val b"
  by (simp add: field_less_def limbs_less_val)

lemma overflowing_add_val: "overflowing_add x y = (z, c) \<Longrightarrow> unat z + 2 ^ 64 * of_bool c = unat x + unat y"
  using unat_bound[of x] unat_bound[of y] by (auto simp: overflowing_add_def unat_word_ariths mod_if)

lemma overflowing_sub_val: "overflowing_sub x y = (z, c) \<Longrightarrow> unat z + unat y = unat x + 2 ^ 64 * of_bool c"
  using unat_bound[of x] unat_bound[of y] by (auto simp: overflowing_sub_def unat_sub_if_size word_size)

lemma add_raw_val:
  "length xs = length ys \<Longrightarrow> add_raw c xs ys = (zs, out) \<Longrightarrow>
     length zs = length xs \<and> limbs_val zs + 2 ^ (64 * length xs) * of_bool out = limbs_val xs + limbs_val ys + of_bool c"
proof (induction xs ys arbitrary: c zs out rule: list_induct2)
  case (Cons x xs y ys)
  obtain f a where f: "overflowing_add x y = (f, a)" by fastforce
  obtain s b where s: "overflowing_add f (of_bool c) = (s, b)" by fastforce
  obtain rest where r: "add_raw (a \<or> b) xs ys = (rest, out)" and zs: "zs = s # rest"
    using Cons.prems by (auto simp: f s split: prod.splits)
  have one: "unat (of_bool c :: u64) = of_bool c" by simp
  note v = overflowing_add_val[OF f] overflowing_add_val[OF s, unfolded one] Cons.IH[OF r]
  have "of_bool (a \<or> b) = (of_bool a + of_bool b :: nat)"
    using v(1,2) unat_bound[of s] unat_bound[of x] unat_bound[of y] by (cases a; cases b; cases c) simp_all
  then show ?case using v by (simp add: zs power_add)
qed simp

lemma sub_raw_val:
  "length xs = length ys \<Longrightarrow> sub_raw c xs ys = (zs, out) \<Longrightarrow>
     length zs = length xs \<and> limbs_val zs + limbs_val ys + of_bool c = limbs_val xs + 2 ^ (64 * length xs) * of_bool out"
proof (induction xs ys arbitrary: c zs out rule: list_induct2)
  case (Cons x xs y ys)
  obtain f a where f: "overflowing_sub x y = (f, a)" by fastforce
  obtain s b where s: "overflowing_sub f (of_bool c) = (s, b)" by fastforce
  obtain rest where r: "sub_raw (a \<or> b) xs ys = (rest, out)" and zs: "zs = s # rest"
    using Cons.prems by (auto simp: f s split: prod.splits)
  have one: "unat (of_bool c :: u64) = of_bool c" by simp
  note v = overflowing_sub_val[OF f] overflowing_sub_val[OF s, unfolded one] Cons.IH[OF r]
  have "of_bool (a \<or> b) = (of_bool a + of_bool b :: nat)"
    using v(1,2) unat_bound[of s] unat_bound[of x] unat_bound[of y] by (cases a; cases b; cases c) simp_all
  then show ?case using v by (simp add: zs power_add)
qed simp

lemma sub_raw_exact:
  assumes "length xs = length ys" and "limbs_val ys \<le> limbs_val xs"
  shows "length (fst (sub_raw False xs ys)) = length xs \<and> limbs_val (fst (sub_raw False xs ys)) = limbs_val xs - limbs_val ys"
proof -
  obtain zs out where r: "sub_raw False xs ys = (zs, out)" by fastforce
  have v: "length zs = length xs" "limbs_val zs + limbs_val ys = limbs_val xs + 2 ^ (64 * length xs) * of_bool out"
    using sub_raw_val[OF assms(1) r] by simp_all
  have "\<not> out" using v limbs_bound[of zs] assms(2) by (cases out) simp_all
  then show ?thesis using v by (simp add: r)
qed

section \<open>Arithmetic modulo the order\<close>

lemma add_mod_val:
  assumes "canonical a" and "canonical b"
  shows "canonical (add_mod a b)" and "limbs_val (add_mod a b) = (limbs_val a + limbs_val b) mod scalar_order"
proof -
  have l: "length a = 4" "length b = 4" and lt: "limbs_val a < scalar_order" "limbs_val b < scalar_order"
    using assms by (simp_all add: canonical_def)
  obtain sum c where r: "add_raw False a b = (sum, c)" by fastforce
  have "length a = length b" using l by simp
  from add_raw_val[OF this r] have v: "length sum = 4" "limbs_val sum + 2 ^ 256 * of_bool c = limbs_val a + limbs_val b"
    by (simp_all add: l)
  have "\<not> c" using v(2) lt by (cases c) (simp_all add: scalar_order_def)
  then have sum: "limbs_val sum = limbs_val a + limbs_val b" using v(2) by simp
  have less: "field_less sum FIELD \<longleftrightarrow> limbs_val sum < scalar_order" using v(1) by (simp add: field_less_val)
  have "canonical (add_mod a b) \<and> limbs_val (add_mod a b) = (limbs_val a + limbs_val b) mod scalar_order"
  proof (cases "limbs_val sum < scalar_order")
    case True
    then show ?thesis using v(1) sum by (simp add: add_mod_def r less canonical_def)
  next
    case False
    then have "limbs_val FIELD \<le> limbs_val sum" by simp
    note d = sub_raw_exact[of sum FIELD, OF _ this]
    have "(limbs_val a + limbs_val b) mod scalar_order = limbs_val a + limbs_val b - scalar_order"
      using False lt sum by (simp add: mod_if)
    then show ?thesis using d v(1) sum lt False by (simp add: add_mod_def r less canonical_def)
  qed
  then show "canonical (add_mod a b)" "limbs_val (add_mod a b) = (limbs_val a + limbs_val b) mod scalar_order" by simp_all
qed

lemma sub_mod_val:
  assumes "canonical a" and "canonical b"
  shows "canonical (sub_mod a b)" and "(limbs_val (sub_mod a b) + limbs_val b) mod scalar_order = limbs_val a"
proof -
  have l: "length a = 4" "length b = 4" and lt: "limbs_val a < scalar_order" "limbs_val b < scalar_order"
    using assms by (simp_all add: canonical_def)
  have less: "field_less a b \<longleftrightarrow> limbs_val a < limbs_val b" using l by (simp add: field_less_val)
  have "canonical (sub_mod a b) \<and> (limbs_val (sub_mod a b) + limbs_val b) mod scalar_order = limbs_val a"
  proof (cases "limbs_val a < limbs_val b")
    case False
    then show ?thesis using sub_raw_exact[of a b] l lt by (simp add: sub_mod_def less canonical_def)
  next
    case True
    let ?d = "fst (sub_raw False b a)"
    have d: "length ?d = 4" "limbs_val ?d = limbs_val b - limbs_val a" using sub_raw_exact[of b a] True l by simp_all
    have e: "length (fst (sub_raw False FIELD ?d)) = 4" "limbs_val (fst (sub_raw False FIELD ?d)) = scalar_order - (limbs_val b - limbs_val a)"
      using sub_raw_exact[of FIELD ?d] d lt by simp_all
    have "scalar_order - (limbs_val b - limbs_val a) + limbs_val b = limbs_val a + scalar_order" using True lt by simp
    then show ?thesis using e d True lt by (simp add: sub_mod_def less canonical_def)
  qed
  then show "canonical (sub_mod a b)" "(limbs_val (sub_mod a b) + limbs_val b) mod scalar_order = limbs_val a" by simp_all
qed

lemma add_raw_fits:
  assumes "canonical a" and "canonical b"
  shows "\<not> snd (add_raw False a b)"
proof -
  obtain s c where r: "add_raw False a b = (s, c)" by fastforce
  have "length a = length b" using assms by (simp add: canonical_def)
  from add_raw_val[OF this r] have "limbs_val s + 2 ^ 256 * of_bool c = limbs_val a + limbs_val b"
    using assms by (simp add: canonical_def)
  then show ?thesis using assms by (cases c) (simp_all add: r canonical_def scalar_order_def)
qed

lemma canonical_zero: "canonical field_zero" "limbs_val field_zero = 0"
  by (simp_all add: canonical_def field_zero_def scalar_order_def)

lemma canonical_eqI: "canonical a \<Longrightarrow> canonical b \<Longrightarrow> limbs_val a = limbs_val b \<Longrightarrow> a = b"
  by (rule limbs_val_inj) (simp_all add: canonical_def)

lemma foldl_add_mod:
  "canonical z \<Longrightarrow> \<forall>x \<in> set xs. canonical x \<Longrightarrow>
     canonical (foldl add_mod z xs) \<and> limbs_val (foldl add_mod z xs) = (limbs_val z + sum_list (map limbs_val xs)) mod scalar_order"
proof (induction xs arbitrary: z)
  case Nil
  then show ?case by (simp add: canonical_def)
next
  case (Cons x xs)
  then show ?case using Cons.IH[of "add_mod z x"] add_mod_val[of z x] by (simp add: mod_add_left_eq add.assoc)
qed

section \<open>Bytes\<close>

lemma four_limbs:
  assumes "length a = 4"
  obtains w x y z where "a = [w, x, y, z]"
  using assms by (auto simp: length_Suc_conv numeral_eq_Suc)

lemma length_field_to_be: "length a = 4 \<Longrightarrow> length (field_to_be a) = 32"
  by (erule four_limbs) (simp add: field_to_be_def)

lemma field_from_be_to_be:
  assumes "canonical a"
  shows "field_from_be (field_to_be a) = Inr a"
proof -
  obtain w x y z where a: "a = [w, x, y, z]" using assms by (auto simp: canonical_def elim: four_limbs)
  have "field_less a FIELD" using assms by (simp add: canonical_def field_less_val)
  then show ?thesis by (simp add: field_from_be_def field_to_be_def a from_be_u64)
qed

lemma field_from_be_canonical: "field_from_be bs = Inr v \<Longrightarrow> canonical v"
  by (auto simp: field_from_be_def Let_def canonical_def field_less_val split: if_splits)

section \<open>Sampling\<close>

text \<open>A random source is productive if it fills what it is asked for and, from every state, some draw of 32 bytes is
  accepted.\<close>

definition after_draws :: "('r \<Rightarrow> nat \<Rightarrow> bytes \<times> 'r) \<Rightarrow> nat \<Rightarrow> 'r \<Rightarrow> 'r" where
  "after_draws fill k r = ((\<lambda>r. snd (fill r 32)) ^^ k) r"

definition productive :: "('r \<Rightarrow> nat \<Rightarrow> bytes \<times> 'r) \<Rightarrow> bool" where
  "productive fill \<longleftrightarrow> (\<forall>r n. length (fst (fill r n)) = n) \<and> (\<forall>r. \<exists>k. is_ok (masked_draw (fst (fill (after_draws fill k r) 32))))"

lemma random_field_after:
  "is_ok (masked_draw (fst (fill (after_draws fill k r) 32))) \<Longrightarrow> \<exists>v r'. random_field fill r = Some (v, r') \<and> canonical v"
proof (induction k arbitrary: r)
  case 0
  then show ?case
    by (subst random_field.simps) (auto simp: after_draws_def is_ok_iff masked_draw_def dest: field_from_be_canonical)
next
  case (Suc k)
  show ?case
  proof (cases "masked_draw (fst (fill r 32))")
    case (Inr v)
    then show ?thesis by (subst random_field.simps) (auto simp: masked_draw_def dest: field_from_be_canonical)
  next
    case (Inl e)
    have "after_draws fill (Suc k) r = after_draws fill k (snd (fill r 32))"
      by (simp only: after_draws_def funpow_Suc_right o_apply)
    then show ?thesis using Suc Inl by (subst random_field.simps) simp
  qed
qed

lemma random_field_returns: "productive fill \<Longrightarrow> \<exists>v r'. random_field fill r = Some (v, r') \<and> canonical v"
  by (meson productive_def random_field_after)

section \<open>Shares\<close>

lemma column_loop_returns:
  assumes "productive fill" and "canonical acc"
  shows "\<exists>new r'. column_loop fill k shares acc r = Some (shares @ new, foldl add_mod acc new, r')
    \<and> length new = k \<and> (\<forall>s \<in> set new. canonical s)"
  using assms(2)
proof (induction k arbitrary: shares acc r)
  case (Suc k)
  obtain v r1 where v: "random_field fill r = Some (v, r1)" "canonical v" using random_field_returns[OF assms(1)] by blast
  obtain new r' where n: "column_loop fill k (shares @ [v]) (add_mod acc v) r1 = Some ((shares @ [v]) @ new, foldl add_mod (add_mod acc v) new, r')"
    "length new = k" "\<forall>s \<in> set new. canonical s"
    using Suc.IH[OF add_mod_val(1)[OF Suc.prems v(2)]] by blast
  show ?case using v n by (intro exI[of _ "v # new"] exI[of _ r']) simp
qed simp

definition column_of :: "nat \<Rightarrow> field_element \<Rightarrow> field_element list \<Rightarrow> bool" where
  "column_of n v column \<longleftrightarrow> length column = n \<and> (\<forall>s \<in> set column. canonical s) \<and> foldl add_mod field_zero column = v"

lemma closing_share:
  assumes "\<forall>s \<in> set new. canonical s" and "canonical v"
  shows "column_of (Suc (length new)) v (new @ [sub_mod v (foldl add_mod field_zero new)])"
proof -
  let ?s = "foldl add_mod field_zero new"
  have s: "canonical ?s" using foldl_add_mod[OF canonical_zero(1) assms(1)] by simp
  have d: "canonical (sub_mod v ?s)" "(limbs_val (sub_mod v ?s) + limbs_val ?s) mod scalar_order = limbs_val v"
    using sub_mod_val[OF assms(2) s] by simp_all
  have "add_mod ?s (sub_mod v ?s) = v"
    using add_mod_val[OF s d(1)] d(2) assms(2) by (intro canonical_eqI) (simp_all add: add.commute)
  then show ?thesis using assms(1) d(1) by (simp add: column_of_def)
qed

lemma share_columns_returns:
  assumes "productive fill" and "0 < n" and "\<forall>v \<in> set vs. canonical v"
  shows "\<exists>columns r'. share_columns fill n vs r = Some (columns, r') \<and> list_all2 (column_of n) vs columns"
  using assms(3)
proof (induction vs arbitrary: r)
  case (Cons v vs)
  obtain new r1 where n: "column_loop fill (n - 1) [] field_zero r = Some (new, foldl add_mod field_zero new, r1)"
    "length new = n - 1" "\<forall>s \<in> set new. canonical s"
    using column_loop_returns[OF assms(1) canonical_zero(1), of "n - 1" "[]" r] by auto
  obtain columns r' where c: "share_columns fill n vs r1 = Some (columns, r')" "list_all2 (column_of n) vs columns"
    using Cons by fastforce
  have "column_of n v (new @ [sub_mod v (foldl add_mod field_zero new)])"
    using closing_share[OF n(3), of v] Cons.prems n(2) assms(2) by simp
  then show ?case using n(1) c by simp
qed simp

lemma take_drop_concat:
  "\<forall>x \<in> set xs. length (f x) = k \<Longrightarrow> i < length xs \<Longrightarrow> take k (drop (i * k) (concat (map f xs) @ rest)) = f (xs ! i)"
proof (induction xs arbitrary: i)
  case (Cons x xs)
  then show ?case by (cases i) simp_all
qed simp

lemma length_concat_fixed: "\<forall>x \<in> set xs. length (f x) = k \<Longrightarrow> length (concat (map f xs)) = length xs * k"
  by (induction xs) simp_all

definition holds_row :: "field_element list list \<Rightarrow> nat \<Rightarrow> bytes \<Rightarrow> bool" where
  "holds_row columns node payload \<longleftrightarrow> length payload = 448
     \<and> (\<forall>i < length columns. field_from_be (take 32 (drop (i * 32) payload)) = Inr (columns ! i ! node))"

lemma fill_payloads_rows:
  assumes "\<forall>r n. length (fst (fill r n)) = n" and "length columns * 32 \<le> 448"
    and "\<forall>column \<in> set columns. \<forall>node \<in> set nodes. canonical (column ! node)"
  shows "list_all2 (holds_row columns) nodes (fst (fill_payloads fill columns nodes r))"
  using assms(3)
proof (induction nodes arbitrary: r)
  case (Cons node nodes)
  obtain padding r1 where p: "fill r (448 - length columns * 32) = (padding, r1)" by fastforce
  obtain payloads r2 where ps: "fill_payloads fill columns nodes r1 = (payloads, r2)" by fastforce
  have "length padding = 448 - length columns * 32" using assms(1) p by (metis fst_conv)
  have can: "canonical (column ! node)" if "column \<in> set columns" for column using Cons.prems that by simp
  then have len: "\<forall>column \<in> set columns. length (field_to_be (column ! node)) = 32"
    by (auto simp: canonical_def intro: length_field_to_be)
  have "holds_row columns node (concat (map (\<lambda>column. field_to_be (column ! node)) columns) @ padding)"
    using take_drop_concat[OF len] length_concat_fixed[OF len] \<open>length padding = _\<close> assms(2) can
    by (auto simp: holds_row_def intro!: field_from_be_to_be)
  moreover have "list_all2 (holds_row columns) nodes payloads" using Cons.IH[of r1] Cons.prems ps by simp
  ultimately show ?case by (simp add: p ps)
qed simp

lemma try_fold_rows:
  "list_all2 (\<lambda>payload v. field_from_be (take 32 (drop (i * 32) payload)) = Inr v) payloads vs \<Longrightarrow>
     try_fold (\<lambda>total payload. and_then (field_from_be (take 32 (drop (i * 32) payload))) (\<lambda>v. Inr (add_mod total v))) z payloads
       = Inr (foldl add_mod z vs)"
  by (induction payloads vs arbitrary: z rule: list_all2_induct) simp_all

lemma reconstruct_rows:
  assumes "list_all2 (holds_row columns) [0..<n] payloads" and "list_all2 (column_of n) vs columns" and "length vs * 32 \<le> 448"
  shows "reconstruct payloads (length vs) = Inr vs"
proof -
  have "reconstruct_value payloads i = Inr (vs ! i)" if "i < length vs" for i
  proof -
    have col: "column_of n (vs ! i) (columns ! i)" and "i < length columns"
      using assms(2) that by (auto simp: list_all2_conv_all_nth)
    then have "list_all2 (\<lambda>payload v. field_from_be (take 32 (drop (i * 32) payload)) = Inr v) payloads (columns ! i)"
      using assms(1) by (auto simp: list_all2_conv_all_nth holds_row_def column_of_def)
    then show ?thesis using col by (simp add: reconstruct_value_def try_fold_rows column_of_def)
  qed
  then have "try_map (reconstruct_value payloads) [0..<length vs] = Inr vs"
    by (simp add: try_map_Inr_iff list_all2_conv_all_nth)
  then show ?thesis using assms(3) by (simp add: reconstruct_def)
qed

end
