(* ===== verification/Frames_Properties.thy ===== *)
theory Frames_Properties
  imports Frames_Sound
begin

text \<open>
  The properties of the frames: exact field arithmetic, shares that reconstruct, and the frame codec with its code of
  authenticity.
\<close>

text \<open>C40: The limb arithmetic is exact. On canonical elements \<open>add_mod\<close> and \<open>sub_mod\<close> return canonical elements, whose
  values are the sum and the difference modulo the order of the scalar field, without overflow of the four limbs, and the
  byte form of a canonical element reads back; every element read from bytes is canonical.\<close>

theorem field_arithmetic_exact:
  assumes "canonical a" and "canonical b"
  shows "canonical (add_mod a b) \<and> limbs_val (add_mod a b) = (limbs_val a + limbs_val b) mod scalar_order
    \<and> \<not> snd (add_raw False a b)
    \<and> canonical (sub_mod a b) \<and> int (limbs_val (sub_mod a b)) = (int (limbs_val a) - int (limbs_val b)) mod int scalar_order
    \<and> field_from_be (field_to_be a) = Inr a \<and> (\<forall>bs v. field_from_be bs = Inr v \<longrightarrow> canonical v)"
proof -
  note s = sub_mod_val[OF assms]
  have "int (limbs_val (sub_mod a b)) = (int (limbs_val a) - int (limbs_val b)) mod int scalar_order"
  proof -
    have "int (limbs_val a) = (int (limbs_val (sub_mod a b)) + int (limbs_val b)) mod int scalar_order"
      using s(2) by (metis of_nat_add of_nat_mod)
    then have "(int (limbs_val a) - int (limbs_val b)) mod int scalar_order = int (limbs_val (sub_mod a b)) mod int scalar_order"
      by (simp add: mod_diff_left_eq)
    then show ?thesis using s(1) by (simp add: canonical_def)
  qed
  then show ?thesis using add_mod_val[OF assms] add_raw_fits[OF assms] s(1) field_from_be_to_be[OF assms(1)] field_from_be_canonical
    by blast
qed

theorem field_arithmetic_exact_witness:
  "limbs_val (add_mod [0x5812631a5cf5d3ec, 0x14def9dea2f79cd6, 0, 0x1000000000000000] [2, 0, 0, 0]) = 1"
proof -
  have c: "canonical [0x5812631a5cf5d3ec, 0x14def9dea2f79cd6, 0, 0x1000000000000000]" "canonical [2, 0, 0, 0]"
    by (simp_all add: canonical_def scalar_order_def)
  show ?thesis using field_arithmetic_exact[OF c, THEN conjunct2, THEN conjunct1] by (simp add: scalar_order_def)
qed

text \<open>C39: Shared values reconstruct. With a productive random source, at least two nodes and at most fourteen canonical
  values, sharing returns one payload of 448 bytes per node, and reconstruction from all payloads gives the values.\<close>

theorem shares_reconstruct:
  assumes "productive fill" and "2 \<le> n" and "length values \<le> 14" and "\<forall>v \<in> set values. canonical v"
  shows "\<exists>payloads r'. share_field_elements fill values n r = Some (Inr (payloads, r')) \<and> length payloads = n
    \<and> (\<forall>p \<in> set payloads. length p = 448) \<and> reconstruct payloads (length values) = Inr values"
proof -
  obtain columns r1 where c: "share_columns fill n values r = Some (columns, r1)" "list_all2 (column_of n) values columns"
    using share_columns_returns[OF assms(1) _ assms(4), of n r] assms(2) by auto
  have len: "length columns = length values" using c(2) by (simp add: list_all2_lengthD)
  have can: "\<forall>column \<in> set columns. \<forall>node \<in> set [0..<n]. canonical (column ! node)"
  proof (intro ballI)
    fix column node
    assume "column \<in> set columns" and node: "node \<in> set [0..<n]"
    then obtain v where "column_of n v column" using c(2) by (auto simp: list_all2_conv_all_nth in_set_conv_nth)
    then show "canonical (column ! node)" using node by (simp add: column_of_def)
  qed
  have rows: "list_all2 (holds_row columns) [0..<n] (fst (fill_payloads fill columns [0..<n] r1))"
    by (rule fill_payloads_rows[OF _ _ can]) (use assms(1,3) len in \<open>simp_all add: productive_def\<close>)
  obtain payloads r' where p: "fill_payloads fill columns [0..<n] r1 = (payloads, r')" by fastforce
  have "reconstruct payloads (length values) = Inr values"
    by (rule reconstruct_rows[OF _ c(2)]) (use rows p assms(3) in simp_all)
  moreover have "length payloads = n" "\<forall>q \<in> set payloads. length q = 448"
    using rows by (auto simp: p list_all2_conv_all_nth in_set_conv_nth holds_row_def)
  ultimately show ?thesis using assms(2,3) c(1) by (simp add: share_field_elements_def p)
qed

definition zero_fill :: "unit \<Rightarrow> nat \<Rightarrow> bytes \<times> unit" where
  "zero_fill r n = (replicate n 0, ())"

lemma zero_fill_productive: "productive zero_fill"
proof -
  have "field_to_be field_zero = replicate 32 0" by code_simp
  then have "field_from_be (replicate 32 0) = Inr field_zero" using field_from_be_to_be[OF canonical_zero(1)] by simp
  moreover have "(replicate 32 0)[0 := and (replicate 32 0 ! 0) 0x1f] = (replicate 32 0 :: bytes)"
    by (simp add: list_update_same_conv)
  ultimately have "masked_draw (replicate 32 0) = Inr field_zero" by (simp only: masked_draw_def)
  then show ?thesis by (simp add: productive_def zero_fill_def)
qed

theorem shares_reconstruct_witness:
  "\<exists>payloads r'. share_field_elements zero_fill [[5, 0, 0, 0], [7, 1, 0, 0]] 3 () = Some (Inr (payloads, r'))
     \<and> reconstruct payloads 2 = Inr [[5, 0, 0, 0], [7, 1, 0, 0]]"
proof -
  have "\<forall>v \<in> set [[5, 0, 0, 0], [7, 1, 0, 0]]. canonical v" by (simp add: canonical_def scalar_order_def)
  then show ?thesis using shares_reconstruct[OF zero_fill_productive, of 3 "[[5, 0, 0, 0], [7, 1, 0, 0]]" "()"] by (auto simp: numeral_2_eq_2)
qed

section \<open>The frame codec\<close>

definition frame_ok :: "frame \<Rightarrow> bool" where
  "frame_ok f \<longleftrightarrow> length (fr_payload f) = 448 \<and> length (fr_mac f) = 32"

lemma frame_decode_encode: "frame_ok f \<Longrightarrow> frame_decode (frame_encode f) = Inr f"
  by (simp add: frame_decode_def frame_encode_def frame_ok_def from_be_u32 from_be_u16)

lemma split_raw:
  assumes "length raw = 495"
  shows "raw = take 8 raw @ [raw ! 8] @ take 4 (drop 9 raw) @ take 2 (drop 13 raw) @ take 448 (drop 15 raw) @ drop 463 raw"
proof -
  have "take 448 (drop 15 raw) @ drop 463 raw = drop 15 raw" using append_take_drop_id[of 448 "drop 15 raw"] by simp
  moreover have "take 2 (drop 13 raw) @ drop 15 raw = drop 13 raw" using append_take_drop_id[of 2 "drop 13 raw"] by simp
  moreover have "take 4 (drop 9 raw) @ drop 13 raw = drop 9 raw" using append_take_drop_id[of 4 "drop 9 raw"] by simp
  moreover have "[raw ! 8] @ drop 9 raw = drop 8 raw" using Cons_nth_drop_Suc[of 8 raw] assms by simp
  ultimately show ?thesis by simp
qed

lemma frame_encode_decode:
  assumes "frame_decode raw = Inr f"
  shows "frame_encode f = raw" and "frame_ok f"
proof -
  have len: "length raw = 495" and head: "take 8 raw = ascii ''QOMMWIRE''" "raw ! 8 = 4"
    and f: "f = \<lparr>fr_slot = word_of_nat (from_be (take 4 (drop 9 raw))), fr_node = word_of_nat (from_be (take 2 (drop 13 raw))),
      fr_payload = take 448 (drop 15 raw), fr_mac = drop 463 raw\<rparr>"
    using assms by (auto simp: frame_decode_def split: if_splits)
  show "frame_encode f = raw"
    using split_raw[OF len] head len by (simp add: frame_encode_def f u32_be_from u16_be_from del: ascii_simps)
  show "frame_ok f" using len by (simp add: f frame_ok_def)
qed

lemma no_difference:
  "length xs = length ys \<Longrightarrow> foldl (\<lambda>d (x, y). or d (xor x y)) d (zip xs ys) = (0 :: u8) \<longleftrightarrow> d = 0 \<and> xs = ys"
proof (induction xs ys arbitrary: d rule: list_induct2)
  case (Cons x xs y ys)
  have "or d (xor x y) = 0 \<longleftrightarrow> d = 0 \<and> x = y" by (auto simp: bit_eq_iff bit_or_iff bit_xor_iff)
  then show ?case using Cons by auto
qed simp

text \<open>The frame codec is exact and its comparison decides. A frame reads back from its encoding, an accepted encoding
  is the encoding of the frame read, of fixed size; with a hash of 32 bytes a well-formed frame is authentic under a key
  exactly if its code is the one of the key, and frames made by \<open>new\<close> are.\<close>

lemma frame_codec_exact:
  assumes "\<forall>m. length (sha m) = 32"
  shows "(\<forall>raw f. frame_decode raw = Inr f \<longleftrightarrow> frame_ok f \<and> raw = frame_encode f)
    \<and> (\<forall>f. frame_ok f \<longrightarrow> length (frame_encode f) = 495
         \<and> (frame_is_authentic sha key f \<longleftrightarrow> fr_mac f = frame_mac sha key (fr_slot f) (fr_node f) (fr_payload f)))
    \<and> (\<forall>slot node payload f. length payload = 448 \<longrightarrow> frame_new sha slot node payload key = Inr f \<longrightarrow>
         frame_ok f \<and> frame_is_authentic sha key f)"
proof -
  have mac: "length (frame_mac sha key slot node payload) = 32" for slot node payload
    using assms by (simp add: frame_mac_def hmac_sha256_def Let_def)
  have auth: "frame_is_authentic sha key f \<longleftrightarrow> fr_mac f = frame_mac sha key (fr_slot f) (fr_node f) (fr_payload f)"
    if "frame_ok f" for f
    using that mac by (auto simp: frame_is_authentic_def frame_ok_def no_difference)
  have made: "frame_ok f \<and> frame_is_authentic sha key f"
    if "length payload = 448" "frame_new sha slot node payload key = Inr f" for slot node payload f
  proof -
    have "frame_ok f" "fr_mac f = frame_mac sha key (fr_slot f) (fr_node f) (fr_payload f)"
      using that mac by (auto simp: frame_new_def frame_ok_def split: if_splits)
    then show ?thesis using auth by simp
  qed
  have "length (frame_encode f) = 495" if "frame_ok f" for f using that by (simp add: frame_encode_def frame_ok_def)
  then show ?thesis using auth made frame_decode_encode frame_encode_decode by blast
qed

definition demo_frame :: frame where
  "demo_frame = \<lparr>fr_slot = 3, fr_node = 1, fr_payload = replicate 448 7, fr_mac = replicate 32 0\<rparr>"

lemma frame_codec_exact_witness:
  "frame_decode (frame_encode demo_frame) = Inr demo_frame \<and> frame_is_authentic (\<lambda>_. replicate 32 0) [1] demo_frame"
proof -
  have ok: "frame_ok demo_frame" by (simp add: frame_ok_def demo_frame_def)
  have "fr_mac demo_frame = frame_mac (\<lambda>_. replicate 32 0) [1] (fr_slot demo_frame) (fr_node demo_frame) (fr_payload demo_frame)"
    by (simp add: demo_frame_def frame_mac_def hmac_sha256_def Let_def)
  then show ?thesis using frame_codec_exact[of "\<lambda>_. replicate 32 0" "[1]"] ok by simp
qed

end
