(* ===== verification/Spec2Isabelle.thy ===== *)
theory Spec2Isabelle
  imports Optimistic_Properties Sigma_Properties Zkpi_Properties Wire_Properties Shamir_Properties Ring_Properties Dsl_Properties
    Audit_Properties Publication_Properties Frames_Properties
begin

text \<open>
  A verification development for zkFMI/zkpi, a Rust workspace (\<^verbatim>\<open>src/rust\<close>) for confidential payment instructions: a
  quorum signs an instruction whose amount and price are commitments with range proofs, venues settle it once, an
  optimistic ledger lets results be challenged under bonds, committees of nodes compute prices from a rule language under
  multi-party computation, and an audit layer keeps receipts, bonds and privacy budgets.

  \<^bold>\<open>How the source is read.\<close> A struct is a record, an enum a datatype, \<open>Result<A, E>\<close> a sum with the error on the left and
  the question mark \<open>and_then\<close>, a \<open>BTreeMap\<close> a sorted association list, an unsigned integer a word of its width, and bytes
  a list of 8-bit words. A method on \<open>&mut self\<close> returns the new state; a refused request leaves the state as it was.
  A fixed array is a byte list whose length is a hypothesis where it matters. Panics are \<open>None\<close> or an error constructor.
  Code that is not under \<^verbatim>\<open>src\<close> is an argument, collected in records (\<open>zk\<close>, \<open>prims\<close>, \<open>quorum\<close>, \<open>opt_prims\<close>,
  \<open>pub_prims\<close>): hash functions, the ristretto group, Merlin, FROST, bulletproofs, hybrid signatures, JSON and hex. What a
  theorem needs of it is a named hypothesis (\<open>lawful\<close>, \<open>hex_ok\<close>, \<open>hex_law\<close>, \<open>codecs_round_trip\<close>, \<open>productive\<close>), and the
  witness after the theorem gives concrete functions that satisfy it. Randomness drawn by the code is an argument. No
  hash is assumed collision free: a binding theorem ends in an explicit collision of named inputs.

  \<^bold>\<open>Shared theories.\<close> \<open>Zkpi_Prelude\<close> has results, loops that may fail, machine integers and big-endian bytes;
  \<open>Ordered_Maps\<close> the maps and the locale \<open>ordered_map\<close>; \<open>Machines\<close> hosts that run sequences of requests, with the
  locales \<open>guarded_machine\<close> (an invariant) and \<open>once_machine\<close> (a key consumed once), interpreted by the optimistic ledger,
  the venue, the audit ledger and the publication ledger; \<open>Readers\<close> byte readers and the locale \<open>prefix_codec\<close>.

  \<^bold>\<open>Optimistic ledger\<close> (\<^verbatim>\<open>zkpi-optimistic/src/lib.rs\<close>). \<open>Optimistic\<close> models every handler; \<open>Optimistic_Snapshot\<close> shows that
  the loops of \<open>validate\<close> accept exactly the states of a declarative specification; \<open>Optimistic_Escrow\<close>, \<open>Optimistic_Safety\<close>
  and \<open>Optimistic_Claims\<close> give conservation, the invariant and the life cycle of claims. The properties: every reachable
  state validates, escrow is conserved, losses have a cause, a job is claimed once, claims follow the abstract automaton
  \<open>status_step\<close>, final claims waited and stay final, overdue claims can advance.

  \<^bold>\<open>Commitments and sigma protocols\<close> (\<^verbatim>\<open>zkfmi-zk/src/pedersen.rs, sigma.rs, bitrange.rs, range.rs\<close> and the verifier of
  \<^verbatim>\<open>zkpi-proofs/src/threshold_range.rs\<close>). \<open>Sigma\<close>, \<open>Bitrange\<close> and \<open>Threshold_Range\<close> are the provers and verifiers;
  \<open>Sigma_Protocols\<close> reduces each verifier to its equation and interprets the locale \<open>sigma_check\<close>; \<open>Bitrange_Sound\<close>
  extracts openings. Soundness is special soundness: two accepted runs with the same first moves and different challenges
  give the witness; the second run is one with another transcript oracle.

  \<^bold>\<open>Registries, one-out-of-many, adaptors\<close> (\<^verbatim>\<open>or_dleq.rs, oneofmany.rs, adaptor.rs\<close>): \<open>Or_Dleq\<close>, \<open>One_Of_Many\<close>,
  \<open>One_Of_Many_Sound\<close>, \<open>Adaptor\<close>, \<open>Ring_Properties\<close>: completeness, extraction of the member and its secret, exchange of
  a signature for the secret. For the registry proofs the two runs send the oracle the same transcript, which determines
  the first moves because points have one compressed form. \<^bold>\<open>Shamir\<close> (\<^verbatim>\<open>shamir.rs\<close>): \<open>Shamir\<close>, \<open>Shamir_Poly\<close>, \<open>Shamir_Linear\<close>, \<open>Shamir_Decode\<close>: the
  Gaussian elimination decides linear systems, and \<open>locate\<close> corrects exactly the wrong shares, up to the capacity.

  \<^bold>\<open>Payment instructions\<close> (\<^verbatim>\<open>zkpi/src\<close>). \<open>Instructions\<close> and \<open>Venue\<close> model \<^verbatim>\<open>lib.rs\<close>, \<open>Typed\<close> models \<^verbatim>\<open>typed.rs\<close>,
  \<open>Cross_Domain\<close> and \<open>Handles\<close> their files, \<open>Wire\<close>, \<open>Wire_Codec\<close> and \<open>Typed_Wire\<close> the byte formats; \<open>Zkpi_Demo\<close> has the
  concrete parameters. A nullifier is spent once over plain and typed settlements, what the issuer builds settles,
  digests bind the signed fields, accepted values lie in bounds, the formats read back and are canonical. Decoding a hybrid
  container recurses on a shorter body, so it is a total function.

  \<^bold>\<open>Rule language\<close> (\<^verbatim>\<open>qomm-dsl/src\<close>). \<open>Dsl\<close> (intervals, tokenizer, parser), \<open>Dsl_Rule\<close> (analysis), \<open>Dsl_Emit\<close>,
  \<open>Dsl_Registry\<close>; \<open>Dsl_Parser\<close> shows that the fuel given to the recursive descent, a bound linear in the number of tokens,
  is never used up and that more changes nothing; \<open>Dsl_Sound\<close> that the interval analysis is sound, with the locale
  \<open>interval_operation\<close>, except where an input takes the magnitude of a \<open>signed\<close> call below the negated upper end of its
  interval, which the checker overlooks and the predicate \<open>signed_escapes\<close> names; \<open>Dsl_Checked\<close> and \<open>Dsl_Digest\<close> what a checked rule and an approved digest guarantee. The argument
  \<open>checks\<close> distinguishes builds with and without overflow checks.

  \<^bold>\<open>Audit\<close> (\<^verbatim>\<open>qomm-audit/src\<close>). \<open>Audit_Receipts\<close> and \<open>Audit_Safety\<close> (\<^verbatim>\<open>receipts.rs\<close>): conflicting settlements convict
  a node or are a collision of the hash on two different texts, evidence of equivocation is never made up. \<open>Publication\<close>, \<open>Publication_Ledger\<close> and \<open>Publication_Safety\<close>
  (\<^verbatim>\<open>distributed_dp.rs, publication.rs, publication_ledger.rs\<close>): budgets are never exceeded, certificates form a chain, the
  sampler agrees with the generated circuit. Here the machine also carries the list of certificates issued, which the
  code does not store; it appears in the statements only.

  \<^bold>\<open>Frames\<close> (\<^verbatim>\<open>zkpi-committee/src/wire.rs\<close>). \<open>Frames\<close> has field elements of four 64-bit limbs, the frame codec and
  additive sharing; \<open>Frames_Sound\<close> shows the carry arithmetic exact modulo the scalar order and that shares reconstruct.
  Rejection sampling may run forever, so it is a \<open>partial_function\<close>; the theorem shows that it returns from a productive
  source.

  The theories named \<open>_Properties\<close> hold the numbered properties with their witnesses. Several also record, as lemmas,
  inputs on which the code departs from its documentation.

  \<^bold>\<open>Not modelled.\<close> The network services, processes, TLS and key storage of \<^verbatim>\<open>zkpi-committee\<close>, and its further codecs,
  issuers and authority records, which repeat the pattern of the modelled formats over JSON and files; the joint provers
  of \<^verbatim>\<open>zkpi-proofs\<close>, interactive protocols of many rounds between parties, and the quote, limit and identity proofs
  composed from the modelled ones; \<open>deal_quorum\<close> and the distributed key generation of \<^verbatim>\<open>zkpi/src/lib.rs\<close>, which call
  the FROST crate; \<^verbatim>\<open>qomm-mpc\<close>, which drives an external engine; \<^verbatim>\<open>qomm-batch-audit\<close> and the verifier program, command
  lines over modelled parts; \<^verbatim>\<open>qomm-sim\<close>, \<^verbatim>\<open>zkfmi-measure\<close> and \<^verbatim>\<open>zkpi-harness\<close>, floating-point simulation, statistics and
  benchmarks. Floating point inside a modelled file (the noise distribution) is a parameter. File locks, permissions and
  renames of the publication ledger are left out: an operation that holds the lock is one step.
\<close>

end
